(* ===== verification/Prelude.thy ===== *)
theory Prelude
  imports Complex_Main "HOL-Library.AList" "HOL-Library.Char_ord"
    "HOL-Library.List_Lexorder" "HOL-Library.Product_Lexorder"
begin

text \<open>
  Shared vocabulary of the development.

  A Python \<open>str\<close> is modelled by the list of its UTF-8 bytes (\<open>string\<close>), so that
  \<open>s.encode("utf-8")\<close> is the identity, ASCII literals are ordinary literals, splitting at an
  ASCII character, prefix tests and percent-coding act on bytes exactly as the code acts on
  characters, and the lexicographic order is the code point order.  Case mapping and white
  space are the ASCII part of Python's tables, and slices such as \<open>s[:512]\<close> count bytes.
  Wall-clock and monotonic readings are exact rationals.  A Python \<open>dict\<close> whose order matters
  is an association list with \<open>AList.update\<close>, which overwrites in place and appends new keys
  at the end as a dict does.
\<close>

named_theorems pres \<open>operations that keep a predicate of the state\<close>
named_theorems frame \<open>fields that an operation leaves alone\<close>

subsection \<open>Strings\<close>

definition is_space :: "char \<Rightarrow> bool" where
  "is_space c = (c \<in> set [CHR '' '', CHR 0x09, CHR 0x0A, CHR 0x0B, CHR 0x0C, CHR 0x0D,
                         CHR 0x1C, CHR 0x1D, CHR 0x1E, CHR 0x1F])"

definition is_digit :: "char \<Rightarrow> bool" where
  "is_digit c = (let n = of_char c :: nat in 48 \<le> n \<and> n \<le> 57)"

definition is_lower_hex :: "char \<Rightarrow> bool" where
  "is_lower_hex c = (is_digit c \<or> (let n = of_char c :: nat in 97 \<le> n \<and> n \<le> 102))"

definition is_hex :: "char \<Rightarrow> bool" where
  "is_hex c = (is_lower_hex c \<or> (let n = of_char c :: nat in 65 \<le> n \<and> n \<le> 70))"

definition upper_char :: "char \<Rightarrow> char" where
  "upper_char c = (let n = of_char c :: nat in if 97 \<le> n \<and> n \<le> 122 then char_of (n - 32) else c)"

definition lower_char :: "char \<Rightarrow> char" where
  "lower_char c = (let n = of_char c :: nat in if 65 \<le> n \<and> n \<le> 90 then char_of (n + 32) else c)"

abbreviation str_upper :: "string \<Rightarrow> string" where "str_upper \<equiv> map upper_char"
abbreviation str_lower :: "string \<Rightarrow> string" where "str_lower \<equiv> map lower_char"

definition starts_with :: "string \<Rightarrow> string \<Rightarrow> bool" where
  "starts_with p s = (take (length p) s = p)"

definition ends_with :: "string \<Rightarrow> string \<Rightarrow> bool" where
  "ends_with p s = starts_with (rev p) (rev s)"

fun contains :: "string \<Rightarrow> string \<Rightarrow> bool" where
  "contains p [] = (p = [])"
| "contains p (x # xs) = (starts_with p (x # xs) \<or> contains p xs)"

text \<open>\<open>s.split(c)\<close> for a one-character separator, and \<open>sep.join(ws)\<close>.\<close>

fun split_on :: "char \<Rightarrow> string \<Rightarrow> string list" where
  "split_on c [] = [[]]"
| "split_on c (x # xs) =
     (if x = c then [] # split_on c xs
      else (case split_on c xs of [] \<Rightarrow> [[x]] | w # ws \<Rightarrow> (x # w) # ws))"

fun join_with :: "string \<Rightarrow> string list \<Rightarrow> string" where
  "join_with sep [] = []"
| "join_with sep [w] = w"
| "join_with sep (w # v # ws) = w @ sep @ join_with sep (v # ws)"

text \<open>\<open>s.partition(c)\<close>: head, whether the separator was found, tail.\<close>

definition py_partition :: "char \<Rightarrow> string \<Rightarrow> string \<times> bool \<times> string" where
  "py_partition c s =
     (takeWhile (\<lambda>x. x \<noteq> c) s, c \<in> set s, drop 1 (dropWhile (\<lambda>x. x \<noteq> c) s))"

text \<open>\<open>s.strip()\<close> and \<open>s.split()\<close>.\<close>

definition lstrip :: "string \<Rightarrow> string" where
  "lstrip s = dropWhile is_space s"

definition strip :: "string \<Rightarrow> string" where
  "strip s = rev (lstrip (rev (lstrip s)))"

fun split_ws :: "string \<Rightarrow> string list" where
  "split_ws [] = []"
| "split_ws (x # xs) =
     (if is_space x then split_ws xs
      else (case xs of
              [] \<Rightarrow> [[x]]
            | y # _ \<Rightarrow>
                if is_space y then [x] # split_ws xs
                else (case split_ws xs of [] \<Rightarrow> [[x]] | w # ws \<Rightarrow> (x # w) # ws)))"

lemma split_on_nonempty [simp]: "split_on c s \<noteq> []"
  by (induction s) (auto split: list.splits)

lemma join_split_on: "join_with [c] (split_on c s) = s"
proof (induction s)
  case (Cons x xs)
  then show ?case
    by (cases "split_on c xs"; cases "tl (split_on c xs)") auto
qed simp

lemma split_on_no_sep: "\<forall>w \<in> set (split_on c s). c \<notin> set w"
  by (induction s) (auto split: list.splits)

lemma split_on_word: "c \<notin> set w \<Longrightarrow> split_on c w = [w]"
  by (induction w) auto

lemma split_on_append:
  "c \<notin> set w \<Longrightarrow> split_on c (w @ c # s) = w # split_on c s"
  by (induction w) auto

lemma split_on_join:
  "ws \<noteq> [] \<Longrightarrow> \<forall>w \<in> set ws. c \<notin> set w \<Longrightarrow> split_on c (join_with [c] ws) = ws"
  by (induction "[c]" ws rule: join_with.induct) (auto simp: split_on_word split_on_append)

lemma starts_with_append [simp]: "starts_with p (p @ s)"
  by (simp add: starts_with_def)

lemma starts_with_iff: "starts_with p s \<longleftrightarrow> (\<exists>t. s = p @ t)"
  by (metis append_eq_conv_conj append_take_drop_id starts_with_def)

lemma ends_with_iff: "ends_with p s \<longleftrightarrow> (\<exists>t. s = t @ p)"
  by (auto simp: ends_with_def starts_with_iff) (metis rev_append rev_rev_ident)

subsection \<open>Decimal numbers\<close>

definition digit_char :: "nat \<Rightarrow> char" where
  "digit_char d = char_of (48 + d)"

definition digit_value :: "char \<Rightarrow> nat" where
  "digit_value c = of_char c - 48"

fun show_nat :: "nat \<Rightarrow> string" where
  "show_nat n = (if n < 10 then [digit_char n] else show_nat (n div 10) @ [digit_char (n mod 10)])"

declare show_nat.simps [simp del]

definition show_int :: "int \<Rightarrow> string" where
  "show_int i = (if i < 0 then ''-'' @ show_nat (nat (- i)) else show_nat (nat i))"

definition is_decimal :: "string \<Rightarrow> bool" where
  "is_decimal s = (s \<noteq> [] \<and> list_all is_digit s)"

definition parse_nat :: "string \<Rightarrow> nat" where
  "parse_nat s = foldl (\<lambda>a c. 10 * a + digit_value c) 0 s"

lemma digit_value_char: "d < 10 \<Longrightarrow> digit_value (digit_char d) = d"
  by (simp add: digit_value_def digit_char_def)

lemma is_digit_digit_char: "d < 10 \<Longrightarrow> is_digit (digit_char d)"
  by (simp add: is_digit_def digit_char_def)

lemma parse_show_nat: "parse_nat (show_nat n) = n"
proof (induction n rule: show_nat.induct)
  case (1 n)
  show ?case
    using 1 by (subst show_nat.simps) (auto simp: parse_nat_def digit_value_char)
qed

lemma is_decimal_show_nat: "is_decimal (show_nat n)"
proof (induction n rule: show_nat.induct)
  case (1 n)
  show ?case
    using 1 by (subst show_nat.simps) (auto simp: is_decimal_def is_digit_digit_char)
qed

subsection \<open>Lists and dictionaries\<close>

definition count_where :: "('a \<Rightarrow> bool) \<Rightarrow> 'a list \<Rightarrow> int" where
  "count_where P xs = (\<Sum>x \<leftarrow> xs. if P x then 1 else 0)"

text \<open>\<open>UPDATE ... WHERE key = k\<close> on a table with distinct keys changes one summand of a sum.\<close>

definition upd_key :: "('a \<Rightarrow> 'k) \<Rightarrow> 'k \<Rightarrow> ('a \<Rightarrow> 'a) \<Rightarrow> 'a list \<Rightarrow> 'a list" where
  "upd_key key k g xs = map (\<lambda>x. if key x = k then g x else x) xs"

lemma delete_update_fresh:
  "k \<notin> fst ` set al \<Longrightarrow> AList.delete k (AList.update k v al) = al"
  by (induction al) (auto simp: image_iff)

lemma upd_key_notin: "k \<notin> key ` set xs \<Longrightarrow> upd_key key k g xs = xs"
  by (induction xs) (auto simp: upd_key_def)

lemma sum_list_upd_key:
  fixes f :: "'a \<Rightarrow> int"
  assumes "distinct (map key xs)" and "x \<in> set xs" and "key x = k"
  shows "sum_list (map f (upd_key key k g xs)) = sum_list (map f xs) - f x + f (g x)"
  using assms
proof (induction xs)
  case (Cons y ys)
  show ?case
  proof (cases "key y = k")
    case True
    with Cons.prems have "y = x" and "k \<notin> key ` set ys"
      by (auto intro: rev_image_eqI)
    with True show ?thesis using upd_key_notin [of k key ys g]
      by (simp add: upd_key_def)
  next
    case False
    with Cons show ?thesis by (auto simp: upd_key_def)
  qed
qed simp

lemma concat_map_Nil: "concat (map f xs) = [] \<longleftrightarrow> (\<forall>x \<in> set xs. f x = [])"
  by (induction xs) auto

lemma find_Some_mem: "find P xs = Some x \<Longrightarrow> x \<in> set xs \<and> P x"
  by (metis find_Some_iff nth_mem)

lemma find_key:
  "distinct (map key xs) \<Longrightarrow> x \<in> set xs \<Longrightarrow> find (\<lambda>y. key y = key x) xs = Some x"
  by (induction xs) (auto intro: rev_image_eqI)

subsection \<open>Operations that change a state and may raise\<close>

text \<open>
  An operation of the controller takes its state and returns either the exception it raised or
  its result, with the state it leaves in both cases.
\<close>

type_synonym ('s, 'e, 'a) act = "'s \<Rightarrow> ('e + 'a) \<times> 's"

definition ret :: "'a \<Rightarrow> ('s, 'e, 'a) act" where
  "ret x s = (Inr x, s)"

definition raise :: "'e \<Rightarrow> ('s, 'e, 'a) act" where
  "raise e s = (Inl e, s)"

definition andthen :: "('s, 'e, 'a) act \<Rightarrow> ('a \<Rightarrow> ('s, 'e, 'b) act) \<Rightarrow> ('s, 'e, 'b) act" where
  "andthen m f s = (case m s of (Inl e, t) \<Rightarrow> (Inl e, t) | (Inr x, t) \<Rightarrow> f x t)"

definition modify :: "('s \<Rightarrow> 's) \<Rightarrow> ('s, 'e, unit) act" where
  "modify f s = (Inr (), f s)"

definition gets :: "('s \<Rightarrow> 'a) \<Rightarrow> ('s, 'e, 'a) act" where
  "gets f s = (Inr (f s), s)"

text \<open>\<open>try: m except E as exc: h(exc)\<close> for the exceptions that \<open>catches\<close> selects.\<close>

definition try_except ::
  "('s, 'e, 'a) act \<Rightarrow> ('e \<Rightarrow> bool) \<Rightarrow> ('e \<Rightarrow> ('s, 'e, 'a) act) \<Rightarrow> ('s, 'e, 'a) act" where
  "try_except m catches h s =
     (case m s of
        (Inl e, t) \<Rightarrow> if catches e then h e t else (Inl e, t)
      | (Inr x, t) \<Rightarrow> (Inr x, t))"

definition keeps :: "('s \<Rightarrow> bool) \<Rightarrow> ('s, 'e, 'a) act \<Rightarrow> bool" where
  "keeps I m \<longleftrightarrow> (\<forall>s. I s \<longrightarrow> I (snd (m s)))"

lemma keepsI: "(\<And>s. I s \<Longrightarrow> I (snd (m s))) \<Longrightarrow> keeps I m"
  by (simp add: keeps_def)

lemma keepsD: "keeps I m \<Longrightarrow> I s \<Longrightarrow> m s = (r, t) \<Longrightarrow> I t"
  unfolding keeps_def by (metis snd_conv)

lemma keeps_ret [pres]: "keeps I (ret x)"
  by (simp add: keeps_def ret_def)

lemma keeps_raise [pres]: "keeps I (raise e)"
  by (simp add: keeps_def raise_def)

lemma keeps_gets [pres]: "keeps I (gets f)"
  by (simp add: keeps_def gets_def)

lemma keeps_modify: "(\<And>s. I s \<Longrightarrow> I (f s)) \<Longrightarrow> keeps I (modify f)"
  by (simp add: keeps_def modify_def)

lemma keeps_andthen [pres]:
  assumes "keeps I m" and "\<And>x. keeps I (f x)"
  shows "keeps I (andthen m f)"
proof (rule keepsI)
  fix s assume "I s"
  obtain r t where mt: "m s = (r, t)" by (cases "m s")
  with assms(1) \<open>I s\<close> have "I t" by (rule keepsD)
  with mt assms(2) show "I (snd (andthen m f s))"
    by (cases r) (auto simp: andthen_def keeps_def)
qed

lemma keeps_try [pres]:
  assumes "keeps I m" and "\<And>e. keeps I (h e)"
  shows "keeps I (try_except m c h)"
proof (rule keepsI)
  fix s assume "I s"
  obtain r t where mt: "m s = (r, t)" by (cases "m s")
  with assms(1) \<open>I s\<close> have "I t" by (rule keepsD)
  with mt assms(2) show "I (snd (try_except m c h s))"
    by (cases r) (auto simp: try_except_def keeps_def)
qed

lemma keeps_if [pres]: "(b \<Longrightarrow> keeps I m) \<Longrightarrow> (\<not> b \<Longrightarrow> keeps I n) \<Longrightarrow> keeps I (if b then m else n)"
  by simp

lemma keeps_option [pres]:
  "(x = None \<Longrightarrow> keeps I m) \<Longrightarrow> (\<And>y. x = Some y \<Longrightarrow> keeps I (f y)) \<Longrightarrow>
    keeps I (case x of None \<Rightarrow> m | Some y \<Rightarrow> f y)"
  by (cases x) auto

lemma andthen_Inr: "andthen m f s = (Inr x, t) \<longleftrightarrow> (\<exists>y u. m s = (Inr y, u) \<and> f y u = (Inr x, t))"
  by (auto simp: andthen_def split: prod.splits sum.splits)

lemma andthenE:
  assumes "andthen m f s = (Inr x, t)"
  obtains y u where "m s = (Inr y, u)" and "f y u = (Inr x, t)"
  using assms by (auto simp: andthen_Inr)

lemma ret_Inr [simp]: "ret y s = (Inr x, t) \<longleftrightarrow> x = y \<and> t = s"
  by (auto simp: ret_def)

lemma raise_Inr [simp]: "raise e s \<noteq> (Inr x, t)"
  by (simp add: raise_def)

lemma modify_Inr [simp]: "modify h s = (Inr x, t) \<longleftrightarrow> t = h s"
  by (auto simp: modify_def)

lemma keeps_sum [pres]:
  "(\<And>y. x = Inl y \<Longrightarrow> keeps I (m y)) \<Longrightarrow> (\<And>y. x = Inr y \<Longrightarrow> keeps I (f y)) \<Longrightarrow>
    keeps I (case x of Inl y \<Rightarrow> m y | Inr y \<Rightarrow> f y)"
  by (cases x) auto

lemma keeps_prod [pres]: "(\<And>a b. x = (a, b) \<Longrightarrow> keeps I (f a b)) \<Longrightarrow> keeps I (case x of (a, b) \<Rightarrow> f a b)"
  by (cases x) auto

lemma keeps_let [pres]: "(\<And>y. y = x \<Longrightarrow> keeps I (f y)) \<Longrightarrow> keeps I (let y = x in f y)"
  by simp

end
