(* ===== verification/Telemetry.thy ===== *)
theory Telemetry
  imports Prelude
begin

text \<open>
  \<open>src/download_telemetry.py\<close>: message sanitising, the metric reductions over durable rows and
  over projected summaries, and the runtime part of \<open>TelemetryPublisher\<close> (lifecycle, active
  samples, validations, the bounded event log).  Locks, the publishing thread and the JSON file
  are not modelled; the random event identifier is left out of an event.
\<close>

definition MAX_EVENTS :: nat where "MAX_EVENTS = 100"
definition MAX_MESSAGE :: nat where "MAX_MESSAGE = 512"

definition sanitize_message :: "string \<Rightarrow> string" where
  "sanitize_message m =
     take MAX_MESSAGE (join_with '' '' (split_ws (map (\<lambda>c. if c = CHR 0x1B then CHR ''?'' else c) m)))"

text \<open>A metric is a value with its quality word.\<close>

type_synonym 'a metric = "'a option \<times> string"

definition metric :: "'a option \<Rightarrow> string \<Rightarrow> 'a metric" where
  "metric v q = (v, q)"

definition estimate_eta_seconds :: "int option \<Rightarrow> int option \<Rightarrow> int option \<Rightarrow> rat option" where
  "estimate_eta_seconds received_bytes total_bytes speed_bps =
     (case (received_bytes, total_bytes, speed_bps) of
        (Some r, Some t, Some s) \<Rightarrow>
          if r < 0 \<or> t < r \<or> s \<le> 0 then None else Some (of_int (t - r) / of_int s)
      | _ \<Rightarrow> None)"

subsection \<open>Runtime samples\<close>

record sample =
  s_url :: string
  s_worker :: nat
  s_attempt :: nat
  s_phase :: string
  s_phase_started :: rat
  s_attempt_started :: rat
  s_pid :: "int option"
  s_received :: "int option"
  s_total :: "int option"
  s_total_source :: string
  s_speed :: "int option"
  s_connections :: "int option"
  s_sample_age :: "rat option"
  s_last_progress :: "rat option"
  s_sequence :: "int option"
  s_progress :: "(rat \<times> int option) list"
  s_monotonic :: "rat option"

text \<open>A durable row as \<open>reduce_metrics\<close> reads it: its URL, whether it is complete, its bytes.\<close>

record metric_row =
  mr_url :: string
  mr_complete :: bool
  mr_bytes :: "int option"

record metrics =
  m_retained :: "int metric"
  m_complete :: "int metric"
  m_session_received :: "int metric"
  m_known_total :: "int metric"
  m_known_remaining :: "int metric"
  m_unknown :: "int metric"
  m_speed :: "int metric"
  m_average_speed :: "int metric"
  m_eta :: "rat metric"
  m_eta_reason :: string
  m_finish :: "rat metric"
  m_elapsed :: "rat metric"

definition zero_if_none :: "int option \<Rightarrow> int" where
  "zero_if_none b = (case b of None \<Rightarrow> 0 | Some n \<Rightarrow> n)"

text \<open>
  The result dictionary both reductions end with.  The finish time is the instant
  \<open>now + eta\<close>; its ISO formatting is not modelled.
\<close>

definition metric_report :: "bool \<Rightarrow> int \<Rightarrow> int \<Rightarrow> int \<Rightarrow> int \<Rightarrow> int \<Rightarrow> int \<Rightarrow> string \<Rightarrow> rat \<Rightarrow> rat \<Rightarrow> metrics" where
  "metric_report act_any retained complete_b known_total known_remaining unknown speed speed_quality
       elapsed now =
     (let eta = (if act_any \<and> unknown = 0 \<and> speed > 0 \<and> speed_quality = ''exact''
                 then Some (of_int known_remaining / of_int speed) else None) in
      \<lparr>m_retained = metric (Some retained) (if \<not> act_any then ''exact'' else ''partial''),
       m_complete = metric (Some complete_b) ''exact'',
       m_session_received = metric None ''unavailable'',
       m_known_total = metric (Some known_total) (if unknown \<noteq> 0 then ''partial'' else ''exact''),
       m_known_remaining = metric (Some known_remaining) (if unknown \<noteq> 0 then ''partial'' else ''exact''),
       m_unknown = metric (Some unknown) ''exact'',
       m_speed = metric (if act_any then Some speed else None)
                   (if act_any then speed_quality else ''unavailable''),
       m_average_speed = metric None ''unavailable'',
       m_eta = metric eta (if eta \<noteq> None then ''exact'' else ''unavailable''),
       m_eta_reason = (if eta \<noteq> None then ''based on current aria2 RPC speed''
                       else if act_any then ''engine counters unavailable''
                       else ''no active transfer''),
       m_finish = metric (map_option (\<lambda>e. now + e) eta)
                    (if eta \<noteq> None then ''exact'' else ''unavailable''),
       m_elapsed = metric (Some elapsed) ''exact''\<rparr>)"

record accumulator =
  ac_retained :: int
  ac_total :: int
  ac_remaining :: int
  ac_unknown :: int
  ac_speed :: int
  ac_quality :: string
  ac_known :: int

definition lookup_active :: "sample list \<Rightarrow> string \<Rightarrow> sample option" where
  "lookup_active act u = map_of (rev (map (\<lambda>s. (s_url s, s)) act)) u"

text \<open>One turn of the loop over the durable rows.\<close>

definition reduce_item :: "sample list \<Rightarrow> metric_row \<Rightarrow> accumulator \<Rightarrow> accumulator" where
  "reduce_item act item a =
     (if mr_complete item then a
      else
        let sm = lookup_active act (mr_url item);
            total = Option.bind sm s_total;
            received = Option.bind sm s_received;
            a = (case total of
                   None \<Rightarrow> a\<lparr>ac_unknown := ac_unknown a + 1\<rparr>
                 | Some t \<Rightarrow> a\<lparr>ac_total := ac_total a + t,
                     ac_remaining := ac_remaining a + max 0 (t - zero_if_none received)\<rparr>);
            a = (case received of None \<Rightarrow> a | Some r \<Rightarrow> a\<lparr>ac_retained := ac_retained a + r\<rparr>)
        in (case sm of
              None \<Rightarrow> a
            | Some s \<Rightarrow>
                (case s_speed s of
                   Some v \<Rightarrow> a\<lparr>ac_speed := ac_speed a + v\<rparr>
                 | None \<Rightarrow> a\<lparr>ac_quality := ''partial''\<rparr>)))"

definition start_accumulator :: "int \<Rightarrow> accumulator" where
  "start_accumulator n =
     \<lparr>ac_retained = n, ac_total = n, ac_remaining = 0, ac_unknown = 0, ac_speed = 0,
      ac_quality = ''exact'', ac_known = 0\<rparr>"

definition complete_bytes_of :: "metric_row list \<Rightarrow> int" where
  "complete_bytes_of items =
     (\<Sum>r \<leftarrow> filter mr_complete items. zero_if_none (mr_bytes r))"

definition reduce_metrics :: "metric_row list \<Rightarrow> sample list \<Rightarrow> rat \<Rightarrow> rat \<Rightarrow> rat \<Rightarrow> metrics" where
  "reduce_metrics items act started_monotonic sampled_monotonic now =
     (let complete = complete_bytes_of items;
          a = fold (reduce_item act) items (start_accumulator complete)
      in metric_report (act \<noteq> []) (ac_retained a) complete (ac_total a) (ac_remaining a)
           (ac_unknown a) (ac_speed a) (ac_quality a)
           (max 0 (sampled_monotonic - started_monotonic)) now)"

text \<open>One turn of the loop over the active samples.\<close>

definition reduce_sample :: "sample \<Rightarrow> accumulator \<Rightarrow> accumulator" where
  "reduce_sample s a =
     (let a = (case s_total s of
                 None \<Rightarrow> a
               | Some t \<Rightarrow> a\<lparr>ac_known := ac_known a + 1, ac_total := ac_total a + t,
                   ac_remaining := ac_remaining a + max 0 (t - zero_if_none (s_received s))\<rparr>);
          a = (case s_received s of None \<Rightarrow> a | Some r \<Rightarrow> a\<lparr>ac_retained := ac_retained a + r\<rparr>)
      in (case s_speed s of
            Some v \<Rightarrow> a\<lparr>ac_speed := ac_speed a + v\<rparr>
          | None \<Rightarrow> a\<lparr>ac_quality := ''partial''\<rparr>))"

definition reduce_projected_metrics :: "int \<Rightarrow> int \<Rightarrow> int \<Rightarrow> sample list \<Rightarrow> rat \<Rightarrow> rat \<Rightarrow> rat \<Rightarrow> metrics" where
  "reduce_projected_metrics selected_count complete_count complete_bytes act
       started_monotonic sampled_monotonic now =
     (let a = fold reduce_sample act (start_accumulator complete_bytes);
          unknown = max 0 (selected_count - complete_count - ac_known a)
      in metric_report (act \<noteq> []) (ac_retained a) complete_bytes (ac_total a) (ac_remaining a)
           unknown (ac_speed a) (ac_quality a)
           (max 0 (sampled_monotonic - started_monotonic)) now)"

subsection \<open>The publisher's runtime state\<close>

record event =
  e_at :: string
  e_severity :: string
  e_category :: string
  e_item :: "string option"
  e_worker :: "nat option"
  e_message :: string

record validation =
  v_item :: string
  v_processed :: int
  v_total :: int

record publisher =
  tp_session :: string
  tp_lifecycle :: string
  tp_reason :: "string option"
  tp_active :: "(string \<times> sample) list"
  tp_validation :: "(string \<times> validation) list"
  tp_events :: "event list"
  tp_errors :: "string list"
  tp_last_payload :: "string option"
  tp_completed_at :: "string option"
  tp_stopped_at :: "string option"

definition init_publisher :: "string \<Rightarrow> publisher" where
  "init_publisher session =
     \<lparr>tp_session = session, tp_lifecycle = ''starting'', tp_reason = None, tp_active = [],
      tp_validation = [], tp_events = [], tp_errors = [], tp_last_payload = None,
      tp_completed_at = None, tp_stopped_at = None\<rparr>"

text \<open>\<open>deque(maxlen=n).append\<close>.\<close>

definition push_bounded :: "nat \<Rightarrow> 'a \<Rightarrow> 'a list \<Rightarrow> 'a list" where
  "push_bounded n x xs = (let ys = xs @ [x] in drop (length ys - n) ys)"

definition tp_event :: "string \<Rightarrow> string \<Rightarrow> string \<Rightarrow> string \<Rightarrow> string option \<Rightarrow> nat option \<Rightarrow>
    publisher \<Rightarrow> publisher" where
  "tp_event now severity category message url worker_id p =
     p\<lparr>tp_events := push_bounded MAX_EVENTS
        \<lparr>e_at = now, e_severity = severity, e_category = category, e_item = url,
         e_worker = worker_id, e_message = sanitize_message message\<rparr> (tp_events p)\<rparr>"

definition tp_set_lifecycle :: "string \<Rightarrow> string \<Rightarrow> string option \<Rightarrow> publisher \<Rightarrow> publisher" where
  "tp_set_lifecycle now lifecycle reason p =
     (let p = p\<lparr>tp_lifecycle := lifecycle, tp_reason := reason\<rparr>;
          p = (if lifecycle = ''finished'' \<and> tp_completed_at p = None
               then p\<lparr>tp_completed_at := Some now\<rparr> else p)
      in if lifecycle = ''stopped'' \<and> tp_stopped_at p = None
         then p\<lparr>tp_stopped_at := Some now\<rparr> else p)"

definition tp_set_active :: "rat \<Rightarrow> string \<Rightarrow> nat \<Rightarrow> nat \<Rightarrow> string \<Rightarrow> int option \<Rightarrow> publisher \<Rightarrow> publisher" where
  "tp_set_active mclk url worker_id attempt phase pid p =
     p\<lparr>tp_active := AList.update url
        \<lparr>s_url = url, s_worker = worker_id, s_attempt = attempt, s_phase = phase,
         s_phase_started = mclk, s_attempt_started = mclk, s_pid = pid, s_received = None,
         s_total = None, s_total_source = ''unavailable'', s_speed = None, s_connections = None,
         s_sample_age = None, s_last_progress = None, s_sequence = None, s_progress = [],
         s_monotonic = None\<rparr> (tp_active p)\<rparr>"

definition tp_update_phase :: "rat \<Rightarrow> string \<Rightarrow> string \<Rightarrow> publisher \<Rightarrow> publisher" where
  "tp_update_phase mclk url phase p =
     (case map_of (tp_active p) url of
        None \<Rightarrow> p
      | Some s \<Rightarrow> p\<lparr>tp_active := AList.update url
          (s\<lparr>s_phase := phase, s_phase_started := mclk\<rparr>) (tp_active p)\<rparr>)"

text \<open>An engine total of 0 is unknown; samples older than 30 s leave the history.\<close>

definition tp_update_sample :: "rat \<Rightarrow> string \<Rightarrow> string \<Rightarrow> int option \<Rightarrow> int option \<Rightarrow> int option \<Rightarrow>
    int option \<Rightarrow> publisher \<Rightarrow> publisher" where
  "tp_update_sample mclk now url received_bytes total_bytes speed_bps connections p =
     (case map_of (tp_active p) url of
        None \<Rightarrow> p
      | Some s \<Rightarrow>
          let total_bytes = (if total_bytes = Some 0 then None else total_bytes);
              progressed = (case received_bytes of
                  None \<Rightarrow> False
                | Some r \<Rightarrow> (case s_received s of None \<Rightarrow> True | Some q \<Rightarrow> q < r));
              s = (if progressed then s\<lparr>s_last_progress := Some mclk\<rparr> else s);
              s = s\<lparr>s_received := received_bytes, s_total := total_bytes, s_speed := speed_bps,
                   s_connections := connections, s_total_source := ''aria2_rpc'',
                   s_sample_age := Some 0,
                   s_sequence := Some ((case s_sequence s of None \<Rightarrow> 0 | Some q \<Rightarrow> q) + 1),
                   s_monotonic := Some mclk,
                   s_progress := filter (\<lambda>v. mclk - fst v \<le> 30) (s_progress s @ [(mclk, received_bytes)])\<rparr>
          in (if progressed then p\<lparr>tp_last_payload := Some now\<rparr> else p)
               \<lparr>tp_active := AList.update url s (tp_active p)\<rparr>)"

definition tp_set_validation :: "string \<Rightarrow> int \<Rightarrow> int \<Rightarrow> publisher \<Rightarrow> publisher" where
  "tp_set_validation url done_bytes total_bytes p =
     p\<lparr>tp_validation := AList.update url \<lparr>v_item = url, v_processed = done_bytes, v_total = total_bytes\<rparr>
        (tp_validation p)\<rparr>"

definition tp_clear_validation :: "string \<Rightarrow> publisher \<Rightarrow> publisher" where
  "tp_clear_validation url p = p\<lparr>tp_validation := AList.delete url (tp_validation p)\<rparr>"

definition tp_clear_active :: "string \<Rightarrow> publisher \<Rightarrow> publisher" where
  "tp_clear_active url p = p\<lparr>tp_active := AList.delete url (tp_active p)\<rparr>"

text \<open>\<open>_aged_active_copy\<close>: the age of a sample is measured when it is copied.\<close>

definition tp_aged_active_copy :: "rat \<Rightarrow> publisher \<Rightarrow> sample list" where
  "tp_aged_active_copy mclk p =
     map (\<lambda>(_, s). case s_monotonic s of
            None \<Rightarrow> s
          | Some tm \<Rightarrow> s\<lparr>s_sample_age := Some (max 0 (mclk - tm)), s_monotonic := None\<rparr>)
       (tp_active p)"

subsection \<open>Closed form of the two reductions\<close>

definition rest_of :: "sample \<Rightarrow> int" where
  "rest_of s = (case s_total s of None \<Rightarrow> 0 | Some t \<Rightarrow> max 0 (t - zero_if_none (s_received s)))"

definition known_of :: "sample \<Rightarrow> int" where
  "known_of s = (if s_total s = None then 0 else 1)"

definition item_val :: "sample list \<Rightarrow> (sample \<Rightarrow> int) \<Rightarrow> metric_row \<Rightarrow> int" where
  "item_val act h r =
     (if mr_complete r then 0 else (case lookup_active act (mr_url r) of None \<Rightarrow> 0 | Some s \<Rightarrow> h s))"

lemma reduce_item_fields:
  "ac_total (reduce_item act r a) = ac_total a + item_val act (\<lambda>s. zero_if_none (s_total s)) r"
  "ac_remaining (reduce_item act r a) = ac_remaining a + item_val act rest_of r"
  "ac_retained (reduce_item act r a) = ac_retained a + item_val act (\<lambda>s. zero_if_none (s_received s)) r"
  "ac_speed (reduce_item act r a) = ac_speed a + item_val act (\<lambda>s. zero_if_none (s_speed s)) r"
  "ac_unknown (reduce_item act r a) =
     ac_unknown a + (if mr_complete r then 0 else 1) - item_val act known_of r"
  "ac_quality (reduce_item act r a) =
     (if \<not> mr_complete r \<and> (\<exists>s. lookup_active act (mr_url r) = Some s \<and> s_speed s = None)
      then ''partial'' else ac_quality a)"
  by (auto simp: reduce_item_def item_val_def rest_of_def known_of_def zero_if_none_def Let_def
        split: option.splits)

lemma fold_reduce_item:
  "ac_total (fold (reduce_item act) rs a) =
     ac_total a + (\<Sum>r\<leftarrow>rs. item_val act (\<lambda>s. zero_if_none (s_total s)) r)"
  "ac_remaining (fold (reduce_item act) rs a) = ac_remaining a + (\<Sum>r\<leftarrow>rs. item_val act rest_of r)"
  "ac_retained (fold (reduce_item act) rs a) =
     ac_retained a + (\<Sum>r\<leftarrow>rs. item_val act (\<lambda>s. zero_if_none (s_received s)) r)"
  "ac_speed (fold (reduce_item act) rs a) =
     ac_speed a + (\<Sum>r\<leftarrow>rs. item_val act (\<lambda>s. zero_if_none (s_speed s)) r)"
  "ac_unknown (fold (reduce_item act) rs a) =
     ac_unknown a + int (length (filter (\<lambda>r. \<not> mr_complete r) rs)) - (\<Sum>r\<leftarrow>rs. item_val act known_of r)"
  by (induction rs arbitrary: a) (auto simp: reduce_item_fields)

lemma fold_reduce_item_quality:
  "ac_quality (fold (reduce_item act) rs a) =
     (if \<exists>r \<in> set rs. \<not> mr_complete r \<and> (\<exists>s. lookup_active act (mr_url r) = Some s \<and> s_speed s = None)
      then ''partial'' else ac_quality a)"
  by (induction rs arbitrary: a) (auto simp: reduce_item_fields)

lemma reduce_sample_fields:
  "ac_total (reduce_sample s a) = ac_total a + zero_if_none (s_total s)"
  "ac_remaining (reduce_sample s a) = ac_remaining a + rest_of s"
  "ac_retained (reduce_sample s a) = ac_retained a + zero_if_none (s_received s)"
  "ac_speed (reduce_sample s a) = ac_speed a + zero_if_none (s_speed s)"
  "ac_known (reduce_sample s a) = ac_known a + known_of s"
  "ac_quality (reduce_sample s a) = (if s_speed s = None then ''partial'' else ac_quality a)"
  by (auto simp: reduce_sample_def rest_of_def known_of_def zero_if_none_def Let_def
        split: option.splits)

lemma fold_reduce_sample:
  "ac_total (fold reduce_sample ss a) = ac_total a + (\<Sum>s\<leftarrow>ss. zero_if_none (s_total s))"
  "ac_remaining (fold reduce_sample ss a) = ac_remaining a + (\<Sum>s\<leftarrow>ss. rest_of s)"
  "ac_retained (fold reduce_sample ss a) = ac_retained a + (\<Sum>s\<leftarrow>ss. zero_if_none (s_received s))"
  "ac_speed (fold reduce_sample ss a) = ac_speed a + (\<Sum>s\<leftarrow>ss. zero_if_none (s_speed s))"
  "ac_known (fold reduce_sample ss a) = ac_known a + (\<Sum>s\<leftarrow>ss. known_of s)"
  by (induction ss arbitrary: a) (auto simp: reduce_sample_fields)

lemma fold_reduce_sample_quality:
  "ac_quality (fold reduce_sample ss a) =
     (if \<exists>s \<in> set ss. s_speed s = None then ''partial'' else ac_quality a)"
  by (induction ss arbitrary: a) (auto simp: reduce_sample_fields)

text \<open>The active samples belong one to one to unfinished rows of the selected run.\<close>

definition samples_of_rows :: "metric_row list \<Rightarrow> sample list \<Rightarrow> bool" where
  "samples_of_rows rows act \<longleftrightarrow> distinct (map mr_url rows) \<and> distinct (map s_url act) \<and>
     (\<forall>s \<in> set act. \<exists>r \<in> set rows. mr_url r = s_url s \<and> \<not> mr_complete r)"

lemma lookup_active_Some:
  assumes "distinct (map s_url act)"
  shows "lookup_active act u = Some s \<longleftrightarrow> s \<in> set act \<and> s_url s = u"
proof -
  have "distinct (map fst (rev (map (\<lambda>s. (s_url s, s)) act)))"
    using assms by (simp add: rev_map comp_def flip: rev_map)
  then show ?thesis
    unfolding lookup_active_def by (subst map_of_eq_Some_iff) auto
qed

lemma sum_item_val:
  assumes "samples_of_rows rows act"
  shows "(\<Sum>r\<leftarrow>rows. item_val act h r) = (\<Sum>s\<leftarrow>act. h s)"
proof -
  let ?U = "{r \<in> set rows. \<not> mr_complete r \<and> lookup_active act (mr_url r) \<noteq> None}"
  note d = assms [unfolded samples_of_rows_def]
  note look = lookup_active_Some [OF d [THEN conjunct2, THEN conjunct1]]
  have dr: "distinct rows" and da: "distinct act" using d by (auto simp: distinct_map)
  have inj: "inj_on mr_url (set rows)" using d by (auto simp: distinct_map)
  have "(\<Sum>r\<leftarrow>rows. item_val act h r) = (\<Sum>r\<in>set rows. item_val act h r)"
    using dr by (simp add: sum_list_distinct_conv_sum_set)
  also have "\<dots> = (\<Sum>r\<in>?U. item_val act h r)"
    by (rule sum.mono_neutral_right) (auto simp: item_val_def split: option.splits)
  also have "\<dots> = (\<Sum>s\<in>set act. h s)"
  proof (rule sum.reindex_bij_witness [where
        i = "\<lambda>s. THE r. r \<in> set rows \<and> mr_url r = s_url s" and
        j = "\<lambda>r. the (lookup_active act (mr_url r))"])
    fix r assume "r \<in> ?U"
    then obtain s where s: "lookup_active act (mr_url r) = Some s" "r \<in> set rows" "\<not> mr_complete r"
      by auto
    with look have u: "s \<in> set act" "s_url s = mr_url r" by auto
    show "(THE r'. r' \<in> set rows \<and> mr_url r' = s_url (the (lookup_active act (mr_url r)))) = r"
      using s u inj by (auto intro!: the_equality dest: inj_onD)
    show "the (lookup_active act (mr_url r)) \<in> set act" using s u by simp
    show "h (the (lookup_active act (mr_url r))) = item_val act h r"
      using s by (simp add: item_val_def)
  next
    fix s assume s: "s \<in> set act"
    with d obtain r where r: "r \<in> set rows" "mr_url r = s_url s" "\<not> mr_complete r" by auto
    have the: "(THE r. r \<in> set rows \<and> mr_url r = s_url s) = r"
      using r inj by (intro the_equality) (auto, metis inj_onD)
    have l: "lookup_active act (s_url s) = Some s" using look s by blast
    show "(THE r. r \<in> set rows \<and> mr_url r = s_url s) \<in> ?U" using r l by (simp add: the)
    show "the (lookup_active act (mr_url (THE r. r \<in> set rows \<and> mr_url r = s_url s))) = s"
      using r l by (simp add: the)
  qed
  also have "\<dots> = (\<Sum>s\<leftarrow>act. h s)"
    using da by (simp add: sum_list_distinct_conv_sum_set)
  finally show ?thesis .
qed

lemma quality_agrees:
  assumes "samples_of_rows rows act"
  shows "(\<exists>r \<in> set rows. \<not> mr_complete r \<and> (\<exists>s. lookup_active act (mr_url r) = Some s \<and> s_speed s = None))
     \<longleftrightarrow> (\<exists>s \<in> set act. s_speed s = None)"
  using assms lookup_active_Some [of act] unfolding samples_of_rows_def by metis

lemma known_le_unfinished:
  assumes "samples_of_rows rows act"
  shows "(\<Sum>s\<leftarrow>act. known_of s) \<le> int (length (filter (\<lambda>r. \<not> mr_complete r) rows))"
proof -
  have "(\<Sum>r\<leftarrow>rs. item_val act known_of r) \<le> int (length (filter (\<lambda>r. \<not> mr_complete r) rs))" for rs
    by (induction rs) (auto simp: item_val_def known_of_def split: option.splits)
  then show ?thesis using sum_item_val [OF assms] by metis
qed

lemma push_bounded_length: "0 < n \<Longrightarrow> length (push_bounded n x xs) \<le> n"
  by (simp add: push_bounded_def Let_def)

lemma push_bounded_last: "0 < n \<Longrightarrow> push_bounded n x xs \<noteq> [] \<and> last (push_bounded n x xs) = x"
  by (simp add: push_bounded_def Let_def last_drop)

subsection \<open>Properties\<close>

lemma length_split_complete:
  "int (length rows) - int (length (filter mr_complete rows)) =
     int (length (filter (\<lambda>r. \<not> mr_complete r) rows))"
  by (induction rows) auto

text \<open>
  C9: the metrics reduced from the projection summaries (selected count, complete count,
  complete bytes) and the active samples are exactly the metrics reduced from the durable rows,
  whenever every active sample belongs to a distinct unfinished row of the selected run.
\<close>
theorem projected_metrics_agree:
  assumes "samples_of_rows rows act"
  shows "reduce_projected_metrics (int (length rows)) (int (length (filter mr_complete rows)))
           (complete_bytes_of rows) act t0 t1 now = reduce_metrics rows act t0 t1 now"
proof -
  let ?a = "start_accumulator (complete_bytes_of rows)"
  have unknown: "ac_unknown (fold (reduce_item act) rows ?a) =
      max 0 (int (length rows) - int (length (filter mr_complete rows)) - ac_known (fold reduce_sample act ?a))"
    using known_le_unfinished [OF assms]
    by (simp add: fold_reduce_item fold_reduce_sample sum_item_val [OF assms] length_split_complete
          start_accumulator_def)
  show ?thesis
    unfolding reduce_projected_metrics_def reduce_metrics_def Let_def unknown
    by (simp add: fold_reduce_item fold_reduce_sample fold_reduce_item_quality
          fold_reduce_sample_quality sum_item_val [OF assms] quality_agrees [OF assms])
qed

definition example_sample :: sample where
  "example_sample = \<lparr>s_url = ''u1'', s_worker = 1, s_attempt = 1, s_phase = ''downloading'',
     s_phase_started = 0, s_attempt_started = 0, s_pid = None, s_received = Some 40,
     s_total = Some 100, s_total_source = ''aria2_rpc'', s_speed = Some 20, s_connections = Some 1,
     s_sample_age = Some 0, s_last_progress = None, s_sequence = Some 1, s_progress = [],
     s_monotonic = Some 0\<rparr>"

definition example_rows :: "metric_row list" where
  "example_rows = [\<lparr>mr_url = ''u0'', mr_complete = True, mr_bytes = Some 7\<rparr>,
     \<lparr>mr_url = ''u1'', mr_complete = False, mr_bytes = None\<rparr>]"

theorem projected_metrics_agree_witness:
  "samples_of_rows example_rows [example_sample] \<and>
   m_eta (reduce_projected_metrics 2 1 7 [example_sample] 0 5 9) = (Some 3, ''exact'') \<and>
   reduce_projected_metrics 2 1 7 [example_sample] 0 5 9 =
     reduce_metrics example_rows [example_sample] 0 5 9"
proof -
  have ok: "samples_of_rows example_rows [example_sample]"
    by (simp add: samples_of_rows_def example_rows_def example_sample_def)
  moreover have "complete_bytes_of example_rows = 7"
    "int (length example_rows) = 2" "int (length (filter mr_complete example_rows)) = 1"
    by (simp_all add: complete_bytes_of_def example_rows_def zero_if_none_def)
  moreover have "m_eta (reduce_projected_metrics 2 1 7 [example_sample] 0 5 9) = (Some 3, ''exact'')"
    by (simp add: reduce_projected_metrics_def reduce_sample_def start_accumulator_def
          example_sample_def metric_report_def metric_def Let_def zero_if_none_def)
  ultimately show ?thesis using projected_metrics_agree [OF ok, of 0 5 9] by simp
qed

end
