(* ===== verification/Json.thy ===== *)
theory Json
  imports Prelude
begin

text \<open>
  Parsed JSON values as Python sees them (\<open>json.loads\<close>).  An object is an association list
  with distinct keys.  \<open>isinstance(v, int)\<close> holds of a Boolean too, and \<open>==\<close> identifies
  \<open>True\<close>, \<open>1\<close> and \<open>1.0\<close>, so the tests the code makes are written out here.
\<close>

datatype json =
    JNull
  | JBool bool
  | JInt int
  | JFloat rat
  | JStr string
  | JArr "json list"
  | JObj "(string \<times> json) list"

type_synonym jobject = "(string \<times> json) list"

definition jget :: "jobject \<Rightarrow> string \<Rightarrow> json" where
  "jget kvs k = (case map_of kvs k of None \<Rightarrow> JNull | Some v \<Rightarrow> v)"

fun is_str :: "json \<Rightarrow> bool" where
  "is_str (JStr s) = True"
| "is_str _ = False"

fun is_nonempty_str :: "json \<Rightarrow> bool" where
  "is_nonempty_str (JStr s) = (s \<noteq> [])"
| "is_nonempty_str _ = False"

fun is_obj :: "json \<Rightarrow> bool" where
  "is_obj (JObj kvs) = True"
| "is_obj _ = False"

fun as_int :: "json \<Rightarrow> int option" where
  "as_int (JInt i) = Some i"
| "as_int _ = None"

text \<open>\<open>v == n\<close> for an integer constant \<open>n\<close>.\<close>

fun eq_int :: "json \<Rightarrow> int \<Rightarrow> bool" where
  "eq_int (JInt i) n = (i = n)"
| "eq_int (JBool b) n = ((if b then 1 else 0) = n)"
| "eq_int (JFloat r) n = (r = of_int n)"
| "eq_int _ n = False"

text \<open>A number that is not a Boolean (\<open>isinstance(v, (int, float)) and not bool\<close>).\<close>

fun as_number :: "json \<Rightarrow> rat option" where
  "as_number (JInt i) = Some (of_int i)"
| "as_number (JFloat r) = Some r"
| "as_number _ = None"

text \<open>A non-empty list of non-empty strings, the shape of every \<open>item_ids\<close> parameter.\<close>

fun as_ids :: "json \<Rightarrow> string list option" where
  "as_ids (JArr vs) =
     (if vs \<noteq> [] \<and> list_all is_nonempty_str vs
      then Some (map (\<lambda>v. case v of JStr s \<Rightarrow> s | _ \<Rightarrow> []) vs) else None)"
| "as_ids _ = None"

definition ids_json :: "string list \<Rightarrow> json" where
  "ids_json ids = JArr (map JStr ids)"

lemma as_ids_nonempty: "as_ids v = Some ids \<Longrightarrow> ids \<noteq> []"
  by (cases v) (auto split: if_splits)

lemma as_ids_ids_json:
  "ids \<noteq> [] \<Longrightarrow> list_all (\<lambda>s. s \<noteq> []) ids \<Longrightarrow> as_ids (ids_json ids) = Some ids"
  by (auto simp: ids_json_def list_all_iff comp_def)

lemma as_ids_Some: "as_ids v = Some ids \<Longrightarrow> v = ids_json ids \<and> list_all (\<lambda>s. s \<noteq> []) ids"
proof (cases v)
  case (JArr vs)
  assume a: "as_ids v = Some ids"
  with JArr have vs: "list_all is_nonempty_str vs"
    and ids: "ids = map (\<lambda>v. case v of JStr s \<Rightarrow> s | _ \<Rightarrow> []) vs"
    by (auto split: if_splits)
  have str: "\<And>x. x \<in> set vs \<Longrightarrow> \<exists>s. x = JStr s \<and> s \<noteq> []"
    using vs by (auto simp: list_all_iff elim!: is_nonempty_str.elims)
  have "map JStr ids = vs"
    unfolding ids map_map by (rule map_idI) (use str in force)
  moreover have "list_all (\<lambda>s. s \<noteq> []) ids"
    using str by (force simp: ids list_all_iff)
  ultimately show ?thesis using JArr by (simp add: ids_json_def)
qed auto

text \<open>An integer between two bounds that is not a Boolean.\<close>

definition as_bounded :: "int \<Rightarrow> int \<Rightarrow> json \<Rightarrow> int option" where
  "as_bounded lo hi v =
     (case as_int v of Some i \<Rightarrow> if lo \<le> i \<and> i \<le> hi then Some i else None | None \<Rightarrow> None)"

lemma as_bounded_range: "as_bounded lo hi v = Some i \<Longrightarrow> lo \<le> i \<and> i \<le> hi"
  by (auto simp: as_bounded_def split: option.splits if_splits)

end
