(* ===== verification/Store.thy ===== *)
theory Store
  imports Json
begin

text \<open>
  The durable state of \<open>src/tod-dl.py\<close>: the SQLite tables of \<open>SCHEMA\<close> and \<open>RUN_SCHEMA\<close>
  as lists of records, the SQL statements the controller issues as list operations
  (\<open>SELECT\<close> a filter, \<open>UPDATE\<close> a map, \<open>INSERT OR IGNORE\<close> an append when the key is
  absent), the durable states, and the display buckets of \<open>display_bucket\<close>.
\<close>

subsection \<open>Durable states and display buckets\<close>

text \<open>
  The states the code writes, the \<open>pending\<close> that \<open>open_db\<close> migrates, the \<open>running\<close> that
  \<open>requeue_interrupted_transfers\<close> still recognises and the \<open>existing\<close> that the closing
  count still names.
\<close>

datatype status =
    Queued | Active | Admitted | Promoting | RetryWait | Failed | Complete
  | ExistingUnverified | ReviewRequired | Unavailable | Excluded
  | Pending | Running | Existing

fun status_text :: "status \<Rightarrow> string" where
  "status_text Queued = ''queued''"
| "status_text Active = ''active''"
| "status_text Admitted = ''admitted''"
| "status_text Promoting = ''promoting''"
| "status_text RetryWait = ''retry_wait''"
| "status_text Failed = ''failed''"
| "status_text Complete = ''complete''"
| "status_text ExistingUnverified = ''existing_unverified''"
| "status_text ReviewRequired = ''review_required''"
| "status_text Unavailable = ''unavailable''"
| "status_text Excluded = ''excluded''"
| "status_text Pending = ''pending''"
| "status_text Running = ''running''"
| "status_text Existing = ''existing''"

datatype bucket =
    BQueued | BBusy | BRetry | BExhausted | BComplete | BExistingUnverified
  | BReviewRequired | BUnavailable | BExcluded | BUnknown

definition DISPLAY_BUCKETS :: "bucket list" where
  "DISPLAY_BUCKETS = [BQueued, BBusy, BRetry, BExhausted, BComplete, BExistingUnverified,
     BReviewRequired, BUnavailable, BExcluded, BUnknown]"

fun bucket_text :: "bucket \<Rightarrow> string" where
  "bucket_text BQueued = ''queued''"
| "bucket_text BBusy = ''busy''"
| "bucket_text BRetry = ''retry''"
| "bucket_text BExhausted = ''exhausted''"
| "bucket_text BComplete = ''complete''"
| "bucket_text BExistingUnverified = ''existing_unverified''"
| "bucket_text BReviewRequired = ''review_required''"
| "bucket_text BUnavailable = ''unavailable''"
| "bucket_text BExcluded = ''excluded''"
| "bucket_text BUnknown = ''unknown''"

text \<open>\<open>display_bucket(status, attempts, max_attempts)\<close>; a limit of 0 means no limit.\<close>

definition display_bucket :: "status \<Rightarrow> nat \<Rightarrow> nat \<Rightarrow> bucket" where
  "display_bucket st attempts max_attempts =
     (if st = Complete then BComplete
      else if st \<in> {Active, Admitted, Promoting} then BBusy
      else if st \<in> {RetryWait, Failed} then
        (if max_attempts \<noteq> 0 \<and> max_attempts \<le> attempts then BExhausted else BRetry)
      else if st = ExistingUnverified then BExistingUnverified
      else if st = ReviewRequired then BReviewRequired
      else if st = Unavailable then BUnavailable
      else if st = Excluded then BExcluded
      else if st = Queued then BQueued
      else BUnknown)"

fun excludable :: "status \<Rightarrow> bool" where
  "excludable st = (st \<in> {Queued, Active, Admitted, RetryWait, Failed, ReviewRequired, Unavailable})"

abbreviation prioritizable :: "status \<Rightarrow> bool" where "prioritizable \<equiv> excludable"

fun cooldown_eligible :: "status \<Rightarrow> bool" where
  "cooldown_eligible st = (st \<in> {RetryWait, Failed})"

fun representation_review :: "string option \<Rightarrow> bool" where
  "representation_review c =
     (c = Some ''changed_remote_representation'' \<or> c = Some ''no_reliable_version_protection'')"

fun scope_run_tracked :: "status option \<Rightarrow> bool" where
  "scope_run_tracked None = False"
| "scope_run_tracked (Some st) =
     (st \<in> {Complete, ExistingUnverified, ReviewRequired, Excluded, Unavailable})"

fun retryable :: "status \<Rightarrow> bool" where
  "retryable st = (st \<in> {Queued, RetryWait, Failed})"

definition RETRY_DELAYS :: "rat list" where
  "RETRY_DELAYS = [60, 120, 240, 300, 300, 300]"

definition UNAVAILABLE_RECHECK_INTERVAL_S :: rat where
  "UNAVAILABLE_RECHECK_INTERVAL_S = 86400"

lemma display_bucket_complete [simp]: "display_bucket st a m = BComplete \<longleftrightarrow> st = Complete"
  by (simp add: display_bucket_def)

lemma bucket_in_DISPLAY_BUCKETS: "b \<in> set DISPLAY_BUCKETS"
  by (cases b) (simp_all add: DISPLAY_BUCKETS_def)

subsection \<open>Tables\<close>

record download =
  d_url :: string
  d_relative_path :: string
  d_storage_path :: "string option"
  d_staging_path :: "string option"
  d_inventory_size :: "string option"
  d_expected_sha256 :: "string option"
  d_status :: status
  d_attempts :: nat
  d_bytes :: "int option"
  d_sha256 :: "string option"
  d_last_error :: "string option"
  d_next_retry_at :: rat
  d_promotion_target :: "string option"
  d_promotion_intent_at :: "string option"
  d_cleanup_completed_at :: "string option"
  d_review_code :: "string option"
  d_remediation_reason :: "string option"
  d_remediation_mapping_version :: "string option"
  d_remediation_outcome :: "string option"
  d_remediation_started_at :: "string option"
  d_remediation_completed_at :: "string option"
  d_priority :: int
  d_etag :: "string option"
  d_last_modified :: "string option"
  d_staging_generation :: "int option"
  d_recheck_at :: "rat option"
  d_source_generation :: "string option"
  d_early_recheck :: int
  d_updated_at :: string

text \<open>\<open>INSERT OR IGNORE\<close> fills the columns it does not name with their defaults.\<close>

definition new_download :: "string \<Rightarrow> string \<Rightarrow> string option \<Rightarrow> string option \<Rightarrow> string option \<Rightarrow>
    string option \<Rightarrow> string \<Rightarrow> download" where
  "new_download url rel stored staging isize expected now =
     \<lparr>d_url = url, d_relative_path = rel, d_storage_path = stored, d_staging_path = staging,
      d_inventory_size = isize, d_expected_sha256 = expected, d_status = Queued, d_attempts = 0,
      d_bytes = None, d_sha256 = None, d_last_error = None, d_next_retry_at = 0,
      d_promotion_target = None, d_promotion_intent_at = None, d_cleanup_completed_at = None,
      d_review_code = None, d_remediation_reason = None, d_remediation_mapping_version = None,
      d_remediation_outcome = None, d_remediation_started_at = None,
      d_remediation_completed_at = None, d_priority = 0, d_etag = None, d_last_modified = None,
      d_staging_generation = None, d_recheck_at = None, d_source_generation = None,
      d_early_recheck = 0, d_updated_at = now\<rparr>"

record run_item =
  ri_run :: string
  ri_url :: string
  ri_rank :: int

record transition_row =
  t_url :: string
  t_run :: string
  t_from :: "string option"
  t_to :: string
  t_detail :: "string option"
  t_at :: string

record attempt_row =
  a_run :: string
  a_url :: string
  a_number :: nat
  a_id :: string
  a_started_at :: "string option"
  a_ended_at :: "string option"
  a_outcome :: "string option"

record control_row =
  c_request :: string
  c_run :: string
  c_session :: string
  c_action :: string
  c_outcome :: string
  c_reason :: string
  c_revision :: int
  c_at :: string

record renewal_row =
  n_request :: string
  n_run :: string
  n_session :: string
  n_requested_at :: string
  n_interval :: int
  n_previous :: "rat option"
  n_outcome :: string
  n_failure :: "string option"
  n_successful_at :: "rat option"
  n_next_eligible_at :: "rat option"

record db =
  downloads :: "download list"
  run_items :: "run_item list"
  transitions :: "transition_row list"
  attempts_table :: "attempt_row list"
  control_requests :: "control_row list"
  renewals :: "renewal_row list"
  revisions :: "(string \<times> int) list"

definition empty_db :: db where
  "empty_db = \<lparr>downloads = [], run_items = [], transitions = [], attempts_table = [],
     control_requests = [], renewals = [], revisions = []\<rparr>"

subsection \<open>Statements\<close>

definition find_download :: "string \<Rightarrow> db \<Rightarrow> download option" where
  "find_download url d = find (\<lambda>r. d_url r = url) (downloads d)"

text \<open>\<open>FROM downloads JOIN run_items ON run_items.url = downloads.url WHERE run_items.run_id = ?\<close>\<close>

definition run_rows :: "string \<Rightarrow> db \<Rightarrow> download list" where
  "run_rows rid d =
     concat (map (\<lambda>i. filter (\<lambda>r. d_url r = ri_url i) (downloads d))
       (filter (\<lambda>i. ri_run i = rid) (run_items d)))"

definition update_where :: "(download \<Rightarrow> bool) \<Rightarrow> (download \<Rightarrow> download) \<Rightarrow> db \<Rightarrow> db" where
  "update_where p f d = d\<lparr>downloads := map (\<lambda>r. if p r then f r else r) (downloads d)\<rparr>"

definition insert_transition :: "string \<Rightarrow> string \<Rightarrow> string option \<Rightarrow> string \<Rightarrow> string option \<Rightarrow>
    string \<Rightarrow> db \<Rightarrow> db" where
  "insert_transition url run fr to_status detail stamp d =
     d\<lparr>transitions := transitions d @ [\<lparr>t_url = url, t_run = run, t_from = fr, t_to = to_status,
        t_detail = detail, t_at = stamp\<rparr>]\<rparr>"

definition find_control :: "string \<Rightarrow> db \<Rightarrow> control_row option" where
  "find_control q d = find (\<lambda>c. c_request c = q) (control_requests d)"

text \<open>\<open>advance_telemetry_revision\<close>: insert 1 or add 1, then read the revision back.\<close>

definition revision_of :: "string \<Rightarrow> db \<Rightarrow> int" where
  "revision_of rid d = (case map_of (revisions d) rid of None \<Rightarrow> 0 | Some n \<Rightarrow> n)"

definition advance_telemetry_revision :: "string \<Rightarrow> db \<Rightarrow> int \<times> db" where
  "advance_telemetry_revision rid d =
     (let n = revision_of rid d + 1 in (n, d\<lparr>revisions := AList.update rid n (revisions d)\<rparr>))"

subsection \<open>Table invariant\<close>

text \<open>
  The primary keys of \<open>downloads\<close>, \<open>run_items\<close> and \<open>control_requests\<close>.
\<close>

definition run_urls :: "string \<Rightarrow> db \<Rightarrow> string list" where
  "run_urls rid d = map ri_url (filter (\<lambda>i. ri_run i = rid) (run_items d))"

definition wf_db :: "db \<Rightarrow> bool" where
  "wf_db d \<longleftrightarrow> distinct (map d_url (downloads d)) \<and>
     distinct (map (\<lambda>i. (ri_run i, ri_url i)) (run_items d)) \<and>
     distinct (map c_request (control_requests d))"


subsection \<open>Lemmas on the statements\<close>

lemma update_where_frames [simp]:
  "run_items (update_where p f d) = run_items d"
  "transitions (update_where p f d) = transitions d"
  "attempts_table (update_where p f d) = attempts_table d"
  "control_requests (update_where p f d) = control_requests d"
  "renewals (update_where p f d) = renewals d"
  "revisions (update_where p f d) = revisions d"
  "downloads (update_where p f d) = map (\<lambda>r. if p r then f r else r) (downloads d)"
  by (simp_all add: update_where_def)

lemma insert_transition_frames [simp]:
  "downloads (insert_transition u rn fr st dt a d) = downloads d"
  "run_items (insert_transition u rn fr st dt a d) = run_items d"
  "attempts_table (insert_transition u rn fr st dt a d) = attempts_table d"
  "control_requests (insert_transition u rn fr st dt a d) = control_requests d"
  "renewals (insert_transition u rn fr st dt a d) = renewals d"
  "revisions (insert_transition u rn fr st dt a d) = revisions d"
  by (simp_all add: insert_transition_def)

lemma advance_frames [simp]:
  "downloads (snd (advance_telemetry_revision rid d)) = downloads d"
  "run_items (snd (advance_telemetry_revision rid d)) = run_items d"
  "transitions (snd (advance_telemetry_revision rid d)) = transitions d"
  "attempts_table (snd (advance_telemetry_revision rid d)) = attempts_table d"
  "control_requests (snd (advance_telemetry_revision rid d)) = control_requests d"
  "renewals (snd (advance_telemetry_revision rid d)) = renewals d"
  by (simp_all add: advance_telemetry_revision_def Let_def)

lemma advance_revision [simp]:
  "fst (advance_telemetry_revision rid d) = revision_of rid d + 1"
  "revision_of rid (snd (advance_telemetry_revision rid d)) = revision_of rid d + 1"
  by (simp_all add: advance_telemetry_revision_def Let_def revision_of_def update_conv)

lemma run_rows_cong:
  "downloads d = downloads d' \<Longrightarrow> run_items d = run_items d' \<Longrightarrow> run_rows rid d = run_rows rid d'"
  by (simp add: run_rows_def)

lemma run_rows_frames [simp]:
  "run_rows rid (insert_transition u rn fr st dt a d) = run_rows rid d"
  "run_rows rid (snd (advance_telemetry_revision rid' d)) = run_rows rid d"
  "run_rows rid (d\<lparr>control_requests := cs\<rparr>) = run_rows rid d"
  "run_rows rid (d\<lparr>attempts_table := as\<rparr>) = run_rows rid d"
  "run_rows rid (d\<lparr>renewals := ns\<rparr>) = run_rows rid d"
  by (rule run_rows_cong; simp)+

lemma run_rows_update_where:
  assumes "\<And>r. d_url (f r) = d_url r"
  shows "run_rows rid (update_where p f d) = map (\<lambda>r. if p r then f r else r) (run_rows rid d)"
proof -
  have "filter (\<lambda>r. d_url r = u) (map (\<lambda>r. if p r then f r else r) xs) =
      map (\<lambda>r. if p r then f r else r) (filter (\<lambda>r. d_url r = u) xs)" for u xs
    by (induction xs) (auto simp: assms)
  then show ?thesis
    by (simp add: run_rows_def map_concat comp_def)
qed

lemma run_rows_subset: "r \<in> set (run_rows rid d) \<Longrightarrow> r \<in> set (downloads d) \<and> d_url r \<in> set (run_urls rid d)"
  by (auto simp: run_rows_def run_urls_def)

lemma mem_run_rows:
  "r \<in> set (run_rows rid d) \<longleftrightarrow> r \<in> set (downloads d) \<and> d_url r \<in> set (run_urls rid d)"
  by (auto simp: run_rows_def run_urls_def image_iff)

lemma filter_url_distinct:
  assumes "distinct (map d_url xs)"
  shows "map d_url (filter (\<lambda>r. d_url r = u) xs) = (if u \<in> d_url ` set xs then [u] else [])"
  using assms by (induction xs) (auto simp: filter_empty_conv)

lemma map_url_run_rows:
  assumes "distinct (map d_url (downloads d))"
  shows "map d_url (run_rows rid d) =
    filter (\<lambda>u. u \<in> d_url ` set (downloads d)) (run_urls rid d)"
proof -
  have "map d_url (concat (map (\<lambda>i. filter (\<lambda>r. d_url r = ri_url i) (downloads d)) is)) =
     filter (\<lambda>u. u \<in> d_url ` set (downloads d)) (map ri_url is)" for "is"
    using filter_url_distinct [OF assms] by (induction "is") auto
  then show ?thesis by (simp add: run_rows_def run_urls_def)
qed

lemma distinct_run_urls:
  assumes "distinct (map (\<lambda>i. (ri_run i, ri_url i)) is)"
  shows "distinct (map ri_url (filter (\<lambda>i. ri_run i = rid) is))"
  using assms by (induction "is") (auto simp: image_iff)

lemma wf_run_urls: "wf_db d \<Longrightarrow> distinct (run_urls rid d)"
  unfolding wf_db_def run_urls_def by (blast intro: distinct_run_urls)

lemma wf_run_rows: "wf_db d \<Longrightarrow> distinct (map d_url (run_rows rid d))"
  by (simp add: map_url_run_rows wf_db_def distinct_run_urls run_urls_def)

lemma find_download_Some:
  assumes "wf_db d"
  shows "find_download u d = Some r \<longleftrightarrow> r \<in> set (downloads d) \<and> d_url r = u"
  using assms find_key [of d_url "downloads d" r]
  by (auto simp: find_download_def wf_db_def dest: find_Some_mem)

lemma find_download_None: "find_download u d = None \<longleftrightarrow> u \<notin> d_url ` set (downloads d)"
  by (auto simp: find_download_def find_None_iff)

lemma wf_db_update_where [pres]:
  "wf_db d \<Longrightarrow> (\<And>r. d_url (f r) = d_url r) \<Longrightarrow> wf_db (update_where p f d)"
proof -
  assume "wf_db d" and f: "\<And>r. d_url (f r) = d_url r"
  have "d_url \<circ> (\<lambda>r. if p r then f r else r) = d_url"
    by (auto simp: f)
  with \<open>wf_db d\<close> show ?thesis by (simp add: wf_db_def)
qed

lemma wf_db_frames [pres, simp]:
  "wf_db d \<Longrightarrow> wf_db (insert_transition u rn fr st dt a d)"
  "wf_db d \<Longrightarrow> wf_db (snd (advance_telemetry_revision rid d))"
  "wf_db d \<Longrightarrow> wf_db (d\<lparr>attempts_table := as\<rparr>)"
  "wf_db d \<Longrightarrow> wf_db (d\<lparr>renewals := ns\<rparr>)"
  by (auto simp: wf_db_def)

end
