(* ===== verification/Paging.thy ===== *)
theory Paging
  imports Prelude
begin

text \<open>
  The keyset pagination that several parts of the program share (the telemetry hydration in
  batches of 1000 rows, the queue pages and the attempt pages of the inspection service): a page
  is the first \<open>limit\<close> rows whose key is beyond the cursor, and the cursor of the next page is
  the key of the last row of this one.  The locale states the contract once and proves that
  following the cursors visits every row exactly once, in order.
\<close>

lemma sorted_wrt_less_keys:
  fixes key :: "'a \<Rightarrow> 'k::linorder"
  shows "sorted (map key rs) \<Longrightarrow> distinct (map key rs) \<Longrightarrow> sorted_wrt (\<lambda>a b. key a < key b) rs"
  by (induction rs) (auto simp: less_le image_iff)

lemma filter_beyond_last:
  fixes key :: "'a \<Rightarrow> 'k::linorder"
  assumes "sorted_wrt (\<lambda>a b. key a < key b) fs" and "take n fs \<noteq> []"
  shows "filter (\<lambda>r. key (last (take n fs)) < key r) fs = drop n fs"
  using assms
proof (induction fs arbitrary: n)
  case (Cons f fs)
  from Cons.prems obtain m where n: "n = Suc m" by (cases n) auto
  show ?case
  proof (cases "take m fs = []")
    case True
    then have "take n (f # fs) = [f]" and "m = 0 \<or> fs = []" using n by auto
    moreover have "filter (\<lambda>r. key f < key r) fs = fs"
      using Cons.prems(1) by (auto simp: filter_id_conv)
    ultimately show ?thesis using n by auto
  next
    case False
    with Cons have IH: "filter (\<lambda>r. key (last (take m fs)) < key r) fs = drop m fs" by simp
    have "last (take m fs) \<in> set fs" using False in_set_takeD last_in_set by metis
    with Cons.prems(1) have "\<not> key (last (take m fs)) < key f" by (auto dest: less_trans)
    with False IH n show ?thesis by simp
  qed
qed simp

lemma filter_sort_key: "filter P (sort_key f xs) = sort_key f (filter P xs)"
  by (rule filter_sort)

text \<open>Follow the cursors for at most \<open>fuel\<close> pages.\<close>

fun drain :: "nat \<Rightarrow> ('k \<Rightarrow> 'a list) \<Rightarrow> ('a \<Rightarrow> 'k) \<Rightarrow> 'k \<Rightarrow> 'a list" where
  "drain 0 page key c = []"
| "drain (Suc n) page key c =
     (let b = page c in if b = [] then [] else b @ drain n page key (key (last b)))"

locale paged =
  fixes page :: "'k::linorder \<Rightarrow> 'a list"
    and rows :: "'a list"
    and key :: "'a \<Rightarrow> 'k"
    and limit :: nat
  assumes page_eq: "page c = take limit (filter (\<lambda>r. c < key r) rows)"
    and sorted_keys: "sorted (map key rows)"
    and limit_pos: "0 < limit"
begin

lemma page_empty_iff: "page c = [] \<longleftrightarrow> filter (\<lambda>r. c < key r) rows = []"
  using limit_pos by (simp add: page_eq)

lemma page_bound: "length (page c) \<le> limit"
  by (simp add: page_eq)

lemma page_beyond: "r \<in> set (page c) \<Longrightarrow> c < key r \<and> r \<in> set rows"
  by (auto simp: page_eq dest: in_set_takeD)

lemma page_step:
  assumes "distinct (map key rows)" and "page c \<noteq> []"
  shows "page c @ filter (\<lambda>r. key (last (page c)) < key r) rows = filter (\<lambda>r. c < key r) rows"
proof -
  let ?F = "filter (\<lambda>r. c < key r) rows"
  have s: "sorted_wrt (\<lambda>a b. key a < key b) ?F"
    by (rule sorted_wrt_filter) (rule sorted_wrt_less_keys [OF sorted_keys assms(1)])
  have "c < key (last (page c))" using page_beyond assms(2) last_in_set by metis
  then have "filter (\<lambda>r. key (last (page c)) < key r) rows =
      filter (\<lambda>r. key (last (page c)) < key r) ?F"
    by (auto simp: intro!: filter_cong)
  also have "\<dots> = drop limit ?F"
    using filter_beyond_last [OF s] assms(2) by (simp add: page_eq)
  finally show ?thesis by (simp add: page_eq)
qed

lemma beyond_decreases:
  assumes "page c \<noteq> []"
  shows "length (filter (\<lambda>r. key (last (page c)) < key r) rows) < length (filter (\<lambda>r. c < key r) rows)"
proof -
  have l: "last (page c) \<in> set rows" "c < key (last (page c))"
    using page_beyond assms last_in_set by metis+
  have "length (filter (\<lambda>r. key (last (page c)) < key r) rs) \<le> length (filter (\<lambda>r. c < key r) rs)" for rs
    using l(2) by (induction rs) auto
  note le = this
  from l(1) obtain as bs where rows: "rows = as @ last (page c) # bs" by (meson split_list)
  have "length (filter (\<lambda>r. key (last (page c)) < key r) rows) =
      length (filter (\<lambda>r. key (last (page c)) < key r) as) + length (filter (\<lambda>r. key (last (page c)) < key r) bs)"
    using arg_cong [OF rows, of "\<lambda>x. length (filter (\<lambda>r. key (last (page c)) < key r) x)"] by simp
  moreover have "length (filter (\<lambda>r. c < key r) rows) =
      length (filter (\<lambda>r. c < key r) as) + 1 + length (filter (\<lambda>r. c < key r) bs)"
    using l(2) arg_cong [OF rows, of "\<lambda>x. length (filter (\<lambda>r. c < key r) x)"] by simp
  ultimately show ?thesis using le [of as] le [of bs] by linarith
qed

lemma drain_all:
  assumes "distinct (map key rows)" and "length (filter (\<lambda>r. c < key r) rows) < fuel"
  shows "drain fuel page key c = filter (\<lambda>r. c < key r) rows"
  using assms(2)
proof (induction fuel arbitrary: c)
  case (Suc fuel)
  show ?case
  proof (cases "page c = []")
    case True
    then show ?thesis by (simp add: page_empty_iff)
  next
    case False
    have "length (filter (\<lambda>r. key (last (page c)) < key r) rows) < fuel"
      using beyond_decreases [OF False] Suc.prems by linarith
    with Suc.IH False page_step [OF assms(1) False] show ?thesis
      by (simp add: Let_def)
  qed
qed simp

end

end
