(* ===== verification/Projection.thy ===== *)
theory Projection
  imports Store Paging Telemetry "HOL-Library.Multiset"
begin

text \<open>
  \<open>class TelemetryStateProjection\<close> of \<open>src/tod-dl.py\<close>: the in-memory summary of the selected
  run (bucket counts, complete bytes, retry deadlines, revision), built once from the database
  by \<open>hydrate\<close> in batches and then kept up to date by \<open>apply\<close> with the preimage and the
  postimage of each committed change.  \<open>sha\<close> is the SHA-256 hex digest (a parameter); the keys
  of the retry dictionary are digests of URLs.
\<close>

subsection \<open>State\<close>

record item =
  i_url :: string
  i_status :: status
  i_attempts :: nat
  i_bytes :: "int option"
  i_retry_at :: rat
  i_error :: "string option"

definition item_of :: "download \<Rightarrow> item" where
  "item_of r = \<lparr>i_url = d_url r, i_status = d_status r, i_attempts = d_attempts r,
     i_bytes = d_bytes r, i_retry_at = d_next_retry_at r, i_error = d_last_error r\<rparr>"

record projection =
  p_selected :: int
  p_skipped :: int
  p_revision :: int
  p_max_attempts :: nat
  p_counts :: "bucket \<Rightarrow> int"
  p_complete_bytes :: int
  p_last_completion :: "string option"
  p_retries :: "(string \<times> rat \<times> string) list"

definition init_projection :: "int \<Rightarrow> int \<Rightarrow> int \<Rightarrow> nat \<Rightarrow> projection" where
  "init_projection selected_count skipped_existing revision max_attempts =
     \<lparr>p_selected = selected_count, p_skipped = skipped_existing, p_revision = revision,
      p_max_attempts = max_attempts, p_counts = (\<lambda>b. 0), p_complete_bytes = 0,
      p_last_completion = None, p_retries = []\<rparr>"

definition item_bucket :: "nat \<Rightarrow> item \<Rightarrow> bucket" where
  "item_bucket m i = display_bucket (i_status i) (i_attempts i) m"

definition retry_entry :: "item \<Rightarrow> rat \<times> string" where
  "retry_entry i =
     (i_retry_at i, sanitize_message (case i_error i of None \<Rightarrow> [] | Some e \<Rightarrow> e))"

subsection \<open>Operations\<close>

definition bump :: "bucket \<Rightarrow> int \<Rightarrow> (bucket \<Rightarrow> int) \<Rightarrow> bucket \<Rightarrow> int" where
  "bump b n c = c(b := c b + n)"

text \<open>\<open>_add_row\<close>; the empty string is falsy, so it never becomes a completion time.\<close>

definition add_row :: "(string \<Rightarrow> string) \<Rightarrow> item \<times> string \<Rightarrow> projection \<Rightarrow> projection" where
  "add_row sha row p =
     (let i = fst row; updated_at = snd row; b = item_bucket (p_max_attempts p) i;
          p = p\<lparr>p_counts := bump b 1 (p_counts p)\<rparr>;
          p = (if b = BComplete then
                 let p = p\<lparr>p_complete_bytes := p_complete_bytes p + zero_if_none (i_bytes i)\<rparr>
                 in if updated_at \<noteq> [] \<and>
                       (case p_last_completion p of None \<Rightarrow> True | Some l \<Rightarrow> l < updated_at)
                    then p\<lparr>p_last_completion := Some updated_at\<rparr> else p
               else p)
      in if b = BRetry
         then p\<lparr>p_retries := AList.update (sha (i_url i)) (retry_entry i) (p_retries p)\<rparr> else p)"

text \<open>\<open>apply(old, new, revision, completion_at)\<close>.\<close>

definition apply_change :: "(string \<Rightarrow> string) \<Rightarrow> item \<Rightarrow> item \<Rightarrow> int \<Rightarrow> string option \<Rightarrow>
    projection \<Rightarrow> projection" where
  "apply_change sha old new revision completion_at p =
     (let ob = item_bucket (p_max_attempts p) old; nb = item_bucket (p_max_attempts p) new;
          p = p\<lparr>p_counts := bump nb 1 (bump ob (-1) (p_counts p))\<rparr>;
          p = (if ob = BComplete
               then p\<lparr>p_complete_bytes := p_complete_bytes p - zero_if_none (i_bytes old)\<rparr> else p);
          p = (if nb = BComplete
               then p\<lparr>p_complete_bytes := p_complete_bytes p + zero_if_none (i_bytes new)\<rparr> else p);
          key = sha (i_url new);
          p = p\<lparr>p_retries := AList.delete key (p_retries p)\<rparr>;
          p = (if nb = BRetry
               then p\<lparr>p_retries := AList.update key (retry_entry new) (p_retries p)\<rparr> else p);
          p = (if ob \<noteq> BComplete \<and> nb = BComplete \<and> completion_at \<noteq> None \<and> completion_at \<noteq> Some []
               then p\<lparr>p_last_completion := completion_at\<rparr> else p)
      in p\<lparr>p_revision := revision\<rparr>)"

definition set_revision :: "int \<Rightarrow> projection \<Rightarrow> projection" where
  "set_revision revision p = p\<lparr>p_revision := revision\<rparr>"

text \<open>\<open>copy\<close>: the summary for one snapshot; the first retry is the least (deadline, key, error).\<close>

record summary =
  sm_selected :: int
  sm_skipped :: int
  sm_counts :: "bucket \<Rightarrow> int"
  sm_complete_bytes :: int
  sm_last_completion :: "string option"
  sm_revision :: int
  sm_retry_at :: "rat option"
  sm_retry_error :: "string option"
  sm_retry_count :: nat

definition copy_projection :: "projection \<Rightarrow> summary" where
  "copy_projection p =
     (let ts = map (\<lambda>(key, deadline, error). (deadline, key, error)) (p_retries p);
          first_retry = (case ts of [] \<Rightarrow> None | t # us \<Rightarrow> Some (fold min us t))
      in \<lparr>sm_selected = p_selected p, sm_skipped = p_skipped p, sm_counts = p_counts p,
          sm_complete_bytes = p_complete_bytes p, sm_last_completion = p_last_completion p,
          sm_revision = p_revision p, sm_retry_at = map_option fst first_retry,
          sm_retry_error = map_option (\<lambda>t. snd (snd t)) first_retry,
          sm_retry_count = length (p_retries p)\<rparr>)"

subsection \<open>Hydration in batches\<close>

text \<open>The joined rows with their queue rank, in the order \<open>ORDER BY queue_rank\<close> gives.\<close>

definition ranked_rows :: "string \<Rightarrow> db \<Rightarrow> (int \<times> download) list" where
  "ranked_rows rid d = sort_key fst
     (concat (map (\<lambda>i. map (\<lambda>r. (ri_rank i, r)) (filter (\<lambda>r. d_url r = ri_url i) (downloads d)))
        (filter (\<lambda>i. ri_run i = rid) (run_items d))))"

definition HYDRATE_BATCH :: nat where "HYDRATE_BATCH = 1000"

definition hydrate_page :: "string \<Rightarrow> db \<Rightarrow> int \<Rightarrow> (int \<times> download) list" where
  "hydrate_page rid d rank = take HYDRATE_BATCH (filter (\<lambda>x. rank < fst x) (ranked_rows rid d))"

interpretation hydration: paged "hydrate_page rid d" "ranked_rows rid d" fst HYDRATE_BATCH
  for rid d
  by unfold_locales (simp_all add: hydrate_page_def ranked_rows_def HYDRATE_BATCH_def)

text \<open>The \<open>while True\<close> loop of \<open>hydrate\<close>; each batch moves the cursor beyond its last rank.\<close>

function hydrate_loop :: "(string \<Rightarrow> string) \<Rightarrow> string \<Rightarrow> db \<Rightarrow> int \<Rightarrow> projection \<Rightarrow> projection" where
  "hydrate_loop sha rid d rank p =
     (let rows = hydrate_page rid d rank in
      if rows = [] then p
      else hydrate_loop sha rid d (fst (last rows))
             (fold (\<lambda>x. add_row sha (item_of (snd x), d_updated_at (snd x))) rows p))"
  by pat_completeness auto
termination
  by (relation "measure (\<lambda>(sha, rid, d, rank, p). length (filter (\<lambda>x. rank < fst x) (ranked_rows rid d)))")
     (auto simp: Let_def dest: hydration.beyond_decreases)

declare hydrate_loop.simps [simp del]

fun max_stamp :: "string list \<Rightarrow> string option" where
  "max_stamp [] = None"
| "max_stamp (x # xs) = Some (fold max xs x)"

definition completion_stamps :: "string \<Rightarrow> db \<Rightarrow> string list" where
  "completion_stamps rid d =
     map t_at (filter (\<lambda>t. t_run t = rid \<and> t_to t = ''complete'' \<and> t_from t \<noteq> Some ''complete'')
       (transitions d))"

definition skipped_existing :: "string \<Rightarrow> db \<Rightarrow> int" where
  "skipped_existing rid d =
     int (length (remdups (map t_url
       (filter (\<lambda>t. t_run t = rid \<and> t_to t = ''existing_unverified'' \<and> t_url t \<notin> set (run_urls rid d))
         (transitions d)))))"

definition hydrate :: "(string \<Rightarrow> string) \<Rightarrow> string \<Rightarrow> nat \<Rightarrow> db \<Rightarrow> projection" where
  "hydrate sha rid max_attempts d =
     (let p = init_projection (int (length (run_urls rid d))) (skipped_existing rid d)
                (revision_of rid d) max_attempts;
          p = hydrate_loop sha rid d (-1) p
      in p\<lparr>p_last_completion := max_stamp (completion_stamps rid d)\<rparr>)"

subsection \<open>What the projection means\<close>

text \<open>
  The abstract view: the summary agrees with the joined rows of the selected run.
\<close>

definition bucket_of :: "nat \<Rightarrow> download \<Rightarrow> bucket" where
  "bucket_of m r = item_bucket m (item_of r)"

definition complete_bytes :: "download list \<Rightarrow> int" where
  "complete_bytes rs = (\<Sum>r\<leftarrow>rs. if d_status r = Complete then zero_if_none (d_bytes r) else 0)"

definition retries_agree :: "(string \<Rightarrow> string) \<Rightarrow> nat \<Rightarrow> download list \<Rightarrow> (string \<times> rat \<times> string) list \<Rightarrow> bool" where
  "retries_agree sha m rs ts \<longleftrightarrow> distinct (map fst ts) \<and>
     (\<forall>r \<in> set rs. map_of ts (sha (d_url r)) =
        (if bucket_of m r = BRetry then Some (retry_entry (item_of r)) else None)) \<and>
     (\<forall>k. k \<notin> sha ` d_url ` set rs \<longrightarrow> map_of ts k = None)"

definition agrees :: "(string \<Rightarrow> string) \<Rightarrow> nat \<Rightarrow> download list \<Rightarrow> projection \<Rightarrow> bool" where
  "agrees sha m rs p \<longleftrightarrow> p_max_attempts p = m \<and>
     (\<forall>b. p_counts p b = count_where (\<lambda>r. bucket_of m r = b) rs) \<and>
     p_complete_bytes p = complete_bytes rs \<and> retries_agree sha m rs (p_retries p)"

definition projects :: "(string \<Rightarrow> string) \<Rightarrow> string \<Rightarrow> nat \<Rightarrow> db \<Rightarrow> projection \<Rightarrow> bool" where
  "projects sha rid m d p \<longleftrightarrow>
     agrees sha m (run_rows rid d) p \<and> p_revision p = revision_of rid d"

text \<open>The digests identify the URLs of a run.\<close>

definition keyed :: "(string \<Rightarrow> string) \<Rightarrow> string \<Rightarrow> db \<Rightarrow> bool" where
  "keyed sha rid d \<longleftrightarrow> inj_on sha (set (run_urls rid d))"

definition ranks_ok :: "string \<Rightarrow> db \<Rightarrow> bool" where
  "ranks_ok rid d \<longleftrightarrow>
     distinct (map ri_rank (filter (\<lambda>i. ri_run i = rid) (run_items d))) \<and>
     (\<forall>i \<in> set (run_items d). ri_run i = rid \<longrightarrow> 0 \<le> ri_rank i)"

lemma bucket_of_complete [simp]: "bucket_of m r = BComplete \<longleftrightarrow> d_status r = Complete"
  by (cases "d_status r") (simp_all add: bucket_of_def item_bucket_def item_of_def display_bucket_def)

lemma item_of_sel [simp]:
  "i_url (item_of r) = d_url r" "i_status (item_of r) = d_status r"
  "i_attempts (item_of r) = d_attempts r" "i_bytes (item_of r) = d_bytes r"
  "i_retry_at (item_of r) = d_next_retry_at r" "i_error (item_of r) = d_last_error r"
  by (simp_all add: item_of_def)

subsection \<open>Adding rows\<close>

lemma add_row_fields [simp]:
  "p_max_attempts (add_row sha x p) = p_max_attempts p"
  "p_revision (add_row sha x p) = p_revision p"
  "p_selected (add_row sha x p) = p_selected p"
  "p_skipped (add_row sha x p) = p_skipped p"
  by (simp_all add: add_row_def Let_def)

lemma add_row_counts:
  "p_counts (add_row sha (item_of r, u) p) =
     bump (bucket_of (p_max_attempts p) r) 1 (p_counts p)"
  by (simp add: add_row_def Let_def bucket_of_def)

lemma add_row_bytes:
  "p_complete_bytes (add_row sha (item_of r, u) p) =
     p_complete_bytes p + (if d_status r = Complete then zero_if_none (d_bytes r) else 0)"
  using bucket_of_complete [of "p_max_attempts p" r]
  by (auto simp: add_row_def Let_def bucket_of_def)

lemma add_row_retries:
  "p_retries (add_row sha (item_of r, u) p) =
     (if bucket_of (p_max_attempts p) r = BRetry
      then AList.update (sha (d_url r)) (retry_entry (item_of r)) (p_retries p) else p_retries p)"
  by (auto simp: add_row_def Let_def bucket_of_def)

lemma count_where_simps [simp]:
  "count_where P [] = 0"
  "count_where P (x # xs) = (if P x then 1 else 0) + count_where P xs"
  "count_where P (xs @ ys) = count_where P xs + count_where P ys"
  by (simp_all add: count_where_def)

lemma complete_bytes_simps [simp]:
  "complete_bytes [] = 0"
  "complete_bytes (x # xs) = (if d_status x = Complete then zero_if_none (d_bytes x) else 0) + complete_bytes xs"
  "complete_bytes (xs @ ys) = complete_bytes xs + complete_bytes ys"
  by (simp_all add: complete_bytes_def)

lemma agrees_snoc:
  assumes "agrees sha m rs p" and "inj_on sha (d_url ` set (rs @ [r]))"
    and "d_url r \<notin> d_url ` set rs"
  shows "agrees sha m (rs @ [r]) (add_row sha (item_of r, u) p)"
proof -
  let ?q = "add_row sha (item_of r, u) p"
  from assms(1) have m: "p_max_attempts p = m" by (simp add: agrees_def)
  have fresh: "sha (d_url r) \<notin> sha ` d_url ` set rs"
    using assms(2,3) by (auto simp: inj_on_def)
  then have ne: "sha (d_url r') \<noteq> sha (d_url r)" if "r' \<in> set rs" for r'
    using that by (metis image_eqI)
  have "retries_agree sha m (rs @ [r]) (p_retries ?q)"
    using assms(1) fresh ne
    by (auto simp: agrees_def retries_agree_def add_row_retries update_conv distinct_update m)
  then show ?thesis using assms(1)
    by (auto simp: agrees_def add_row_counts add_row_bytes bump_def)
qed

lemma agrees_fold:
  assumes "agrees sha m rs p" and "inj_on sha (d_url ` set (rs @ map snd xs))"
    and "distinct (map d_url (rs @ map snd xs))"
  shows "agrees sha m (rs @ map snd xs)
    (fold (\<lambda>x. add_row sha (item_of (snd x), d_updated_at (snd x))) xs p)"
  using assms
proof (induction xs arbitrary: rs p)
  case (Cons x xs)
  have "agrees sha m (rs @ [snd x]) (add_row sha (item_of (snd x), d_updated_at (snd x)) p)"
    by (rule agrees_snoc [OF Cons.prems(1)])
       (use Cons.prems(2,3) in \<open>auto intro: inj_on_subset simp del: inj_on_insert\<close>)
  from Cons.IH [OF this] Cons.prems(2,3) show ?case by simp
qed simp

lemma agrees_init: "agrees sha m [] (init_projection n k rv m)"
  by (simp add: agrees_def init_projection_def retries_agree_def)

text \<open>The meaning does not depend on the order of the rows.\<close>

lemma agrees_perm:
  assumes "mset rs = mset rs'"
  shows "agrees sha m rs p \<longleftrightarrow> agrees sha m rs' p"
proof -
  have "set rs = set rs'" using assms by (metis set_mset_mset)
  moreover have "sum_list (map f rs) = sum_list (map f rs')" for f :: "download \<Rightarrow> int"
    using assms by (metis sum_mset_sum_list mset_map)
  ultimately show ?thesis
    by (simp add: agrees_def retries_agree_def count_where_def complete_bytes_def)
qed

subsection \<open>Hydration computes the view\<close>

lemma hydrate_loop_fold:
  assumes "distinct (map fst (ranked_rows rid d))"
  shows "hydrate_loop sha rid d rank p =
    fold (\<lambda>x. add_row sha (item_of (snd x), d_updated_at (snd x)))
      (filter (\<lambda>x. rank < fst x) (ranked_rows rid d)) p"
  using assms
proof (induction sha rid d rank p rule: hydrate_loop.induct)
  case (1 sha rid d rank p)
  let ?f = "\<lambda>x. add_row sha (item_of (snd x), d_updated_at (snd x))"
  let ?rest = "\<lambda>c. filter (\<lambda>x. c < fst x) (ranked_rows rid d)"
  show ?case
  proof (cases "hydrate_page rid d rank = []")
    case True
    then show ?thesis by (subst hydrate_loop.simps) (simp add: Let_def hydration.page_empty_iff)
  next
    case False
    have "fold ?f (?rest rank) p =
        fold ?f (?rest (fst (last (hydrate_page rid d rank)))) (fold ?f (hydrate_page rid d rank) p)"
      unfolding hydration.page_step [OF "1.prems" False, symmetric] by simp
    moreover note "1.IH" [OF refl False "1.prems"]
    ultimately show ?thesis
      using False by (subst hydrate_loop.simps) (simp add: Let_def)
  qed
qed

lemma mset_ranked_rows: "mset (map snd (ranked_rows rid d)) = mset (run_rows rid d)"
proof -
  have "map snd (concat (map (\<lambda>i. map (\<lambda>r. (ri_rank i, r)) (f i)) is)) = concat (map f is)"
    for f :: "run_item \<Rightarrow> download list" and "is"
    by (induction "is") (simp_all add: comp_def)
  note cc = this
  have sk: "mset (map snd (sort_key fst xs)) = mset (map snd xs)" for xs :: "(int \<times> download) list"
    by simp
  show ?thesis
    unfolding ranked_rows_def run_rows_def sk cc ..
qed

lemma distinct_ranks:
  assumes "distinct (map d_url ds)" and "distinct (map ri_rank is)"
  shows "distinct (map fst (concat (map (\<lambda>i. map (\<lambda>r. (ri_rank i, r))
           (filter (\<lambda>r. d_url r = ri_url i) ds)) is)))"
  using assms(2)
proof (induction "is")
  case (Cons i "is")
  have "length (filter (\<lambda>r. d_url r = ri_url i) ds) \<le> 1"
    using arg_cong [OF filter_url_distinct [OF assms(1), of "ri_url i"], of length]
    by (simp split: if_splits)
  then have "distinct (map (\<lambda>r. ri_rank i) (filter (\<lambda>r. d_url r = ri_url i) ds))"
    by (cases "filter (\<lambda>r. d_url r = ri_url i) ds") auto
  with Cons show ?case by (auto simp: comp_def)
qed simp

lemma ranked_rows_distinct:
  assumes "wf_db d" and "ranks_ok rid d"
  shows "distinct (map fst (ranked_rows rid d))"
proof -
  have "distinct (map fst (sort_key fst xs)) \<longleftrightarrow> distinct (map fst xs)" for xs :: "(int \<times> download) list"
    by (metis mset_eq_imp_distinct_iff mset_map mset_sort)
  with assms distinct_ranks show ?thesis
    unfolding ranked_rows_def wf_db_def ranks_ok_def by blast
qed

lemma ranked_rows_nonneg:
  "ranks_ok rid d \<Longrightarrow> x \<in> set (ranked_rows rid d) \<Longrightarrow> 0 \<le> fst x"
  by (auto simp: ranked_rows_def ranks_ok_def)

lemma fold_add_row_fields:
  "p_revision (fold (\<lambda>x. add_row sha (f x)) xs p) = p_revision p"
  "p_selected (fold (\<lambda>x. add_row sha (f x)) xs p) = p_selected p"
  "p_skipped (fold (\<lambda>x. add_row sha (f x)) xs p) = p_skipped p"
  by (induction xs arbitrary: p) simp_all

lemma agrees_frames [simp]:
  "agrees sha m rs (p\<lparr>p_last_completion := l\<rparr>) = agrees sha m rs p"
  "agrees sha m rs (p\<lparr>p_revision := n\<rparr>) = agrees sha m rs p"
  by (simp_all add: agrees_def)

lemma hydrate_projects:
  assumes "wf_db d" and "ranks_ok rid d" and "keyed sha rid d"
  shows "projects sha rid m d (hydrate sha rid m d)"
proof -
  let ?p = "init_projection (int (length (run_urls rid d))) (skipped_existing rid d) (revision_of rid d) m"
  let ?q = "hydrate_loop sha rid d (-1) ?p"
  have all: "filter (\<lambda>x. - 1 < fst x) (ranked_rows rid d) = ranked_rows rid d"
    using ranked_rows_nonneg [OF assms(2)] by (force simp: filter_id_conv)
  have q: "?q = fold (\<lambda>x. add_row sha (item_of (snd x), d_updated_at (snd x))) (ranked_rows rid d) ?p"
    by (simp add: hydrate_loop_fold [OF ranked_rows_distinct [OF assms(1,2)]] all)
  have dist: "distinct (map d_url (map snd (ranked_rows rid d)))"
    using wf_run_rows [OF assms(1)] mset_ranked_rows
    by (metis mset_eq_imp_distinct_iff mset_map)
  have sub: "d_url ` set (map snd (ranked_rows rid d)) \<subseteq> set (run_urls rid d)"
  proof -
    have "set (map snd (ranked_rows rid d)) = set (run_rows rid d)"
      using mset_ranked_rows by (metis set_mset_mset)
    then show ?thesis using run_rows_subset by auto
  qed
  have "agrees sha m ([] @ map snd (ranked_rows rid d)) ?q"
    unfolding q
    by (rule agrees_fold [OF agrees_init])
       (use dist sub assms(3) in \<open>auto simp: keyed_def intro: inj_on_subset\<close>)
  then have "agrees sha m (run_rows rid d) ?q"
    using agrees_perm [OF mset_ranked_rows] by simp
  moreover have "p_revision ?q = revision_of rid d"
    unfolding q fold_add_row_fields by (simp add: init_projection_def)
  ultimately show ?thesis
    by (simp add: projects_def hydrate_def Let_def)
qed

subsection \<open>Incremental changes keep the view\<close>

lemma apply_change_fields [simp]:
  "p_max_attempts (apply_change sha x y n c p) = p_max_attempts p"
  "p_revision (apply_change sha x y n c p) = n"
  "p_selected (apply_change sha x y n c p) = p_selected p"
  "p_skipped (apply_change sha x y n c p) = p_skipped p"
  by (simp_all add: apply_change_def Let_def)

lemma apply_change_counts:
  "p_counts (apply_change sha (item_of r) (item_of r') n c p) b =
     p_counts p b - (if bucket_of (p_max_attempts p) r = b then 1 else 0)
                  + (if bucket_of (p_max_attempts p) r' = b then 1 else 0)"
  by (simp add: apply_change_def Let_def bump_def bucket_of_def)

lemma apply_change_bytes:
  "p_complete_bytes (apply_change sha (item_of r) (item_of r') n c p) =
     p_complete_bytes p - (if d_status r = Complete then zero_if_none (d_bytes r) else 0)
                        + (if d_status r' = Complete then zero_if_none (d_bytes r') else 0)"
  using bucket_of_complete [of "p_max_attempts p" r] bucket_of_complete [of "p_max_attempts p" r']
  by (auto simp: apply_change_def Let_def bucket_of_def)

lemma apply_change_retries:
  "p_retries (apply_change sha (item_of r) (item_of r') n c p) =
     (if bucket_of (p_max_attempts p) r' = BRetry
      then AList.update (sha (d_url r')) (retry_entry (item_of r')) (AList.delete (sha (d_url r')) (p_retries p))
      else AList.delete (sha (d_url r')) (p_retries p))"
  by (auto simp: apply_change_def Let_def bucket_of_def)

lemma agrees_upd:
  assumes "agrees sha m rs p" and "distinct (map d_url rs)" and "inj_on sha (d_url ` set rs)"
    and r: "r \<in> set rs" and g: "d_url (g r) = d_url r"
  shows "agrees sha m (upd_key d_url (d_url r) g rs)
    (apply_change sha (item_of r) (item_of (g r)) n c p)"
proof -
  let ?rs = "upd_key d_url (d_url r) g rs"
  let ?q = "apply_change sha (item_of r) (item_of (g r)) n c p"
  from assms(1) have m: "p_max_attempts p = m" by (simp add: agrees_def)
  have same: "x = r" if "x \<in> set rs" "d_url x = d_url r" for x
    using assms(2) that r by (auto simp: distinct_map dest: inj_onD)
  have "set ?rs = (\<lambda>x. if x = r then g x else x) ` set rs"
    unfolding upd_key_def set_map by (rule image_cong) (use same in auto)
  then have set: "set ?rs = insert (g r) (set rs - {r})"
    using r by auto
  have other: "sha (d_url x) \<noteq> sha (d_url r)" if "x \<in> set rs" "x \<noteq> r" for x
    using assms(3) that r same by (auto dest: inj_onD)
  have urls: "k \<in> sha ` d_url ` set rs \<longleftrightarrow> k = sha (d_url r) \<or> k \<in> sha ` d_url ` (set rs - {r})" for k
    using r by auto
  have "retries_agree sha m ?rs (p_retries ?q)"
    using assms(1) r other
    by (auto simp: agrees_def retries_agree_def apply_change_retries m urls set g
          image_insert update_conv delete_conv distinct_update distinct_delete)
  moreover note sum_list_upd_key [OF assms(2) r refl, of _ g]
  ultimately show ?thesis
    using assms(1)
    by (auto simp: agrees_def apply_change_counts apply_change_bytes m count_where_def complete_bytes_def)
qed

end
