(* ===== verification/Provenance.thy ===== *)
theory Provenance
  imports Json
begin

text \<open>
  \<open>src/provenance.py\<close>: canonical JSON, the record schema and its checker, and
  \<open>ProvenanceWriter\<close> as a state with the events appended so far.  The SHA-256 hex digest of a
  byte string is a parameter \<open>sha\<close>; event identifiers and the clock are arguments, and a
  failing append is an argument too.  Keys, signatures and the file system are not modelled.
  Error messages are values that name the field and the broken rule, not their text.
\<close>

definition SCHEMA_VERSION :: int where "SCHEMA_VERSION = 1"

definition EVENT_TYPES :: "string list" where
  "EVENT_TYPES = [''run_started'', ''attempt_finished'', ''finalized'', ''candidate_created'',
     ''run_closed'', ''local_failure'']"

subsection \<open>Canonical JSON\<close>

definition hex_digit :: "nat \<Rightarrow> char" where
  "hex_digit n = (if n < 10 then char_of (48 + n) else char_of (87 + n))"

definition json_escape_char :: "char \<Rightarrow> string" where
  "json_escape_char c =
     (let n = of_char c :: nat; bs = CHR 0x5C in
      if n = 34 then [bs, c]
      else if n = 92 then [bs, c]
      else if n = 10 then [bs, CHR ''n'']
      else if n = 13 then [bs, CHR ''r'']
      else if n = 9 then [bs, CHR ''t'']
      else if n = 12 then [bs, CHR ''f'']
      else if n = 8 then [bs, CHR ''b'']
      else if n < 32 then [bs, CHR ''u'', CHR ''0'', CHR ''0'', hex_digit (n div 16), hex_digit (n mod 16)]
      else [c])"

definition json_string :: "string \<Rightarrow> string" where
  "json_string s = [CHR 0x22] @ concat (map json_escape_char s) @ [CHR 0x22]"

text \<open>\<open>canonical_json\<close>: sorted keys, no white space; a float anywhere is an error (\<open>None\<close>).\<close>

function canonical_json :: "json \<Rightarrow> string option" where
  "canonical_json JNull = Some ''null''"
| "canonical_json (JBool b) = Some (if b then ''true'' else ''false'')"
| "canonical_json (JInt i) = Some (show_int i)"
| "canonical_json (JFloat r) = None"
| "canonical_json (JStr s) = Some (json_string s)"
| "canonical_json (JArr vs) =
     map_option (\<lambda>ts. ''['' @ join_with '','' ts @ '']'') (those (map canonical_json vs))"
| "canonical_json (JObj kvs) =
     map_option (\<lambda>ts. ''{'' @ join_with '','' ts @ ''}'')
       (those (map (\<lambda>kv. map_option (\<lambda>t. json_string (fst kv) @ '':'' @ t) (canonical_json (snd kv)))
          (sort_key fst kvs)))"
  by pat_completeness auto
termination
  by (relation "measure size") (auto simp: less_Suc_eq_le size_list_estimation' order_le_less_trans
      intro!: size_list_estimation')

definition digest :: "(string \<Rightarrow> string) \<Rightarrow> json \<Rightarrow> string option" where
  "digest sha v = map_option sha (canonical_json v)"

text \<open>
  \<open>relative_text\<close>: \<open>PurePosixPath\<close> drops empty and \<open>.\<close> parts; an absolute path, an empty one or
  one with a \<open>..\<close> part is refused.
\<close>

definition posix_parts :: "string \<Rightarrow> string list" where
  "posix_parts s = filter (\<lambda>p. p \<noteq> [] \<and> p \<noteq> ''.'') (split_on (CHR ''/'') s)"

definition relative_text :: "string \<Rightarrow> string option" where
  "relative_text s =
     (if starts_with ''/'' s \<or> posix_parts s = [] \<or> ''..'' \<in> set (posix_parts s) then None
      else Some (join_with ''/'' (posix_parts s)))"

subsection \<open>The record schema\<close>

definition type_of :: "string \<Rightarrow> json" where
  "type_of name = JObj [(''type'', JStr name)]"

definition HEX_PATTERN :: string where "HEX_PATTERN = ''^[0-9a-f]{64}$''"

definition TIMESTAMP_PATTERN :: string where
  "TIMESTAMP_PATTERN =
     (let b = [CHR 0x5C] in
      ''^'' @ b @ ''d{4}-'' @ b @ ''d{2}-'' @ b @ ''d{2}T'' @ b @ ''d{2}:'' @ b @ ''d{2}:'' @ b @ ''d{2}('' @ b @ ''.'' @ b @ ''d+)?Z$'')"

definition UUID_PATTERN :: string where
  "UUID_PATTERN = ''^[0-9a-f]{8}-[0-9a-f]{4}-[0-9a-f]{4}-[0-9a-f]{4}-[0-9a-f]{12}$''"

definition SIGNATURE_PATTERN :: string where "SIGNATURE_PATTERN = ''^[A-Za-z0-9_-]{86}$''"

definition HEX :: json where
  "HEX = JObj [(''type'', JStr ''string''), (''pattern'', JStr HEX_PATTERN)]"

definition NULLABLE_HEX :: json where
  "NULLABLE_HEX = JObj [(''type'', JArr [JStr ''string'', JStr ''null'']), (''pattern'', JStr HEX_PATTERN)]"

definition TIMESTAMP :: json where
  "TIMESTAMP = JObj [(''type'', JStr ''string''), (''pattern'', JStr TIMESTAMP_PATTERN)]"

definition UUID :: json where
  "UUID = JObj [(''type'', JStr ''string''), (''pattern'', JStr UUID_PATTERN)]"

definition COUNT :: json where
  "COUNT = JObj [(''type'', JStr ''integer''), (''minimum'', JInt 0)]"

definition COUNTS :: json where
  "COUNTS = JObj [(''type'', JStr ''object''), (''additionalProperties'', COUNT)]"

definition NULLABLE_TEXT :: json where
  "NULLABLE_TEXT = JObj [(''type'', JArr [JStr ''string'', JStr ''null''])]"

definition VALIDATION_OBJECT :: json where
  "VALIDATION_OBJECT = JObj [(''type'', JStr ''object''), (''additionalProperties'', JBool False),
     (''required'', JArr [JStr ''available'', JStr ''compared'', JStr ''value'']),
     (''properties'', JObj [(''available'', type_of ''boolean''), (''compared'', type_of ''boolean''),
        (''value'', JObj [])])]"

definition enum_of :: "string list \<Rightarrow> json" where
  "enum_of ws = JObj [(''enum'', JArr (map JStr ws))]"

definition ATTEMPT_OUTCOMES :: "string list" where
  "ATTEMPT_OUTCOMES = [''success'', ''retryable_failure'', ''unavailable'', ''access_denied'',
     ''validation_failed'', ''stopped'']"

definition CANDIDATE_REASONS :: "string list" where
  "CANDIDATE_REASONS = [''validation_failed'', ''destination_collision'', ''unsafe_path'',
     ''promotion_error'', ''recovery_review'']"

definition CLOSE_REASONS :: "string list" where
  "CLOSE_REASONS = [''finished'', ''stopped'', ''time_limit'', ''local_failure'', ''interrupted'']"

definition FAILURE_CODES :: "string list" where
  "FAILURE_CODES = [''record_write'', ''database_write'', ''permission'', ''storage'',
     ''other_local_failure'']"

definition EVENT_FIELD_RULES :: "(string \<times> (string \<times> json) list) list" where
  "EVENT_FIELD_RULES =
    [(''run_started'', [(''queue_input_digests'', type_of ''array''),
        (''selection_settings'', type_of ''object''), (''selected_item_count'', COUNT)]),
     (''attempt_finished'', [(''item_id'', HEX), (''source_url'', type_of ''string''),
        (''attempt_number'', JObj [(''type'', JStr ''integer''), (''minimum'', JInt 1)]),
        (''request_started_at'', TIMESTAMP), (''request_finished_at'', TIMESTAMP),
        (''final_url'', NULLABLE_TEXT),
        (''redirect_chain'', JObj [(''type'', JStr ''array''), (''items'', type_of ''string'')]),
        (''http_status'', JObj [(''type'', JArr [JStr ''integer'', JStr ''null'']),
           (''minimum'', JInt 100), (''maximum'', JInt 599)]),
        (''outcome'', enum_of ATTEMPT_OUTCOMES),
        (''response_content_length'', NULLABLE_TEXT), (''response_content_range'', NULLABLE_TEXT),
        (''response_content_type'', NULLABLE_TEXT), (''response_etag'', NULLABLE_TEXT),
        (''response_last_modified'', NULLABLE_TEXT)]),
     (''finalized'', [(''item_id'', HEX), (''source_url'', type_of ''string''),
        (''logical_relative_path'', type_of ''string''), (''final_relative_path'', type_of ''string''),
        (''byte_count'', COUNT), (''sha256'', HEX), (''validation_method_version'', type_of ''string''),
        (''finalized_at'', TIMESTAMP), (''expected_size'', VALIDATION_OBJECT),
        (''expected_checksum'', VALIDATION_OBJECT), (''etag'', VALIDATION_OBJECT),
        (''last_modified'', VALIDATION_OBJECT)]),
     (''candidate_created'', [(''item_id'', HEX), (''staging_relative_path'', type_of ''string''),
        (''candidate_relative_path'', type_of ''string''), (''sha256'', NULLABLE_HEX),
        (''finalization_failure_reason'', enum_of CANDIDATE_REASONS)]),
     (''run_closed'', [(''closed_at'', TIMESTAMP), (''close_reason'', enum_of CLOSE_REASONS),
        (''durable_outcome_counts'', COUNTS)]),
     (''local_failure'', [(''failure_code'', enum_of FAILURE_CODES),
        (''failure_detail'', type_of ''string'')])]"

definition common :: "string list" where
  "common = [''schema_version'', ''event_id'', ''sequence'', ''event_type'', ''run_id'',
     ''session_id'', ''recorded_at'', ''previous_digest'', ''event_digest'']"

definition base_properties :: jobject where
  "base_properties =
    [(''schema_version'', JObj [(''const'', JInt SCHEMA_VERSION)]), (''event_id'', UUID),
     (''sequence'', JObj [(''type'', JStr ''integer''), (''minimum'', JInt 1)]),
     (''event_type'', JObj [(''enum'', JArr (map JStr (sort EVENT_TYPES)))]),
     (''run_id'', JObj [(''type'', JStr ''string''), (''minLength'', JInt 1)]),
     (''session_id'', UUID), (''recorded_at'', TIMESTAMP),
     (''previous_digest'', NULLABLE_HEX), (''event_digest'', HEX)]"

definition event_branch :: "string \<Rightarrow> jobject \<Rightarrow> json" where
  "event_branch event_type rules =
     JObj [(''type'', JStr ''object''), (''additionalProperties'', JBool False),
       (''required'', JArr (map JStr (common @ map fst rules))),
       (''properties'', JObj (AList.update ''event_type'' (JObj [(''const'', JStr event_type)])
          (AList.updates (map fst rules) (map snd rules) base_properties)))]"

definition summary_fields :: "string list" where
  "summary_fields = [''schema_version'', ''run_id'', ''session_id'', ''queue_input_digests'',
     ''selection_settings'', ''event_count'', ''final_event_digest'', ''selected_item_count'',
     ''durable_outcome_counts'', ''session_finalized_count'', ''schema_sha256'',
     ''signing_key_fingerprint'', ''signature'']"

definition summary_schema :: json where
  "summary_schema =
     JObj [(''type'', JStr ''object''), (''additionalProperties'', JBool False),
       (''required'', JArr (map JStr summary_fields)),
       (''properties'', JObj [(''schema_version'', JObj [(''const'', JInt SCHEMA_VERSION)]),
          (''run_id'', JObj [(''type'', JStr ''string''), (''minLength'', JInt 1)]),
          (''session_id'', UUID), (''queue_input_digests'', type_of ''array''),
          (''selection_settings'', type_of ''object''), (''event_count'', COUNT),
          (''final_event_digest'', NULLABLE_HEX), (''selected_item_count'', COUNT),
          (''durable_outcome_counts'', COUNTS), (''session_finalized_count'', COUNT),
          (''schema_sha256'', HEX), (''signing_key_fingerprint'', HEX),
          (''signature'', JObj [(''type'', JStr ''string''), (''pattern'', JStr SIGNATURE_PATTERN)])])]"

definition schema_document :: json where
  "schema_document =
     JObj [(''$schema'', JStr ''https://json-schema.org/draft/2020-12/schema''),
       (''title'', JStr ''Acquisition provenance manifest''),
       (''schema_version'', JInt SCHEMA_VERSION), (''canonicalization'', JStr ''JCS-RFC8785''),
       (''$defs'', JObj [
          (''event'', JObj [(''oneOf'', JArr (map (\<lambda>(t, rules). event_branch t rules) EVENT_FIELD_RULES))]),
          (''summary'', summary_schema)])]"

fun obj :: "json \<Rightarrow> jobject" where
  "obj (JObj kvs) = kvs"
| "obj _ = []"

fun arr :: "json \<Rightarrow> json list" where
  "arr (JArr vs) = vs"
| "arr _ = []"

definition path_of :: "string list \<Rightarrow> json \<Rightarrow> json" where
  "path_of ks v = fold (\<lambda>k w. jget (obj w) k) ks v"

text \<open>\<open>event_schema\<close>: the branch whose constant event type is the given one.\<close>

definition event_schema :: "json \<Rightarrow> string \<Rightarrow> json option" where
  "event_schema schema event_type =
     find (\<lambda>b. path_of [''properties'', ''event_type'', ''const''] b = JStr event_type)
       (arr (path_of [''$defs'', ''event'', ''oneOf''] schema))"

subsection \<open>The schema checker\<close>

text \<open>
  \<open>re.search\<close> for the patterns of the schema.  All are anchored, and \<open>$\<close> also matches before
  a final newline.
\<close>

definition digits_of :: "string \<Rightarrow> nat \<Rightarrow> bool" where
  "digits_of s n = (length s = n \<and> list_all is_digit s)"

definition match_timestamp :: "string \<Rightarrow> bool" where
  "match_timestamp s =
     (length s \<ge> 20 \<and> digits_of (take 4 s) 4 \<and> s ! 4 = CHR ''-'' \<and> digits_of (take 2 (drop 5 s)) 2 \<and>
      s ! 7 = CHR ''-'' \<and> digits_of (take 2 (drop 8 s)) 2 \<and> s ! 10 = CHR ''T'' \<and>
      digits_of (take 2 (drop 11 s)) 2 \<and> s ! 13 = CHR '':'' \<and> digits_of (take 2 (drop 14 s)) 2 \<and>
      s ! 16 = CHR '':'' \<and> digits_of (take 2 (drop 17 s)) 2 \<and>
      (let rest = drop 19 s; frac = butlast rest in
       last rest = CHR ''Z'' \<and>
       (frac = [] \<or> (hd frac = CHR ''.'' \<and> is_decimal (tl frac)))))"

definition match_hex64 :: "string \<Rightarrow> bool" where
  "match_hex64 s = (length s = 64 \<and> list_all is_lower_hex s)"

definition match_uuid :: "string \<Rightarrow> bool" where
  "match_uuid s = (map length (split_on (CHR ''-'') s) = [8, 4, 4, 4, 12] \<and>
     list_all (list_all is_lower_hex) (split_on (CHR ''-'') s))"

definition is_upper :: "char \<Rightarrow> bool" where
  "is_upper c = (let n = of_char c :: nat in 65 \<le> n \<and> n \<le> 90)"

definition is_lower :: "char \<Rightarrow> bool" where
  "is_lower c = (let n = of_char c :: nat in 97 \<le> n \<and> n \<le> 122)"

definition match_signature :: "string \<Rightarrow> bool" where
  "match_signature s = (length s = 86 \<and>
     list_all (\<lambda>c. is_digit c \<or> is_upper c \<or> is_lower c \<or> c \<in> {CHR ''_'', CHR ''-''}) s)"

definition match_pattern :: "string \<Rightarrow> string \<Rightarrow> bool" where
  "match_pattern pat s =
     (if pat = HEX_PATTERN then match_hex64 s
      else if pat = TIMESTAMP_PATTERN then match_timestamp s
      else if pat = UUID_PATTERN then match_uuid s
      else if pat = SIGNATURE_PATTERN then match_signature s
      else False)"

definition search_pattern :: "string \<Rightarrow> string \<Rightarrow> bool" where
  "search_pattern pat s =
     (match_pattern pat s \<or> (s \<noteq> [] \<and> last s = CHR 0x0A \<and> match_pattern pat (butlast s)))"

text \<open>\<open>==\<close> on parsed values: numbers compare by value, objects without regard to order.\<close>

fun num_value :: "json \<Rightarrow> rat option" where
  "num_value (JBool b) = Some (if b then 1 else 0)"
| "num_value (JInt i) = Some (of_int i)"
| "num_value (JFloat r) = Some r"
| "num_value _ = None"

fun py_eq :: "json \<Rightarrow> json \<Rightarrow> bool" where
  "py_eq JNull w = (w = JNull)"
| "py_eq (JStr s) w = (w = JStr s)"
| "py_eq (JArr vs) w = (case w of JArr ws \<Rightarrow> list_all2 py_eq vs ws | _ \<Rightarrow> False)"
| "py_eq (JObj kvs) w =
     (case w of
        JObj kws \<Rightarrow> length kvs = length kws \<and>
          list_all (\<lambda>kv. case map_of kws (fst kv) of None \<Rightarrow> False | Some x \<Rightarrow> py_eq (snd kv) x) kvs
      | _ \<Rightarrow> False)"
| "py_eq v w = (num_value w \<noteq> None \<and> num_value v = num_value w)"

datatype problem =
    PConst string
  | PEnum string
  | PType string
  | PFormat string
  | PShort string
  | PRange string
  | PMissing string string
  | PUnknown string string

fun has_type :: "json \<Rightarrow> string \<Rightarrow> bool" where
  "has_type v name =
     (if name = ''integer'' then (case v of JInt _ \<Rightarrow> True | _ \<Rightarrow> False)
      else if name = ''string'' then (case v of JStr _ \<Rightarrow> True | _ \<Rightarrow> False)
      else if name = ''boolean'' then (case v of JBool _ \<Rightarrow> True | _ \<Rightarrow> False)
      else if name = ''null'' then v = JNull
      else if name = ''object'' then (case v of JObj _ \<Rightarrow> True | _ \<Rightarrow> False)
      else if name = ''array'' then (case v of JArr _ \<Rightarrow> True | _ \<Rightarrow> False)
      else False)"

definition type_names :: "json \<Rightarrow> string list" where
  "type_names t = (case t of JArr vs \<Rightarrow> map (\<lambda>v. case v of JStr s \<Rightarrow> s | _ \<Rightarrow> []) vs
                   | JStr s \<Rightarrow> [s] | _ \<Rightarrow> [])"

text \<open>The keyword checks that look at the value itself, not at what it contains.\<close>

definition value_errors :: "json \<Rightarrow> jobject \<Rightarrow> string \<Rightarrow> problem list" where
  "value_errors v schema loc =
     (case v of
        JStr s \<Rightarrow>
          (case map_of schema ''pattern'' of
             Some (JStr pat) \<Rightarrow> if search_pattern pat s then [] else [PFormat loc]
           | _ \<Rightarrow> []) @
          (case map_of schema ''minLength'' of
             Some (JInt n) \<Rightarrow> if int (length s) < n then [PShort loc] else []
           | _ \<Rightarrow> [])
      | JInt i \<Rightarrow>
          (let lo = (case map_of schema ''minimum'' of Some (JInt n) \<Rightarrow> n | _ \<Rightarrow> i);
               hi = (case map_of schema ''maximum'' of Some (JInt n) \<Rightarrow> n | _ \<Rightarrow> i)
           in if i < lo \<or> hi < i then [PRange loc] else [])
      | JObj kvs \<Rightarrow>
          concat (map (\<lambda>r. case r of JStr name \<Rightarrow>
              if map_of kvs name = None then [PMissing loc name] else [] | _ \<Rightarrow> [])
            (arr (jget schema ''required'')))
      | _ \<Rightarrow> [])"

definition const_errors :: "json \<Rightarrow> jobject \<Rightarrow> string \<Rightarrow> problem list" where
  "const_errors v schema loc =
     (case map_of schema ''const'' of Some c \<Rightarrow> if py_eq v c then [] else [PConst loc] | None \<Rightarrow> []) @
     (case map_of schema ''enum'' of
        Some vs \<Rightarrow> if list_ex (py_eq v) (arr vs) then [] else [PEnum loc] | None \<Rightarrow> [])"

definition type_ok :: "json \<Rightarrow> jobject \<Rightarrow> bool" where
  "type_ok v schema =
     (case map_of schema ''type'' of Some t \<Rightarrow> list_ex (has_type v) (type_names t) | None \<Rightarrow> True)"

lemma size_member_obj: "x \<in> set kvs \<Longrightarrow> size (snd x) < size (JObj kvs)"
  by (induction kvs) auto

lemma size_member_arr: "x \<in> set vs \<Longrightarrow> size x < size (JArr vs)"
  by (induction vs) auto

function schema_errors :: "json \<Rightarrow> jobject \<Rightarrow> string \<Rightarrow> problem list" where
  "schema_errors v schema loc =
     (if \<not> type_ok v schema then const_errors v schema loc @ [PType loc]
      else const_errors v schema loc @ value_errors v schema loc @
        (case v of
           JObj kvs \<Rightarrow>
             concat (map (\<lambda>kv.
               case map_of (obj (jget schema ''properties'')) (fst kv) of
                 Some sub \<Rightarrow> schema_errors (snd kv) (obj sub) (loc @ ''.'' @ fst kv)
               | None \<Rightarrow>
                   (case map_of schema ''additionalProperties'' of
                      Some (JBool False) \<Rightarrow> [PUnknown loc (fst kv)]
                    | Some (JObj sub) \<Rightarrow> schema_errors (snd kv) sub (loc @ ''.'' @ fst kv)
                    | _ \<Rightarrow> [])) kvs)
         | JArr vs \<Rightarrow>
             (case map_of schema ''items'' of
                Some (JObj sub) \<Rightarrow>
                  concat (map (\<lambda>iv. schema_errors (snd iv) sub (loc @ ''['' @ show_nat (fst iv) @ '']''))
                    (enumerate 0 vs))
              | _ \<Rightarrow> [])
         | _ \<Rightarrow> []))"
  by pat_completeness auto
termination
proof (relation "measure (\<lambda>(v, s, w). size v)", goal_cases)
  case (2 v schema loc vs _ _ x)
  then have "snd x \<in> set vs" by (auto simp: in_set_enumerate_eq) (metis nth_mem)
  with 2 size_member_arr show ?case by fastforce
next
  case 3
  with size_member_obj show ?case by fastforce
next
  case 4
  with size_member_obj show ?case by fastforce
qed simp

declare schema_errors.simps [simp del]

subsection \<open>URLs with credentials\<close>

text \<open>
  The network location \<open>urlsplit\<close> finds (\<open>None\<close> for the \<open>ValueError\<close> of unbalanced
  brackets).  Leading control characters and blanks and embedded tabs and line ends are dropped
  first.  The further checks of a bracketed IPv6 literal are not modelled.
\<close>

definition scheme_char :: "char \<Rightarrow> bool" where
  "scheme_char c = (is_lower c \<or> is_upper c \<or> is_digit c \<or> c \<in> {CHR ''+'', CHR ''-'', CHR ''.''})"

definition drop_scheme :: "string \<Rightarrow> string" where
  "drop_scheme u =
     (let (h, found, t) = py_partition (CHR '':'') u in
      if found \<and> h \<noteq> [] \<and> (is_lower (hd h) \<or> is_upper (hd h)) \<and> list_all scheme_char h then t else u)"

definition clean_url :: "string \<Rightarrow> string" where
  "clean_url u =
     filter (\<lambda>c. c \<notin> {CHR 0x09, CHR 0x0A, CHR 0x0D}) (dropWhile (\<lambda>c. (of_char c :: nat) \<le> 32) u)"

definition split_netloc :: "string \<Rightarrow> string \<times> string" where
  "split_netloc u =
     (if starts_with ''//'' u
      then (takeWhile (\<lambda>c. c \<notin> set ''/?#'') (drop 2 u), dropWhile (\<lambda>c. c \<notin> set ''/?#'') (drop 2 u))
      else ([], u))"

definition urlsplit_netloc :: "string \<Rightarrow> string option" where
  "urlsplit_netloc u =
     (let n = fst (split_netloc (drop_scheme (clean_url u))) in
      if (CHR ''['' \<in> set n) \<noteq> (CHR '']'' \<in> set n) then None else Some n)"

text \<open>\<open>username is not None or password is not None\<close>: exactly when there is an \<open>@\<close>.\<close>

datatype writer_error = ProvenanceError problem_kind | ValueError
and problem_kind =
    UnknownType | Credentials | HasFloat | SchemaProblems "problem list" | CannotWrite | UnsafePath

definition reject_credentialed_url :: "json \<Rightarrow> writer_error option" where
  "reject_credentialed_url v =
     (case v of
        JStr u \<Rightarrow>
          (case urlsplit_netloc u of
             None \<Rightarrow> Some ValueError
           | Some n \<Rightarrow> if CHR ''@'' \<in> set n then Some (ProvenanceError Credentials) else None)
      | _ \<Rightarrow> None)"

fun first_error :: "writer_error option list \<Rightarrow> writer_error option" where
  "first_error [] = None"
| "first_error (e # es) = (case e of None \<Rightarrow> first_error es | Some x \<Rightarrow> Some x)"

subsection \<open>The writer\<close>

record writer =
  pw_run :: string
  pw_session :: string
  pw_sequence :: int
  pw_finalized :: int
  pw_previous :: "string option"
  pw_events :: "jobject list"

definition new_writer :: "string \<Rightarrow> string \<Rightarrow> writer" where
  "new_writer run_id session =
     \<lparr>pw_run = run_id, pw_session = session, pw_sequence = 0, pw_finalized = 0,
      pw_previous = None, pw_events = []\<rparr>"

fun opt_str :: "string option \<Rightarrow> json" where
  "opt_str None = JNull"
| "opt_str (Some s) = JStr s"

definition base_record :: "writer \<Rightarrow> string \<Rightarrow> string \<Rightarrow> string \<Rightarrow> jobject" where
  "base_record w event_type uuid now =
     [(''schema_version'', JInt SCHEMA_VERSION), (''event_id'', JStr uuid),
      (''sequence'', JInt (pw_sequence w)), (''event_type'', JStr event_type),
      (''run_id'', JStr (pw_run w)), (''session_id'', JStr (pw_session w)),
      (''recorded_at'', JStr now), (''previous_digest'', opt_str (pw_previous w))]"

text \<open>
  \<open>event\<close>: the sequence number is taken first and given back only when the schema check fails;
  a digest that meets a float and an append that fails leave it taken.
\<close>

definition writer_event :: "(string \<Rightarrow> string) \<Rightarrow> string \<Rightarrow> string \<Rightarrow> bool \<Rightarrow> string \<Rightarrow> jobject \<Rightarrow>
    (writer, writer_error, jobject) act" where
  "writer_event sha uuid now append_ok event_type kw w =
     (if event_type \<notin> set EVENT_TYPES then (Inl (ProvenanceError UnknownType), w)
      else case first_error (map reject_credentialed_url
                  (jget kw ''source_url'' # jget kw ''final_url'' # arr (jget kw ''redirect_chain''))) of
        Some e \<Rightarrow> (Inl e, w)
      | None \<Rightarrow>
        (let w = w\<lparr>pw_sequence := pw_sequence w + 1\<rparr>;
             record = AList.updates (map fst kw) (map snd kw) (base_record w event_type uuid now)
         in case digest sha (JObj record) of
              None \<Rightarrow> (Inl (ProvenanceError HasFloat), w)
            | Some dg \<Rightarrow>
                let record = AList.update ''event_digest'' (JStr dg) record;
                    problems = (case event_schema schema_document event_type of
                        None \<Rightarrow> [] | Some sc \<Rightarrow> schema_errors (JObj record) (obj sc) ''$'')
                in if problems \<noteq> []
                   then (Inl (ProvenanceError (SchemaProblems problems)), w\<lparr>pw_sequence := pw_sequence w - 1\<rparr>)
                   else if \<not> append_ok then (Inl (ProvenanceError CannotWrite), w)
                   else (Inr record, w\<lparr>pw_events := pw_events w @ [record], pw_previous := Some dg,
                           pw_finalized := pw_finalized w + (if event_type = ''finalized'' then 1 else 0)\<rparr>)))"

text \<open>\<open>close\<close>: the last event, then the unsigned summary that the key signs.\<close>

definition writer_summary :: "writer \<Rightarrow> string \<Rightarrow> string \<Rightarrow> json \<Rightarrow> json \<Rightarrow> int \<Rightarrow> json \<Rightarrow> jobject" where
  "writer_summary w schema_sha fingerprint queue_input_digests selection_settings
       selected_item_count durable_outcome_counts =
     [(''schema_version'', JInt SCHEMA_VERSION), (''run_id'', JStr (pw_run w)),
      (''session_id'', JStr (pw_session w)), (''queue_input_digests'', queue_input_digests),
      (''selection_settings'', selection_settings), (''event_count'', JInt (pw_sequence w)),
      (''final_event_digest'', opt_str (pw_previous w)),
      (''selected_item_count'', JInt selected_item_count),
      (''durable_outcome_counts'', durable_outcome_counts),
      (''session_finalized_count'', JInt (pw_finalized w)),
      (''schema_sha256'', JStr schema_sha), (''signing_key_fingerprint'', JStr fingerprint)]"

definition writer_close :: "(string \<Rightarrow> string) \<Rightarrow> (string \<Rightarrow> string) \<Rightarrow> string \<Rightarrow> string \<Rightarrow> string \<Rightarrow> bool \<Rightarrow>
    string \<Rightarrow> string \<Rightarrow> json \<Rightarrow> json \<Rightarrow> int \<Rightarrow> json \<Rightarrow> string \<Rightarrow> (writer, writer_error, jobject) act" where
  "writer_close sha sign uuid now closed_at append_ok schema_sha fingerprint queue_input_digests
       selection_settings selected_item_count durable_outcome_counts close_reason =
     andthen (writer_event sha uuid now append_ok ''run_closed''
         [(''closed_at'', JStr closed_at), (''close_reason'', JStr close_reason),
          (''durable_outcome_counts'', durable_outcome_counts)])
       (\<lambda>_ w. let summary = writer_summary w schema_sha fingerprint queue_input_digests
                    selection_settings selected_item_count durable_outcome_counts
              in case canonical_json (JObj summary) of
                   None \<Rightarrow> (Inl (ProvenanceError HasFloat), w)
                 | Some text \<Rightarrow> (Inr (AList.update ''signature'' (JStr (sign text)) summary), w))"

end
