(* ===== verification/Verifier.thy ===== *)
theory Verifier
  imports Provenance
begin

text \<open>
  \<open>src/verify_provenance.py\<close>: the read-only verifier of a record set, over parsed files.  A
  line of \<open>events.jsonl\<close> is its parsed value or \<open>None\<close> when it is not valid JSON.  Exceptions
  that \<open>verify\<close> does not catch are a \<open>crash\<close>.  The theorems relate the writer and the
  verifier: what the writer appends verifies, and what verifies cannot be changed.
\<close>

datatype crash = TypeErrorCrash | FloatCrash

datatype verror =
    VNotObject | VMissing | VVersion | VType | VFields | VSchema problem | VUnavailable string
  | VIds | VSequence | VDuplicate | VPrevious | VDigest
  | VSchemaDoc | VSummaryFields | VSummaryIds | VSchemaDigest | VNoTrust | VFingerprint
  | VTrustedFingerprint | VKey | VKeyRequired | VSignature | VSummarySchema problem
  | VLine nat | VEventCount | VFinalDigest | VLastEvent | VCompletedCount
  | VFileMissing string | VByteCount string | VSha string | VFinalized | VLoad string

definition REQUIRED :: "string list" where "REQUIRED = common"

definition EVENT_FIELDS :: "(string \<times> string list) list" where
  "EVENT_FIELDS =
    [(''run_started'', [''queue_input_digests'', ''selection_settings'', ''selected_item_count'']),
     (''attempt_finished'', [''item_id'', ''source_url'', ''attempt_number'', ''request_started_at'',
        ''request_finished_at'', ''final_url'', ''redirect_chain'', ''http_status'', ''outcome'',
        ''response_content_length'', ''response_content_range'', ''response_content_type'',
        ''response_etag'', ''response_last_modified'']),
     (''finalized'', [''item_id'', ''source_url'', ''logical_relative_path'', ''final_relative_path'',
        ''byte_count'', ''sha256'', ''validation_method_version'', ''finalized_at'', ''expected_size'',
        ''expected_checksum'', ''etag'', ''last_modified'']),
     (''candidate_created'', [''item_id'', ''staging_relative_path'', ''candidate_relative_path'',
        ''sha256'', ''finalization_failure_reason'']),
     (''run_closed'', [''closed_at'', ''close_reason'', ''durable_outcome_counts'']),
     (''local_failure'', [''failure_code'', ''failure_detail''])]"

definition VALIDATION_FIELDS :: "string list" where
  "VALIDATION_FIELDS = [''expected_size'', ''expected_checksum'', ''etag'', ''last_modified'']"

fun hashable :: "json \<Rightarrow> bool" where
  "hashable (JArr vs) = False"
| "hashable (JObj kvs) = False"
| "hashable _ = True"

fun str_of :: "json \<Rightarrow> string" where
  "str_of (JStr s) = s"
| "str_of _ = []"

text \<open>\<open>available is False and (compared is not False or value is not None)\<close>.\<close>

definition unavailable_ok :: "json \<Rightarrow> bool" where
  "unavailable_ok c =
     (case c of
        JObj kvs \<Rightarrow> jget kvs ''available'' = JBool False \<longrightarrow>
          jget kvs ''compared'' = JBool False \<and> jget kvs ''value'' = JNull
      | _ \<Rightarrow> True)"

definition type_errors :: "jobject \<Rightarrow> verror list" where
  "type_errors event =
     (let t = jget event ''event_type'' in
      if \<not> list_ex (py_eq t) (map JStr EVENT_TYPES) then [VType]
      else
        (if set (map fst event) \<noteq> set REQUIRED \<union> set (the (map_of EVENT_FIELDS (str_of t))) then [VFields] else []) @
        (case event_schema schema_document (str_of t) of
           None \<Rightarrow> [] | Some sc \<Rightarrow> map VSchema (schema_errors (JObj event) (obj sc) ''$'')) @
        (if str_of t = ''finalized''
         then concat (map (\<lambda>n. if unavailable_ok (jget event n) then [] else [VUnavailable n]) VALIDATION_FIELDS)
         else []))"

definition without_digest :: "jobject \<Rightarrow> jobject" where
  "without_digest event = AList.delete ''event_digest'' event"

text \<open>\<open>check_event\<close>: the errors, the digest to chain the next event to, the identifiers seen.\<close>

definition check_event :: "(string \<Rightarrow> string) \<Rightarrow> json \<Rightarrow> string \<Rightarrow> string \<Rightarrow> nat \<Rightarrow> string option \<Rightarrow>
    json list \<Rightarrow> crash + (verror list \<times> string option \<times> json list)" where
  "check_event sha v run_id session_id sequence previous seen_ids =
     (case v of
        JObj event \<Rightarrow>
          if \<not> hashable (jget event ''event_type'') \<or> \<not> hashable (jget event ''event_id'') then Inl TypeErrorCrash
          else
            let actual = jget event ''event_digest'';
                shaped = (case actual of JStr s \<Rightarrow> match_hex64 s | _ \<Rightarrow> False);
                dg = digest sha (JObj (without_digest event));
                errors =
                  (if set REQUIRED \<subseteq> set (map fst event) then [] else [VMissing]) @
                  (if eq_int (jget event ''schema_version'') SCHEMA_VERSION then [] else [VVersion]) @
                  type_errors event @
                  (if py_eq (jget event ''run_id'') (JStr run_id) \<and> py_eq (jget event ''session_id'') (JStr session_id)
                   then [] else [VIds]) @
                  (if eq_int (jget event ''sequence'') (int sequence) then [] else [VSequence]) @
                  (if list_ex (py_eq (jget event ''event_id'')) seen_ids then [VDuplicate] else []) @
                  (if py_eq (jget event ''previous_digest'') (opt_str previous) then [] else [VPrevious])
            in if \<not> shaped
               then Inr (errors @ [VDigest], (if is_str actual then Some (str_of actual) else None),
                         jget event ''event_id'' # seen_ids)
               else (case dg of
                       None \<Rightarrow> Inl FloatCrash
                     | Some x \<Rightarrow> Inr (errors @ (if str_of actual = x then [] else [VDigest]),
                                   Some (str_of actual), jget event ''event_id'' # seen_ids))
      | _ \<Rightarrow> Inr ([VNotObject], None, seen_ids))"

text \<open>The loop over the lines; a line that is not JSON leaves the chain where it was.\<close>

record scan =
  sc_previous :: "string option"
  sc_seen :: "json list"
  sc_final :: "jobject list"
  sc_last :: "json option"
  sc_errors :: "verror list"

definition start_scan :: scan where
  "start_scan = \<lparr>sc_previous = None, sc_seen = [], sc_final = [], sc_last = None, sc_errors = []\<rparr>"

fun scan_lines :: "(string \<Rightarrow> string) \<Rightarrow> string \<Rightarrow> string \<Rightarrow> nat \<Rightarrow> json option list \<Rightarrow> scan \<Rightarrow> crash + scan" where
  "scan_lines sha run_id session_id number [] s = Inr s"
| "scan_lines sha run_id session_id number (None # ls) s =
     scan_lines sha run_id session_id (number + 1) ls (s\<lparr>sc_errors := sc_errors s @ [VLine number]\<rparr>)"
| "scan_lines sha run_id session_id number (Some v # ls) s =
     (case check_event sha v run_id session_id number (sc_previous s) (sc_seen s) of
        Inl c \<Rightarrow> Inl c
      | Inr (errs, previous, seen) \<Rightarrow>
          scan_lines sha run_id session_id (number + 1) ls
            (s\<lparr>sc_previous := previous, sc_seen := seen, sc_last := Some v,
               sc_errors := sc_errors s @ errs,
               sc_final := sc_final s @
                 (case v of JObj e \<Rightarrow> if py_eq (jget e ''event_type'') (JStr ''finalized'') then [e] else []
                  | _ \<Rightarrow> [])\<rparr>))"

text \<open>\<open>for event in final_events\<close>; \<open>look\<close> gives size and digest of a file under the destination.\<close>

definition check_final :: "(string \<Rightarrow> (int \<times> string) option) \<Rightarrow> jobject \<Rightarrow> crash + verror list" where
  "check_final look event =
     (case (map_of event ''logical_relative_path'', map_of event ''final_relative_path'') of
        (None, _) \<Rightarrow> Inr [VFinalized]
      | (Some (JStr l), f) \<Rightarrow>
          (case relative_text l of
             None \<Rightarrow> Inr [VFinalized]
           | Some _ \<Rightarrow>
             (case f of
                None \<Rightarrow> Inr [VFinalized]
              | Some (JStr p) \<Rightarrow>
                 (case relative_text p of
                    None \<Rightarrow> Inr [VFinalized]
                  | Some rel \<Rightarrow>
                      (case look rel of
                         None \<Rightarrow> Inr [VFileMissing rel]
                       | Some (n, h) \<Rightarrow>
                           Inr ((if eq_int (jget event ''byte_count'') n then [] else [VByteCount rel]) @
                                (if py_eq (jget event ''sha256'') (JStr h) then [] else [VSha rel]))))
              | Some _ \<Rightarrow> Inl TypeErrorCrash))
      | (Some _, _) \<Rightarrow> Inl TypeErrorCrash)"

fun check_finals :: "(string \<Rightarrow> (int \<times> string) option) \<Rightarrow> jobject list \<Rightarrow> crash + verror list" where
  "check_finals look [] = Inr []"
| "check_finals look (e # es) =
     (case check_final look e of
        Inl c \<Rightarrow> Inl c
      | Inr xs \<Rightarrow> (case check_finals look es of Inl c \<Rightarrow> Inl c | Inr ys \<Rightarrow> Inr (xs @ ys)))"

text \<open>A trusted key: the digest of its raw bytes, and its verdict on a signature of a text.\<close>

record trusted_key =
  k_fingerprint :: string
  k_verify :: "string \<Rightarrow> string \<Rightarrow> bool"

definition key_errors :: "trusted_key option option \<Rightarrow> string option \<Rightarrow> jobject \<Rightarrow> crash + verror list" where
  "key_errors public_key expected summary =
     (let fp = jget summary ''signing_key_fingerprint'';
          expected = (if expected = Some [] then None else expected)
      in case public_key of
           None \<Rightarrow>
             (case expected of
                None \<Rightarrow> Inr [VNoTrust]
              | Some x \<Rightarrow> Inr (VKeyRequired # (if py_eq fp (JStr x) then [] else [VFingerprint])))
         | Some None \<Rightarrow> Inr [VKey]
         | Some (Some k) \<Rightarrow>
             (let e = (if py_eq fp (JStr (k_fingerprint k)) then [] else [VFingerprint]) @
                      (case expected of None \<Rightarrow> []
                       | Some x \<Rightarrow> if k_fingerprint k = x then [] else [VTrustedFingerprint])
              in case (case map_of summary ''signature'' of None \<Rightarrow> JStr [] | Some s \<Rightarrow> s) of
                   JStr sig \<Rightarrow>
                     (case canonical_json (JObj (AList.delete ''signature'' summary)) of
                        None \<Rightarrow> Inl FloatCrash
                      | Some text \<Rightarrow> Inr (e @ (if k_verify k sig text then [] else [VSignature])))
                 | _ \<Rightarrow> Inl TypeErrorCrash))"

definition count_errors :: "jobject \<Rightarrow> nat \<Rightarrow> crash + verror list" where
  "count_errors summary finals =
     (case (jget summary ''durable_outcome_counts'', jget summary ''session_finalized_count'') of
        (JObj counts, c) \<Rightarrow>
          (if \<not> (case c of JInt _ \<Rightarrow> True | JBool _ \<Rightarrow> True | _ \<Rightarrow> False) then Inr []
          else if \<not> eq_int c (int finals) then Inr [VCompletedCount]
          else (case num_value (case map_of counts ''complete'' of None \<Rightarrow> JInt 0 | Some n \<Rightarrow> n) of
                  None \<Rightarrow> Inl TypeErrorCrash
                | Some n \<Rightarrow> Inr (if n < of_int (int finals) then [VCompletedCount] else [])))
      | _ \<Rightarrow> Inr [])"

fun append_result :: "crash + verror list \<Rightarrow> (verror list \<Rightarrow> crash + verror list) \<Rightarrow> crash + verror list" where
  "append_result (Inl c) f = Inl c"
| "append_result (Inr xs) f = (case f xs of Inl c \<Rightarrow> Inl c | Inr ys \<Rightarrow> Inr (xs @ ys))"

definition summary_errors :: "string \<Rightarrow> string \<Rightarrow> string option \<Rightarrow> jobject \<Rightarrow> verror list" where
  "summary_errors run_id session_id schema_digest summary =
     (if set (map fst summary) = set summary_fields then [] else [VSummaryFields]) @
     (if py_eq (jget summary ''run_id'') (JStr run_id) \<and> py_eq (jget summary ''session_id'') (JStr session_id)
      then [] else [VSummaryIds]) @
     (if py_eq (jget summary ''schema_sha256'') (opt_str schema_digest) then [] else [VSchemaDigest])"

definition chain_errors :: "jobject \<Rightarrow> nat \<Rightarrow> scan \<Rightarrow> verror list" where
  "chain_errors summary n s =
     sc_errors s @
     (if eq_int (jget summary ''event_count'') (int n) then [] else [VEventCount]) @
     (if py_eq (jget summary ''final_event_digest'') (opt_str (sc_previous s)) then [] else [VFinalDigest]) @
     (if n \<noteq> 0 \<and> \<not> (case sc_last s of
           Some (JObj e) \<Rightarrow> py_eq (jget e ''event_type'') (JStr ''run_closed'') \<and>
             py_eq (jget e ''durable_outcome_counts'') (jget summary ''durable_outcome_counts'')
         | _ \<Rightarrow> False)
      then [VLastEvent] else [])"

text \<open>
  \<open>verify\<close>: \<open>schema\<close> and \<open>summary\<close> are the parsed files (\<open>None\<close> when unreadable), the events
  file is its lines (\<open>None\<close> when unreadable).
\<close>

definition verify :: "(string \<Rightarrow> string) \<Rightarrow> string \<Rightarrow> string \<Rightarrow> json option \<Rightarrow> string option \<Rightarrow> json option \<Rightarrow>
    json option list option \<Rightarrow> (string \<Rightarrow> (int \<times> string) option) \<Rightarrow> trusted_key option option \<Rightarrow>
    string option \<Rightarrow> crash + verror list" where
  "verify sha run_id session_id schema schema_digest summary events look public_key expected =
     (let errors = (if schema = None then [VLoad ''schema.json''] else []) @
                   (case schema of Some v \<Rightarrow> if py_eq v schema_document then [] else [VSchemaDoc]
                    | None \<Rightarrow> [VSchemaDoc])
      in case summary of
           Some (JObj sm) \<Rightarrow>
             append_result (Inr (errors @ summary_errors run_id session_id schema_digest sm)) (\<lambda>_.
             append_result (key_errors public_key expected sm) (\<lambda>_.
             append_result (Inr (map VSummarySchema (schema_errors (JObj sm) (obj summary_schema) ''$''))) (\<lambda>_.
               let lines = (case events of None \<Rightarrow> [] | Some ls \<Rightarrow> ls) in
               append_result (Inr (if events = None then [VLoad ''events.jsonl''] else [])) (\<lambda>_.
               case scan_lines sha run_id session_id 1 lines start_scan of
                 Inl c \<Rightarrow> Inl c
               | Inr s \<Rightarrow>
                   append_result (Inr (chain_errors sm (length lines) s)) (\<lambda>_.
                   append_result (count_errors sm (length (sc_final s))) (\<lambda>_.
                     check_finals look (sc_final s)))))))
         | Some _ \<Rightarrow> Inr errors
         | None \<Rightarrow> Inr (errors @ [VLoad ''summary.json'']))"

subsection \<open>What the writer appends verifies\<close>

lemma schema_errors_keys:
  assumes "schema_errors (JObj kvs) sc loc = []"
    and req: "map_of sc ''required'' = Some (JArr (map JStr names))"
    and "map_of sc ''properties'' = Some (JObj props)"
    and "map_of sc ''additionalProperties'' = Some (JBool False)"
  shows "set names \<subseteq> set (map fst kvs) \<and> set (map fst kvs) \<subseteq> set (map fst props)"
proof -
  have v: "value_errors (JObj kvs) sc loc = []"
    and c: "\<forall>kv \<in> set kvs. map_of props (fst kv) \<noteq> None"
    using assms by (auto simp: schema_errors.simps jget_def split: if_splits option.splits)
  have "value_errors (JObj kvs) sc loc =
      concat (map (\<lambda>n. if map_of kvs n = None then [PMissing loc n] else []) names)"
    by (simp add: value_errors_def jget_def req comp_def)
  with v have "\<forall>n \<in> set names. map_of kvs n \<noteq> None" by (simp only: concat_map_Nil) (auto split: if_splits)
  with c show ?thesis by (auto simp: map_of_eq_None_iff)
qed

lemma event_branch_keys [simp]:
  "map_of (obj (event_branch t rules)) ''required'' = Some (JArr (map JStr (common @ map fst rules)))"
  "map_of (obj (event_branch t rules)) ''additionalProperties'' = Some (JBool False)"
  "map_of (obj (event_branch t rules)) ''properties'' =
     Some (JObj (AList.update ''event_type'' (JObj [(''const'', JStr t)])
          (AList.updates (map fst rules) (map snd rules) base_properties)))"
  by (simp_all add: event_branch_def)

lemma keys_update: "set (map fst (AList.update k v al)) = insert k (set (map fst al))"
  by (simp add: dom_update)

lemma keys_updates:
  "length ks = length vs \<Longrightarrow> set (map fst (AList.updates ks vs al)) = set ks \<union> set (map fst al)"
proof (induction ks arbitrary: vs al)
  case (Cons k ks)
  then show ?case by (cases vs) (auto simp: dom_update)
qed simp

lemma keys_base_properties: "set (map fst base_properties) = set common"
  by (auto simp: base_properties_def common_def)

lemma branch_type: "path_of [''properties'', ''event_type'', ''const''] (event_branch t rules) = JStr t"
  by (simp add: path_of_def jget_def update_conv)

lemma find_branch:
  "find (\<lambda>b. path_of [''properties'', ''event_type'', ''const''] b = JStr t)
     (map (\<lambda>(t, rules). event_branch t rules) xs) = map_option (event_branch t) (map_of xs t)"
  by (induction xs) (auto simp: branch_type)

lemma event_schema_rules:
  "event_schema schema_document t = map_option (event_branch t) (map_of EVENT_FIELD_RULES t)"
  unfolding event_schema_def schema_document_def
  by (simp add: path_of_def [of "[''$defs'', ''event'', ''oneOf'']"] jget_def find_branch)

lemma EVENT_FIELDS_rules: "EVENT_FIELDS = map (\<lambda>(t, r). (t, map fst r)) EVENT_FIELD_RULES"
  by (simp add: EVENT_FIELDS_def EVENT_FIELD_RULES_def)

lemma rules_of_type: "t \<in> set EVENT_TYPES \<Longrightarrow> map_of EVENT_FIELD_RULES t \<noteq> None"
  by (auto simp: EVENT_TYPES_def EVENT_FIELD_RULES_def)

lemma event_schema_branch:
  assumes "t \<in> set EVENT_TYPES"
  shows "\<exists>rules. event_schema schema_document t = Some (event_branch t rules) \<and>
    map_of EVENT_FIELD_RULES t = Some rules \<and> map_of EVENT_FIELDS t = Some (map fst rules)"
  using rules_of_type [OF assms]
  by (auto simp: event_schema_rules EVENT_FIELDS_rules map_of_map)

lemma event_keys:
  assumes "t \<in> set EVENT_TYPES" and "event_schema schema_document t = Some sc"
    and "schema_errors (JObj kvs) (obj sc) loc = []"
  shows "set (map fst kvs) = set REQUIRED \<union> set (the (map_of EVENT_FIELDS t))"
proof -
  from event_schema_branch [OF assms(1)] assms(2) obtain rules
    where r: "sc = event_branch t rules" "map_of EVENT_FIELDS t = Some (map fst rules)" by auto
  note keys = schema_errors_keys [OF assms(3) [unfolded r] event_branch_keys(1,3,2)]
  have "''event_type'' \<in> set common" by (simp add: common_def)
  then have upper: "set (map fst (AList.update ''event_type'' (JObj [(''const'', JStr t)])
      (AList.updates (map fst rules) (map snd rules) base_properties))) = set common \<union> set (map fst rules)"
    by (subst keys_update, subst keys_updates, simp, subst keys_base_properties) blast
  have "set (map fst kvs) = set common \<union> set (map fst rules)"
    using keys [THEN conjunct1] keys [THEN conjunct2, unfolded upper] by (simp only: set_append subset_antisym)
  then show ?thesis by (simp only: r REQUIRED_def option.sel)
qed

text \<open>An event the writer is asked to record, and what the controller owes about it.\<close>

record call =
  cl_uuid :: string
  cl_now :: string
  cl_type :: string
  cl_fields :: jobject

definition call_ok :: "call \<Rightarrow> bool" where
  "call_ok c \<longleftrightarrow> distinct (map fst (cl_fields c)) \<and>
     list_all (\<lambda>kv. fst kv \<notin> set common \<and> canonical_json (snd kv) \<noteq> None) (cl_fields c) \<and>
     (cl_type c = ''finalized'' \<longrightarrow> list_all (\<lambda>n. unavailable_ok (jget (cl_fields c) n)) VALIDATION_FIELDS)"

definition plain_record :: "writer \<Rightarrow> call \<Rightarrow> jobject" where
  "plain_record w c = AList.updates (map fst (cl_fields c)) (map snd (cl_fields c))
     (base_record w (cl_type c) (cl_uuid c) (cl_now c))"

lemma map_of_rev_distinct: "distinct (map fst xs) \<Longrightarrow> map_of (rev xs) = map_of xs"
  by (subst map_of_inject_set) (simp_all flip: rev_map)

lemma map_of_updates_kw:
  "distinct (map fst kw) \<Longrightarrow> map_of (AList.updates (map fst kw) (map snd kw) al) k =
     (case map_of kw k of None \<Rightarrow> map_of al k | Some v \<Rightarrow> Some v)"
  by (simp add: updates_conv' map_upds_def zip_map_fst_snd map_of_rev_distinct map_add_def)

lemma plain_record_base:
  assumes "call_ok c" and "k \<in> set common"
  shows "map_of (plain_record w c) k = map_of (base_record w (cl_type c) (cl_uuid c) (cl_now c)) k"
proof -
  have "k \<notin> fst ` set (cl_fields c)" using assms by (auto simp: call_ok_def list_all_iff)
  then show ?thesis by (simp add: plain_record_def)
qed

lemma common_keys:
  "''schema_version'' \<in> set common" "''event_id'' \<in> set common" "''sequence'' \<in> set common"
  "''event_type'' \<in> set common" "''run_id'' \<in> set common" "''session_id'' \<in> set common"
  "''recorded_at'' \<in> set common" "''previous_digest'' \<in> set common" "''event_digest'' \<in> set common"
  by (simp_all add: common_def)

lemma plain_record_jget:
  assumes "call_ok c"
  shows "jget (plain_record w c) ''schema_version'' = JInt SCHEMA_VERSION"
    "jget (plain_record w c) ''event_id'' = JStr (cl_uuid c)"
    "jget (plain_record w c) ''sequence'' = JInt (pw_sequence w)"
    "jget (plain_record w c) ''event_type'' = JStr (cl_type c)"
    "jget (plain_record w c) ''run_id'' = JStr (pw_run w)"
    "jget (plain_record w c) ''session_id'' = JStr (pw_session w)"
    "jget (plain_record w c) ''previous_digest'' = opt_str (pw_previous w)"
    "map_of (plain_record w c) ''event_digest'' = None"
  by (simp_all add: jget_def plain_record_base [OF assms] common_keys base_record_def)

lemma plain_record_field:
  assumes "call_ok c" and "k \<notin> set common"
  shows "jget (plain_record w c) k = jget (cl_fields c) k"
proof -
  have "map_of (base_record w (cl_type c) (cl_uuid c) (cl_now c)) k = None"
    using assms(2) by (auto simp: base_record_def common_def)
  then show ?thesis using assms(1)
    by (simp add: jget_def plain_record_def map_of_updates_kw call_ok_def split: option.split)
qed

lemma validation_not_common: "n \<in> set VALIDATION_FIELDS \<Longrightarrow> n \<notin> set common"
  by (auto simp: VALIDATION_FIELDS_def common_def)

lemma those_None: "those xs = None \<longleftrightarrow> None \<in> set xs"
  by (induction xs) (auto split: option.splits)

lemma canonical_obj: "canonical_json (JObj kvs) = None \<longleftrightarrow> (\<exists>kv \<in> set kvs. canonical_json (snd kv) = None)"
  by (force simp: those_None)

lemma values_updates:
  "set (AList.updates (map fst kw) (map snd kw) al) \<subseteq> set kw \<union> set al"
proof (induction kw arbitrary: al)
  case (Cons x kw)
  have "set (AList.update (fst x) (snd x) al) \<subseteq> insert x (set al)" for al
    by (induction al) auto
  with Cons [of "AList.update (fst x) (snd x) al"] show ?case by auto
qed simp

lemma canonical_plain:
  assumes "call_ok c"
  shows "canonical_json (JObj (plain_record w c)) \<noteq> None"
proof -
  have "canonical_json (snd kv) \<noteq> None" if "kv \<in> set (base_record w t u n)" for kv t u n
    using that by (cases "pw_previous w") (auto simp: base_record_def)
  moreover have "canonical_json (snd kv) \<noteq> None" if "kv \<in> set (cl_fields c)" for kv
    using assms that by (auto simp: call_ok_def list_all_iff)
  ultimately show ?thesis
    using values_updates [of "cl_fields c" "base_record w (cl_type c) (cl_uuid c) (cl_now c)"]
    unfolding canonical_obj plain_record_def by blast
qed

definition signed_record :: "writer \<Rightarrow> call \<Rightarrow> string \<Rightarrow> jobject" where
  "signed_record w c dg = AList.update ''event_digest'' (JStr dg) (plain_record w c)"

lemma signed_jget:
  "k \<noteq> ''event_digest'' \<Longrightarrow> jget (signed_record w c dg) k = jget (plain_record w c) k"
  "jget (signed_record w c dg) ''event_digest'' = JStr dg"
  by (simp_all add: jget_def signed_record_def update_conv)

lemma without_signed:
  assumes "call_ok c"
  shows "without_digest (signed_record w c dg) = plain_record w c"
proof -
  have "''event_digest'' \<notin> fst ` set (plain_record w c)"
    using plain_record_jget(8) [OF assms] by (simp add: map_of_eq_None_iff)
  then show ?thesis by (simp add: without_digest_def signed_record_def delete_update_fresh)
qed

lemma type_errors_signed:
  assumes "call_ok c" and "cl_type c \<in> set EVENT_TYPES"
    and "event_schema schema_document (cl_type c) = Some sc"
    and "schema_errors (JObj (signed_record w c dg)) (obj sc) ''$'' = []"
  shows "type_errors (signed_record w c dg) = []"
proof -
  let ?e = "signed_record w c dg"
  have t: "jget ?e ''event_type'' = JStr (cl_type c)"
    by (simp add: signed_jget plain_record_jget [OF assms(1)])
  have known: "list_ex (py_eq (JStr (cl_type c))) (map JStr EVENT_TYPES)"
    using assms(2) by (simp add: list_ex_iff)
  have keys: "set (map fst ?e) = set REQUIRED \<union> set (the (map_of EVENT_FIELDS (cl_type c)))"
    by (rule event_keys [OF assms(2-4)])
  have val: "unavailable_ok (jget ?e n)" if "cl_type c = ''finalized''" "n \<in> set VALIDATION_FIELDS" for n
  proof -
    have nc: "n \<notin> set common" by (rule validation_not_common [OF that(2)])
    then have "n \<noteq> ''event_digest''" using common_keys(9) by metis
    then have "jget ?e n = jget (cl_fields c) n"
      by (simp add: signed_jget plain_record_field [OF assms(1) nc])
    with assms(1) that show ?thesis by (simp add: call_ok_def list_all_iff)
  qed
  then have final: "(if cl_type c = ''finalized'' then concat (map (\<lambda>n. if unavailable_ok (jget ?e n) then []
      else [VUnavailable n]) VALIDATION_FIELDS) else []) = []"
    by (auto simp: concat_map_Nil)
  show ?thesis
    by (simp only: type_errors_def Let_def t known str_of.simps keys assms(3,4) final option.case
        append_Nil list.map if_True not_True_eq_False if_False simp_thms)
qed

lemma check_event_signed:
  assumes "call_ok c" and "cl_type c \<in> set EVENT_TYPES"
    and "event_schema schema_document (cl_type c) = Some sc"
    and "schema_errors (JObj (signed_record w c dg)) (obj sc) ''$'' = []"
    and "digest sha (JObj (plain_record w c)) = Some dg" and "match_hex64 dg"
    and "pw_sequence w = int n" and "JStr (cl_uuid c) \<notin> set seen"
  shows "check_event sha (JObj (signed_record w c dg)) (pw_run w) (pw_session w) n (pw_previous w) seen =
    Inr ([], Some dg, JStr (cl_uuid c) # seen)"
proof -
  let ?e = "signed_record w c dg"
  note keys = event_keys [OF assms(2-4)]
  have seen: "\<not> list_ex (py_eq (JStr (cl_uuid c))) seen"
    using assms(8) by (auto simp: list_ex_iff)
  have prev: "py_eq (opt_str (pw_previous w)) (opt_str (pw_previous w))"
    by (cases "pw_previous w") simp_all
  note g = signed_jget plain_record_jget [OF assms(1)]
  have req: "set REQUIRED \<subseteq> set (map fst ?e)" using keys by blast
  show ?thesis
    using type_errors_signed [OF assms(1-4)] req prev seen assms(5-7)
    by (simp add: check_event_def g without_signed [OF assms(1)] Let_def SCHEMA_VERSION_def)
qed

subsection \<open>A session of the writer\<close>

definition record_call :: "(string \<Rightarrow> string) \<Rightarrow> call \<Rightarrow> writer \<Rightarrow> writer" where
  "record_call sha c w =
     snd (writer_event sha (cl_uuid c) (cl_now c) True (cl_type c) (cl_fields c) w)"

definition record_calls :: "(string \<Rightarrow> string) \<Rightarrow> call list \<Rightarrow> writer \<Rightarrow> writer" where
  "record_calls sha cs w = fold (record_call sha) cs w"

definition verified :: "(string \<Rightarrow> string) \<Rightarrow> string set \<Rightarrow> writer \<Rightarrow> bool" where
  "verified sha ids w \<longleftrightarrow> pw_sequence w = int (length (pw_events w)) \<and>
     (\<exists>s. scan_lines sha (pw_run w) (pw_session w) 1 (map (Some \<circ> JObj) (pw_events w)) start_scan = Inr s \<and>
        sc_errors s = [] \<and> sc_previous s = pw_previous w \<and> set (sc_seen s) \<subseteq> JStr ` ids \<and>
        int (length (sc_final s)) = pw_finalized w \<and>
        sc_last s = (if pw_events w = [] then None else Some (JObj (last (pw_events w)))))"

lemma scan_lines_append:
  "scan_lines sha r i n (xs @ ys) s =
     (case scan_lines sha r i n xs s of Inl c \<Rightarrow> Inl c | Inr t \<Rightarrow> scan_lines sha r i (n + length xs) ys t)"
proof (induction xs arbitrary: n s)
  case (Cons x xs)
  then show ?case by (cases x) (auto split: sum.splits prod.splits)
qed simp

lemma writer_event_cases:
  assumes "call_ok c"
  shows "record_call sha c w = w \<or>
    (\<exists>sc dg. cl_type c \<in> set EVENT_TYPES \<and> event_schema schema_document (cl_type c) = Some sc \<and>
      digest sha (JObj (plain_record (w\<lparr>pw_sequence := pw_sequence w + 1\<rparr>) c)) = Some dg \<and>
      schema_errors (JObj (signed_record (w\<lparr>pw_sequence := pw_sequence w + 1\<rparr>) c dg)) (obj sc) ''$'' = [] \<and>
      record_call sha c w =
        w\<lparr>pw_sequence := pw_sequence w + 1,
          pw_events := pw_events w @ [signed_record (w\<lparr>pw_sequence := pw_sequence w + 1\<rparr>) c dg],
          pw_previous := Some dg,
          pw_finalized := pw_finalized w + (if cl_type c = ''finalized'' then 1 else 0)\<rparr>)"
proof (cases "cl_type c \<in> set EVENT_TYPES")
  case True
  from event_schema_branch [OF True] obtain sc
    where sc: "event_schema schema_document (cl_type c) = Some sc" by auto
  let ?w = "w\<lparr>pw_sequence := pw_sequence w + 1\<rparr>"
  from canonical_plain [OF assms, of ?w] obtain dg
    where dg: "digest sha (JObj (plain_record ?w c)) = Some dg"
    by (auto simp: digest_def simp del: canonical_json.simps)
  show ?thesis
    using True sc dg
    by (auto simp: record_call_def writer_event_def Let_def plain_record_def signed_record_def
        split: option.splits)
qed (simp add: record_call_def writer_event_def)

lemma verified_call:
  assumes "verified sha ids w" and "call_ok c" and "cl_uuid c \<notin> ids" and "\<And>t. match_hex64 (sha t)"
  shows "verified sha (insert (cl_uuid c) ids) (record_call sha c w)"
  using writer_event_cases [OF assms(2), of sha w]
proof (elim disjE exE conjE)
  assume "record_call sha c w = w"
  with assms(1) show ?thesis by (auto simp: verified_def)
next
  fix sc dg
  let ?w = "w\<lparr>pw_sequence := pw_sequence w + 1\<rparr>"
  assume t: "cl_type c \<in> set EVENT_TYPES" and sc: "event_schema schema_document (cl_type c) = Some sc"
    and dg: "digest sha (JObj (plain_record ?w c)) = Some dg"
    and ok: "schema_errors (JObj (signed_record ?w c dg)) (obj sc) ''$'' = []"
    and res: "record_call sha c w =
        w\<lparr>pw_sequence := pw_sequence w + 1,
          pw_events := pw_events w @ [signed_record ?w c dg], pw_previous := Some dg,
          pw_finalized := pw_finalized w + (if cl_type c = ''finalized'' then 1 else 0)\<rparr>"
  from assms(1) obtain s where seq: "pw_sequence w = int (length (pw_events w))"
    and s: "scan_lines sha (pw_run w) (pw_session w) 1 (map (Some \<circ> JObj) (pw_events w)) start_scan = Inr s"
      "sc_errors s = []" "sc_previous s = pw_previous w" "set (sc_seen s) \<subseteq> JStr ` ids"
      "int (length (sc_final s)) = pw_finalized w"
    by (auto simp: verified_def)
  have "match_hex64 dg" using dg assms(4) by (auto simp: digest_def)
  moreover have "JStr (cl_uuid c) \<notin> set (sc_seen s)" using s(4) assms(3) by auto
  moreover have "pw_sequence ?w = int (1 + length (pw_events w))" by (simp add: seq)
  ultimately have "check_event sha (JObj (signed_record ?w c dg)) (pw_run w) (pw_session w)
      (1 + length (pw_events w)) (pw_previous w) (sc_seen s) =
      Inr ([], Some dg, JStr (cl_uuid c) # sc_seen s)"
    using check_event_signed [OF assms(2) t sc ok dg, of "1 + length (pw_events w)" "sc_seen s"] by simp
  moreover have "jget (signed_record ?w c dg) ''event_type'' = JStr (cl_type c)"
    by (simp add: signed_jget plain_record_jget [OF assms(2)])
  ultimately show ?thesis
    using s seq by (auto simp: verified_def res scan_lines_append)
qed

lemma verified_calls:
  assumes "verified sha ids w" and "list_all call_ok cs" and "distinct (map cl_uuid cs)"
    and "set (map cl_uuid cs) \<inter> ids = {}" and "\<And>t. match_hex64 (sha t)"
  shows "verified sha (ids \<union> set (map cl_uuid cs)) (record_calls sha cs w)"
  using assms(1-4)
proof (induction cs arbitrary: w ids)
  case (Cons c cs)
  have "verified sha (insert (cl_uuid c) ids) (record_call sha c w)"
    by (rule verified_call) (use Cons.prems assms(5) in auto)
  from Cons.IH [OF this] Cons.prems show ?case by (simp add: record_calls_def)
qed (simp add: record_calls_def)

lemma verified_new: "verified sha {} (new_writer r i)"
  by (simp add: verified_def new_writer_def start_scan_def)

lemma record_calls_names [simp]:
  "pw_run (record_calls sha cs w) = pw_run w" "pw_session (record_calls sha cs w) = pw_session w"
proof -
  have "pw_run (record_call sha c w) = pw_run w \<and> pw_session (record_call sha c w) = pw_session w" for c w
    by (auto simp: record_call_def writer_event_def Let_def split: option.splits)
  then show "pw_run (record_calls sha cs w) = pw_run w" "pw_session (record_calls sha cs w) = pw_session w"
    by (induction cs arbitrary: w) (simp_all add: record_calls_def)
qed

lemma writer_scan:
  assumes "list_all call_ok cs" and "distinct (map cl_uuid cs)" and "\<And>t. match_hex64 (sha t)"
    and "w = record_calls sha cs (new_writer run_id session_id)"
  shows "\<exists>s. scan_lines sha run_id session_id 1 (map (Some \<circ> JObj) (pw_events w)) start_scan = Inr s \<and>
    sc_errors s = [] \<and> sc_previous s = pw_previous w \<and>
    pw_sequence w = int (length (pw_events w)) \<and> pw_finalized w = int (length (sc_final s))"
proof -
  have "verified sha ({} \<union> set (map cl_uuid cs)) w"
    unfolding assms(4) by (rule verified_calls [OF verified_new assms(1,2)]) (simp_all add: assms(3))
  moreover have "pw_run w = run_id" "pw_session w = session_id"
    by (simp_all add: assms(4) new_writer_def)
  ultimately show ?thesis by (auto simp: verified_def)
qed


definition example_sha :: "string \<Rightarrow> string" where
  "example_sha t = replicate 61 (CHR ''0'') @
     [hex_digit (length t div 256 mod 16), hex_digit (length t div 16 mod 16), hex_digit (length t mod 16)]"

lemma hex_digit_lower: "n < 16 \<Longrightarrow> is_lower_hex (hex_digit n)"
  by (auto simp: hex_digit_def is_lower_hex_def is_digit_def)

lemma example_sha_hex: "match_hex64 (example_sha t)"
  by (simp add: match_hex64_def example_sha_def hex_digit_lower)
     (simp add: list_all_iff is_lower_hex_def is_digit_def)

definition example_uuid :: "char \<Rightarrow> string" where
  "example_uuid c = replicate 8 c @ ''-0000-4000-8000-'' @ replicate 12 c"

definition example_calls :: "call list" where
  "example_calls =
    [\<lparr>cl_uuid = example_uuid (CHR ''a''), cl_now = ''2026-01-02T03:04:05Z'', cl_type = ''run_started'',
      cl_fields = [(''queue_input_digests'', JArr []), (''selection_settings'', JObj []),
        (''selected_item_count'', JInt 2)]\<rparr>,
     \<lparr>cl_uuid = example_uuid (CHR ''b''), cl_now = ''2026-01-02T03:04:06Z'', cl_type = ''local_failure'',
      cl_fields = [(''failure_code'', JStr ''storage''), (''failure_detail'', JStr ''disk full'')]\<rparr>]"

lemma example_calls_ok: "list_all call_ok example_calls"
  by (simp add: example_calls_def call_ok_def common_def)


subsection \<open>What verifies cannot be changed\<close>

lemma check_event_ok:
  assumes "check_event sha (JObj e) r i n prev seen = Inr ([], p, seen')"
  shows "\<exists>d. jget e ''event_digest'' = JStr d \<and> p = Some d \<and>
    digest sha (JObj (without_digest e)) = Some d \<and> eq_int (jget e ''sequence'') (int n) \<and>
    py_eq (jget e ''previous_digest'') (opt_str prev)"
  using assms
  by (auto simp: check_event_def Let_def split: if_splits option.splits json.splits)

lemma scan_snoc:
  assumes "scan_lines sha r i 1 (map (Some \<circ> JObj) (evs @ [e])) start_scan = Inr s" and "sc_errors s = []"
  shows "\<exists>t seen. scan_lines sha r i 1 (map (Some \<circ> JObj) evs) start_scan = Inr t \<and> sc_errors t = [] \<and>
    check_event sha (JObj e) r i (1 + length evs) (sc_previous t) (sc_seen t) = Inr ([], sc_previous s, seen)"
  using assms by (auto simp: scan_lines_append split: sum.splits prod.splits)

text \<open>
  Records with the same digest are the same: SHA-256 does not collide on the records at hand.
\<close>

definition no_collision :: "(string \<Rightarrow> string) \<Rightarrow> jobject set \<Rightarrow> bool" where
  "no_collision sha E \<longleftrightarrow> (\<forall>e \<in> E. \<forall>f \<in> E.
     digest sha (JObj (without_digest e)) = digest sha (JObj (without_digest f)) \<and>
     digest sha (JObj (without_digest e)) \<noteq> None \<longrightarrow>
     map_of (without_digest e) = map_of (without_digest f))"

lemma no_collisionD:
  assumes "no_collision sha E" and "e \<in> E" and "f \<in> E"
    and "digest sha (JObj (without_digest e)) = Some d" and "digest sha (JObj (without_digest f)) = Some d"
  shows "map_of (without_digest e) = map_of (without_digest f)"
  using assms(1) [unfolded no_collision_def, rule_format, OF assms(2,3)] assms(4,5) by simp

lemma no_collision_mono: "no_collision sha E \<Longrightarrow> F \<subseteq> E \<Longrightarrow> no_collision sha F"
  unfolding no_collision_def by blast

lemma same_field:
  assumes "map_of (without_digest e) = map_of (without_digest f)" and "k \<noteq> ''event_digest''"
  shows "jget e k = jget f k"
  using fun_cong [OF assms(1), of k] assms(2) by (simp add: without_digest_def jget_def)

lemma eq_int_unique: "eq_int v m \<Longrightarrow> eq_int v n \<Longrightarrow> m = n"
  by (cases v) auto

lemma py_eq_opt_unique: "py_eq v (opt_str a) \<Longrightarrow> py_eq v (opt_str b) \<Longrightarrow> a = b"
  by (cases a; cases b; cases v) auto

lemma chain_unique:
  assumes "no_collision sha (set evs \<union> set evs')"
    and "scan_lines sha r i 1 (map (Some \<circ> JObj) evs) start_scan = Inr s" and "sc_errors s = []"
    and "scan_lines sha r i 1 (map (Some \<circ> JObj) evs') start_scan = Inr s'" and "sc_errors s' = []"
    and "sc_previous s = sc_previous s'"
  shows "map map_of evs = map map_of evs'"
  using assms
proof (induction evs arbitrary: evs' s s' rule: rev_induct)
  case Nil
  show ?case
  proof (cases evs' rule: rev_cases)
    case (snoc ys y)
    from scan_snoc [OF Nil.prems(4) [unfolded snoc] Nil.prems(5)] have False
      using Nil.prems(2,6) by (auto simp: start_scan_def dest: check_event_ok)
    then show ?thesis ..
  qed simp
next
  case (snoc x xs)
  obtain t p seen
    where t: "scan_lines sha r i 1 (map (Some \<circ> JObj) xs) start_scan = Inr t" "sc_errors t = []"
      and c: "check_event sha (JObj x) r i (1 + length xs) (sc_previous t) (sc_seen t) = Inr ([], sc_previous s, seen)"
    using scan_snoc [OF snoc.prems(2,3)] by (elim exE conjE) (rule that)
  obtain d where d: "jget x ''event_digest'' = JStr d" "sc_previous s = Some d"
    "digest sha (JObj (without_digest x)) = Some d" "eq_int (jget x ''sequence'') (int (1 + length xs))"
    "py_eq (jget x ''previous_digest'') (opt_str (sc_previous t))"
    using check_event_ok [OF c] by (elim exE conjE) (rule that)
  show ?case
  proof (cases evs' rule: rev_cases)
    case Nil
    with snoc.prems(4,6) d(2) show ?thesis by (auto simp: start_scan_def)
  next
    case (snoc ys y)
    note evs' = this
    obtain t' p' seen'
      where t': "scan_lines sha r i 1 (map (Some \<circ> JObj) ys) start_scan = Inr t'" "sc_errors t' = []"
        and c': "check_event sha (JObj y) r i (1 + length ys) (sc_previous t') (sc_seen t') = Inr ([], sc_previous s', seen')"
      using scan_snoc [OF snoc.prems(4) [unfolded snoc] snoc.prems(5)] by (elim exE conjE) (rule that)
    obtain d' where d': "jget y ''event_digest'' = JStr d'" "sc_previous s' = Some d'"
      "digest sha (JObj (without_digest y)) = Some d'" "eq_int (jget y ''sequence'') (int (1 + length ys))"
      "py_eq (jget y ''previous_digest'') (opt_str (sc_previous t'))"
      using check_event_ok [OF c'] by (elim exE conjE) (rule that)
    have dd: "d = d'" using d(2) d'(2) snoc.prems(6) by simp
    have m: "map_of (without_digest x) = map_of (without_digest y)"
      by (rule no_collisionD [OF snoc.prems(1) _ _ d(3) d'(3) [folded dd]]) (simp_all add: evs')
    have p: "sc_previous t = sc_previous t'"
      using d(5) d'(5) same_field [OF m, of "''previous_digest''"] py_eq_opt_unique by simp
    have "no_collision sha (set xs \<union> set ys)"
      by (rule no_collision_mono [OF snoc.prems(1)]) (auto simp: evs')
    from snoc.IH [OF this t t' p] have IH: "map map_of xs = map map_of ys" .
    have "map_of x = map_of y"
    proof
      fix k
      show "map_of x k = map_of y k"
        using fun_cong [OF m, of k] d(1) d'(1) dd
        by (cases "k = ''event_digest''") (auto simp: without_digest_def jget_def split: option.splits)
    qed
    with IH show ?thesis by (simp add: evs')
  qed
qed


definition example_events :: "jobject list" where
  "example_events = pw_events (record_calls example_sha example_calls (new_writer ''r1'' (example_uuid (CHR ''c''))))"

lemma example_digests:
  "length example_events = 2 \<and>
   digest example_sha (JObj (without_digest (example_events ! 0))) \<noteq>
   digest example_sha (JObj (without_digest (example_events ! 1)))"
  by code_simp

lemma example_no_collision: "no_collision example_sha (set example_events)"
proof -
  obtain a b where ab: "example_events = [a, b]"
    using example_digests by (auto simp: numeral_2_eq_2 length_Suc_conv)
  have "set example_events = {a, b}" "example_events ! 0 = a" "example_events ! 1 = b" by (simp_all add: ab)
  then show ?thesis using example_digests by (auto simp: no_collision_def simp del: canonical_json.simps)
qed


subsection \<open>A failed append leaves a gap\<close>

lemma credentials_not_write:
  "first_error (map reject_credentialed_url vs) \<noteq> Some (ProvenanceError CannotWrite)"
  by (induction vs) (auto simp: reject_credentialed_url_def split: json.splits option.splits)

lemma check_event_gap:
  assumes "call_ok c" and "digest sha (JObj (plain_record w c)) = Some dg" and "match_hex64 dg"
    and "pw_sequence w \<noteq> int n"
  shows "\<exists>errs. check_event sha (JObj (signed_record w c dg)) r i n prev seen =
    Inr (errs, Some dg, JStr (cl_uuid c) # seen) \<and> VSequence \<in> set errs"
  using assms(2-4)
  by (simp add: check_event_def signed_jget plain_record_jget [OF assms(1)] without_signed [OF assms(1)] Let_def)

text \<open>
  When the append of an event fails, the writer keeps the sequence number it took, so the
  next event it does append is reported by the verifier as a sequence gap: the record set of a
  session that survives a write error does not verify.
\<close>
theorem failed_append_breaks_the_chain:
  assumes "list_all call_ok cs" and "distinct (map cl_uuid cs)" and "\<And>t. match_hex64 (sha t)"
    and "w = record_calls sha cs (new_writer run_id session_id)"
    and "writer_event sha u t False ty kw w = (Inl (ProvenanceError CannotWrite), w1)"
    and "call_ok c" and "pw_events (record_call sha c w1) \<noteq> pw_events w1"
  shows "\<exists>s. scan_lines sha run_id session_id 1 (map (Some \<circ> JObj) (pw_events (record_call sha c w1)))
      start_scan = Inr s \<and> VSequence \<in> set (sc_errors s)"
proof -
  obtain s0 where s0: "scan_lines sha run_id session_id 1 (map (Some \<circ> JObj) (pw_events w)) start_scan = Inr s0"
    and n: "pw_sequence w = int (length (pw_events w))"
    using writer_scan [OF assms(1-4)] by blast
  have w1: "pw_events w1 = pw_events w" "pw_sequence w1 = pw_sequence w + 1"
    using assms(5) credentials_not_write
    by (auto simp: writer_event_def Let_def simp del: list.map first_error.simps split: if_splits option.splits)
  let ?w = "w1\<lparr>pw_sequence := pw_sequence w1 + 1\<rparr>"
  obtain dg where dg: "digest sha (JObj (plain_record ?w c)) = Some dg"
    and res: "pw_events (record_call sha c w1) = pw_events w @ [signed_record ?w c dg]"
    using writer_event_cases [OF assms(6), of sha w1] assms(7) w1(1) by auto
  have "match_hex64 dg" using dg assms(3) by (auto simp: digest_def simp del: canonical_json.simps)
  moreover have "pw_sequence ?w \<noteq> int (1 + length (pw_events w))" by (simp add: w1(2) n)
  ultimately obtain errs where "check_event sha (JObj (signed_record ?w c dg)) run_id session_id
      (1 + length (pw_events w)) (sc_previous s0) (sc_seen s0) = Inr (errs, Some dg, JStr (cl_uuid c) # sc_seen s0)"
    and "VSequence \<in> set errs"
    using check_event_gap [OF assms(6) dg] by blast
  then show ?thesis by (simp add: res scan_lines_append s0 [simplified])
qed

definition gap_writer :: writer where
  "gap_writer = (new_writer ''r1'' (example_uuid (CHR ''c'')))\<lparr>pw_sequence := 1\<rparr>"

lemma gap_writer_event:
  "writer_event example_sha (cl_uuid (example_calls ! 0)) (cl_now (example_calls ! 0)) False
     (cl_type (example_calls ! 0)) (cl_fields (example_calls ! 0)) (new_writer ''r1'' (example_uuid (CHR ''c''))) =
   (Inl (ProvenanceError CannotWrite), gap_writer)"
  by code_simp

lemma gap_appends: "length (pw_events (record_call example_sha (example_calls ! 1) gap_writer)) = 1"
  by code_simp

theorem failed_append_breaks_the_chain_witness:
  "\<exists>s. scan_lines example_sha ''r1'' (example_uuid (CHR ''c'')) 1
     (map (Some \<circ> JObj) (pw_events (record_call example_sha (example_calls ! 1) gap_writer))) start_scan = Inr s \<and>
   VSequence \<in> set (sc_errors s)"
proof (rule failed_append_breaks_the_chain [where cs = "[]" and sha = example_sha, OF _ _ _ refl])
  show "writer_event example_sha (cl_uuid (example_calls ! 0)) (cl_now (example_calls ! 0)) False
     (cl_type (example_calls ! 0)) (cl_fields (example_calls ! 0))
     (record_calls example_sha [] (new_writer ''r1'' (example_uuid (CHR ''c'')))) =
     (Inl (ProvenanceError CannotWrite), gap_writer)"
    using gap_writer_event by (simp add: record_calls_def)
  show "call_ok (example_calls ! 1)" using example_calls_ok by (simp add: example_calls_def)
  have "pw_events gap_writer = []" by (simp add: gap_writer_def new_writer_def)
  then show "pw_events (record_call example_sha (example_calls ! 1) gap_writer) \<noteq> pw_events gap_writer"
    using gap_appends by auto
qed (simp_all add: example_sha_hex)

text \<open>A line whose event type is a list makes the verifier raise instead of report.\<close>

lemma unhashable_type_crashes:
  "jget e ''event_type'' = JArr vs \<Longrightarrow> check_event sha (JObj e) r i n prev seen = Inl TypeErrorCrash"
  by (simp add: check_event_def)

end
