(* ===== verification/Downloader.thy ===== *)
theory Downloader
  imports Projection Verifier
begin

text \<open>
  The state of \<open>class Downloader\<close> (\<open>src/tod-dl.py\<close>) and the operations every other part is
  built from: provenance events, attempt records, \<open>update\<close>, \<open>transition\<close> and the projection
  change after a commit.  What an operation reads from outside is an argument \<open>env\<close>: the
  digest, the clocks (one reading per operation), a fresh identifier, the verdict of the
  provenance append, of the SQLite commit and of the Tor control port.  Threads and locks are
  not modelled: an operation runs alone, as under \<open>db_lock\<close>.
\<close>

subsection \<open>Environment, configuration and state\<close>

text \<open>A commit that fails leaves the durable result unknown: the flag says what reached the disk.\<close>

datatype commit = Committed | CommitError bool

record env =
  e_sha :: "string \<Rightarrow> string"
  e_now :: string
  e_utc :: string
  e_time :: rat
  e_mono :: rat
  e_uuid :: string
  e_append_ok :: bool
  e_commit :: commit
  e_newnym :: "string option"

text \<open>
  The parsed arguments and what \<open>__init__\<close> derives from them; the two directories are resolved
  absolute paths, given by their components, and \<open>g_name_max\<close> is what the file system reports.
\<close>

record config =
  g_run :: string
  g_destination :: "string list"
  g_state :: "string list"
  g_workers :: nat
  g_max_files :: nat
  g_max_attempts :: nat
  g_stagger :: rat
  g_newnym_interval :: int
  g_socks_backoff :: rat
  g_time_limit :: rat
  g_reserve :: int
  g_retry_now :: bool
  g_name_max :: "nat option"
  g_failpoint :: "string option"

datatype exn =
    ProvenanceFailure
  | SqliteFailure
  | MissingRow
  | UseTransition
  | KeyError
  | OsFailure string
  | UnsafeParent
  | OtherRuntime string

record downloader =
  x_db :: db
  x_projection :: "projection option"
  x_telemetry :: "publisher option"
  x_provenance :: "writer option"
  x_stop :: bool
  x_sigterm :: bool
  x_sigint :: bool
  x_paused :: bool
  x_drain :: bool
  x_wake :: bool
  x_local_failure :: "string option"
  x_cooldown_until :: rat
  x_next_newnym :: rat
  x_next_start :: rat
  x_deadline :: "rat option"
  x_active :: "(string \<times> string) list"
  x_worker_ids :: "(string \<times> nat) list"
  x_active_attempts :: "(string \<times> nat) list"
  x_responses :: "(string \<times> jobject) list"
  x_resume_confirmed :: "string list"
  x_selected_count :: int
  x_pending_events :: "(string \<times> string \<times> string) list"

definition init_downloader :: downloader where
  "init_downloader =
     \<lparr>x_db = empty_db, x_projection = None, x_telemetry = None, x_provenance = None,
      x_stop = False, x_sigterm = False, x_sigint = False, x_paused = False, x_drain = False,
      x_wake = False, x_local_failure = None, x_cooldown_until = 0, x_next_newnym = 0,
      x_next_start = 0, x_deadline = None, x_active = [], x_worker_ids = [],
      x_active_attempts = [], x_responses = [], x_resume_confirmed = [], x_selected_count = 0,
      x_pending_events = []\<rparr>"

type_synonym 'a step = "(downloader, exn, 'a) act"

definition item_id :: "env \<Rightarrow> string \<Rightarrow> string" where
  "item_id e url = e_sha e url"

definition attempt_id :: "env \<Rightarrow> config \<Rightarrow> string \<Rightarrow> nat \<Rightarrow> string" where
  "attempt_id e g url number = e_sha e (g_run g @ '':'' @ url @ '':'' @ show_nat number)"

subsection \<open>Provenance\<close>

text \<open>A \<open>ValueError\<close> of the URL parser is not a \<open>ProvenanceError\<close> and passes through.\<close>

definition provenance_event :: "env \<Rightarrow> string \<Rightarrow> jobject \<Rightarrow> unit step" where
  "provenance_event e event_type kw s =
     (case x_provenance s of
        None \<Rightarrow> (Inr (), s)
      | Some w \<Rightarrow>
          (case writer_event (e_sha e) (e_uuid e) (e_utc e) (e_append_ok e) event_type kw w of
             (Inr _, w) \<Rightarrow> (Inr (), s\<lparr>x_provenance := Some w\<rparr>)
           | (Inl ValueError, w) \<Rightarrow> (Inl (OtherRuntime ''ValueError''), s\<lparr>x_provenance := Some w\<rparr>)
           | (Inl (ProvenanceError _), w) \<Rightarrow>
               (Inl ProvenanceFailure,
                s\<lparr>x_provenance := Some w, x_stop := True, x_local_failure := Some ''record_write''\<rparr>)))"

text \<open>\<open>record_local_failure\<close> never raises.\<close>

definition record_local_failure :: "env \<Rightarrow> string \<Rightarrow> string \<Rightarrow> downloader \<Rightarrow> downloader" where
  "record_local_failure e code detail s =
     snd (provenance_event e ''local_failure''
            [(''failure_code'', JStr code), (''failure_detail'', JStr detail)]
          (s\<lparr>x_local_failure := Some code\<rparr>))"

definition NO_RESPONSE_FIELDS :: jobject where
  "NO_RESPONSE_FIELDS = [(''final_url'', JNull), (''redirect_chain'', JArr []), (''http_status'', JNull),
     (''response_content_length'', JNull), (''response_content_range'', JNull),
     (''response_content_type'', JNull), (''response_etag'', JNull), (''response_last_modified'', JNull)]"

definition responses_of :: "downloader \<Rightarrow> string \<Rightarrow> jobject" where
  "responses_of s url = (case map_of (x_responses s) url of None \<Rightarrow> [] | Some r \<Rightarrow> r)"

definition merge_fields :: "jobject \<Rightarrow> jobject \<Rightarrow> jobject" where
  "merge_fields a b = AList.updates (map fst b) (map snd b) a"

definition end_attempt :: "config \<Rightarrow> string \<Rightarrow> string \<Rightarrow> string \<Rightarrow> string \<Rightarrow> db \<Rightarrow> db" where
  "end_attempt g url aid stamp outcome d =
     d\<lparr>attempts_table := map (\<lambda>a. if a_run a = g_run g \<and> a_url a = url \<and> a_id a = aid
         then a\<lparr>a_ended_at := Some stamp, a_outcome := Some outcome\<rparr> else a) (attempts_table d)\<rparr>"

definition attempt_event :: "env \<Rightarrow> config \<Rightarrow> string \<Rightarrow> nat \<Rightarrow> string \<Rightarrow> string \<Rightarrow> unit step" where
  "attempt_event e g url number started_at outcome =
     andthen (\<lambda>s. provenance_event e ''attempt_finished''
         ([(''item_id'', JStr (item_id e url)), (''source_url'', JStr url),
           (''attempt_number'', JInt (int number)), (''request_started_at'', JStr started_at),
           (''request_finished_at'', JStr (e_utc e)), (''outcome'', JStr outcome)] @
          merge_fields NO_RESPONSE_FIELDS (responses_of s url)) s)
       (\<lambda>_. modify (\<lambda>s.
          let s = (if outcome \<noteq> ''success'' then s\<lparr>x_responses := AList.delete url (x_responses s)\<rparr> else s)
          in s\<lparr>x_db := end_attempt g url (attempt_id e g url number) (e_utc e) outcome (x_db s)\<rparr>))"

definition start_attempt :: "config \<Rightarrow> string \<Rightarrow> nat \<Rightarrow> string \<Rightarrow> string \<Rightarrow> db \<Rightarrow> db" where
  "start_attempt g url number aid started_at d =
     (if \<exists>a \<in> set (attempts_table d). a_run a = g_run g \<and> a_url a = url \<and> a_id a = aid then d
      else d\<lparr>attempts_table := attempts_table d @
        [\<lparr>a_run = g_run g, a_url = url, a_number = number, a_id = aid, a_started_at = Some started_at,
          a_ended_at = None, a_outcome = None\<rparr>]\<rparr>)"

definition record_attempt_start :: "env \<Rightarrow> config \<Rightarrow> string \<Rightarrow> nat \<Rightarrow> string \<Rightarrow> unit step" where
  "record_attempt_start e g url number started_at =
     modify (\<lambda>s. s\<lparr>x_db := start_attempt g url number (attempt_id e g url number) started_at (x_db s)\<rparr>)"

text \<open>\<open>bytes \d+-\d+/(\d+)\<close>: the total of a content range.\<close>

definition content_range_total :: "string \<Rightarrow> int option" where
  "content_range_total s =
     (if starts_with ''bytes '' s then
        (let (lo, dash, rest) = py_partition (CHR ''-'') (drop 6 s);
             (hi, slash, total_text) = py_partition (CHR ''/'') rest
         in if dash \<and> slash \<and> is_decimal lo \<and> is_decimal hi \<and> is_decimal total_text
            then Some (int (parse_nat total_text)) else None)
      else None)"

definition expected_size_from_response :: "jobject \<Rightarrow> int option" where
  "expected_size_from_response r =
     (case (eq_int (jget r ''http_status'') 200, jget r ''response_content_length'') of
        (True, JStr l) \<Rightarrow> if is_decimal l then Some (int (parse_nat l)) else None
      | _ \<Rightarrow>
          (case (eq_int (jget r ''http_status'') 206, jget r ''response_content_range'') of
             (True, JStr c) \<Rightarrow> content_range_total (strip c)
           | _ \<Rightarrow> None))"

definition unavailable_value :: json where
  "unavailable_value = JObj [(''available'', JBool False), (''compared'', JBool False), (''value'', JNull)]"

definition validator :: "json \<Rightarrow> bool \<Rightarrow> json" where
  "validator v compared =
     (if v = JNull then unavailable_value
      else JObj [(''available'', JBool True), (''compared'', JBool compared), (''value'', v)])"

fun opt_int :: "int option \<Rightarrow> json" where
  "opt_int None = JNull"
| "opt_int (Some n) = JInt n"

text \<open>\<open>etag or response.get(...)\<close>: an empty string counts as absent.\<close>

definition or_else :: "string option \<Rightarrow> json \<Rightarrow> json" where
  "or_else v w = (case v of None \<Rightarrow> w | Some x \<Rightarrow> if x = [] then w else JStr x)"

definition finalized_fields :: "env \<Rightarrow> downloader \<Rightarrow> string \<Rightarrow> string \<Rightarrow> string \<Rightarrow> int \<Rightarrow> string \<Rightarrow>
    string option \<Rightarrow> bool \<Rightarrow> jobject" where
  "finalized_fields e s url logical stored byte_count sha256 expected_sha256 size_compared =
     (let response = responses_of s url;
          resume_confirmed = (url \<in> set (x_resume_confirmed s));
          row = find_download url (x_db s);
          etag = or_else (Option.bind row d_etag) (jget response ''response_etag'');
          last_modified = or_else (Option.bind row d_last_modified) (jget response ''response_last_modified'');
          expected_size = expected_size_from_response response;
          expected_checksum =
            (case expected_sha256 of
               None \<Rightarrow> unavailable_value
             | Some c \<Rightarrow> if c = [] then unavailable_value
                 else JObj [(''available'', JBool True), (''compared'', JBool True), (''value'', JStr c)])
      in [(''item_id'', JStr (item_id e url)), (''source_url'', JStr url),
          (''logical_relative_path'', JStr logical), (''final_relative_path'', JStr stored),
          (''byte_count'', JInt byte_count), (''sha256'', JStr sha256),
          (''validation_method_version'', JStr ''1''), (''finalized_at'', JStr (e_utc e)),
          (''expected_size'', validator (opt_int expected_size) size_compared),
          (''expected_checksum'', expected_checksum),
          (''etag'', validator etag resume_confirmed),
          (''last_modified'', validator last_modified False)])"

definition finalized_event :: "env \<Rightarrow> string \<Rightarrow> string \<Rightarrow> string \<Rightarrow> int \<Rightarrow> string \<Rightarrow> string option \<Rightarrow>
    bool \<Rightarrow> unit step" where
  "finalized_event e url logical stored byte_count sha256 expected_sha256 size_compared s =
     (let kw = finalized_fields e s url logical stored byte_count sha256 expected_sha256 size_compared;
          s = s\<lparr>x_responses := AList.delete url (x_responses s),
               x_resume_confirmed := removeAll url (x_resume_confirmed s)\<rparr>
      in provenance_event e ''finalized'' kw s)"

definition CANDIDATE_EVENT_REASONS :: "(string \<times> string) list" where
  "CANDIDATE_EVENT_REASONS = [(''incomplete_body'', ''validation_failed''),
     (''checksum_mismatch'', ''validation_failed''), (''size_mismatch'', ''validation_failed''),
     (''changed_remote_representation'', ''recovery_review''),
     (''no_reliable_version_protection'', ''recovery_review'')]"

definition candidate_event :: "env \<Rightarrow> string \<Rightarrow> string \<Rightarrow> string option \<Rightarrow> string option \<Rightarrow> string \<Rightarrow>
    unit step" where
  "candidate_event e url staging_relative candidate_relative sha256 reason =
     (let reason = (case map_of CANDIDATE_EVENT_REASONS reason of None \<Rightarrow> reason | Some r \<Rightarrow> r) in
      provenance_event e ''candidate_created''
        [(''item_id'', JStr (item_id e url)), (''staging_relative_path'', JStr staging_relative),
         (''candidate_relative_path'', opt_str candidate_relative), (''sha256'', opt_str sha256),
         (''finalization_failure_reason'', JStr reason)])"

subsection \<open>Durable changes\<close>

text \<open>\<open>open_db\<close>: the tables exist, and the old state \<open>pending\<close> becomes \<open>queued\<close>.\<close>

definition open_db :: "db \<Rightarrow> db" where
  "open_db d = update_where (\<lambda>r. d_status r = Pending) (\<lambda>r. r\<lparr>d_status := Queued\<rparr>) d"

text \<open>\<open>update\<close>: an SQL update outside the projection; it is refused once a projection exists.\<close>

definition update :: "env \<Rightarrow> (db \<Rightarrow> db) \<Rightarrow> unit step" where
  "update e f s =
     (if x_projection s \<noteq> None then (Inl UseTransition, s)
      else case e_commit e of
             Committed \<Rightarrow> (Inr (), s\<lparr>x_db := f (x_db s)\<rparr>)
           | CommitError reached \<Rightarrow>
               (let s = (if reached then s\<lparr>x_db := f (x_db s)\<rparr> else s) in
                (Inl SqliteFailure,
                 record_local_failure e ''database_write'' ''SQLite write or commit failed''
                   (s\<lparr>x_stop := True\<rparr>))))"

definition apply_projection_change :: "env \<Rightarrow> item \<Rightarrow> item \<Rightarrow> int \<Rightarrow> string option \<Rightarrow> downloader \<Rightarrow> downloader" where
  "apply_projection_change e old new revision completion_at s =
     (case x_projection s of
        None \<Rightarrow> s
      | Some p \<Rightarrow> s\<lparr>x_projection := Some (apply_change (e_sha e) old new revision completion_at p)\<rparr>)"

text \<open>
  The transaction of \<open>transition\<close>: \<open>f\<close> is the assignment of the keyword columns, the revision
  is advanced in the same transaction, and the row is read back.
\<close>

definition transition_row_update :: "status \<Rightarrow> string \<Rightarrow> (download \<Rightarrow> download) \<Rightarrow> download \<Rightarrow> download" where
  "transition_row_update to_status stamp f r = f (r\<lparr>d_status := to_status, d_updated_at := stamp\<rparr>)"

definition transition_db :: "string \<Rightarrow> string \<Rightarrow> string \<Rightarrow> status \<Rightarrow> string option \<Rightarrow>
    (download \<Rightarrow> download) \<Rightarrow> download \<Rightarrow> db \<Rightarrow> int \<times> db" where
  "transition_db rid stamp url to_status detail f old d =
     advance_telemetry_revision rid
       (insert_transition url rid (Some (status_text (d_status old))) (status_text to_status) detail stamp
         (update_where (\<lambda>r. d_url r = url) (transition_row_update to_status stamp f) d))"

definition transition :: "env \<Rightarrow> config \<Rightarrow> string \<Rightarrow> status \<Rightarrow> string option \<Rightarrow>
    (download \<Rightarrow> download) \<Rightarrow> unit step" where
  "transition e g url to_status detail f s =
     (case find_download url (x_db s) of
        None \<Rightarrow> (Inl MissingRow, s)
      | Some old \<Rightarrow>
          let (revision, d) = transition_db (g_run g) (e_now e) url to_status detail f old (x_db s) in
          (case e_commit e of
             CommitError reached \<Rightarrow>
               (Inl SqliteFailure,
                record_local_failure e ''database_write'' ''SQLite write or commit failed''
                  ((if reached then s\<lparr>x_db := d\<rparr> else s)\<lparr>x_stop := True\<rparr>))
           | Committed \<Rightarrow>
               (case find_download url d of
                  None \<Rightarrow> (Inl MissingRow, s\<lparr>x_db := d\<rparr>)
                | Some new \<Rightarrow>
                    (Inr (), apply_projection_change e (item_of old) (item_of new) revision
                       (if d_status old \<noteq> Complete \<and> d_status new = Complete then Some (e_now e) else None)
                       (s\<lparr>x_db := d\<rparr>)))))"

subsection \<open>What a monitor is told\<close>

definition availability :: "bool \<Rightarrow> json" where
  "availability b = JStr (if b then ''available'' else ''unavailable'')"

definition control_state :: "config \<Rightarrow> downloader \<Rightarrow> jobject" where
  "control_state g s =
     (let stopping = x_stop s; draining = x_drain s; paused = x_paused s in
      [(''state_revision'', JInt (case x_projection s of None \<Rightarrow> 0 | Some p \<Rightarrow> sm_revision (copy_projection p))),
       (''lifecycle'', JStr (if stopping then ''stopping'' else ''running'')),
       (''active_workers'', JInt (int (length (x_active s)))),
       (''actions'', JObj
         [(''get_control_state'', availability True), (''retry_now'', availability True),
          (''exclude_item'', availability True), (''retry_access_denied'', availability True),
          (''set_item_priority'', availability True), (''set_retry_cooldown'', availability True),
          (''renew_tor_circuits'', availability (g_newnym_interval g > 0 \<and> \<not> stopping)),
          (''pause_admission'', availability (\<not> stopping \<and> \<not> draining \<and> \<not> paused)),
          (''resume_admission'', availability (\<not> stopping \<and> \<not> draining \<and> paused)),
          (''drain_and_stop'', availability (\<not> stopping \<and> \<not> draining)),
          (''checkpoint_stop'', availability (\<not> stopping))])])"

subsection \<open>Database and projection stay in step\<close>

definition synced :: "env \<Rightarrow> config \<Rightarrow> downloader \<Rightarrow> bool" where
  "synced e g s \<longleftrightarrow> wf_db (x_db s) \<and>
     (case x_projection s of None \<Rightarrow> True
      | Some p \<Rightarrow> projects (e_sha e) (g_run g) (g_max_attempts g) (x_db s) p \<and>
                keyed (e_sha e) (g_run g) (x_db s))"

lemma record_local_failure_frames [simp]:
  "x_db (record_local_failure e c dt s) = x_db s"
  "x_projection (record_local_failure e c dt s) = x_projection s"
  by (auto simp: record_local_failure_def provenance_event_def split: option.splits prod.splits sum.splits writer_error.splits)

lemma provenance_event_frames [simp]:
  "x_db (snd (provenance_event e t kw s)) = x_db s"
  "x_projection (snd (provenance_event e t kw s)) = x_projection s"
  by (auto simp: provenance_event_def split: option.splits prod.splits sum.splits writer_error.splits)

lemma run_rows_upd_key:
  assumes "\<And>r. d_url (h r) = d_url r"
  shows "run_rows rid (update_where (\<lambda>r. d_url r = u) h d) = upd_key d_url u h (run_rows rid d)"
  by (simp add: run_rows_update_where assms upd_key_def)

lemma keyed_rows: "keyed sha rid d \<Longrightarrow> inj_on sha (d_url ` set (run_rows rid d))"
  unfolding keyed_def by (rule inj_on_subset) (auto dest: run_rows_subset)

lemma keyed_cong: "run_items d = run_items d' \<Longrightarrow> keyed sha rid d = keyed sha rid d'"
  by (simp add: keyed_def run_urls_def)

lemma projects_upd:
  assumes "projects sha rid m d p" and "wf_db d" and "keyed sha rid d"
    and "find_download u d = Some r" and "u \<in> set (run_urls rid d)"
    and h: "\<And>r. d_url (h r) = d_url r"
    and d': "run_rows rid d' = upd_key d_url u h (run_rows rid d)" and "revision_of rid d' = n"
  shows "projects sha rid m d' (apply_change sha (item_of r) (item_of (h r)) n c p)"
proof -
  from assms(2,4) have r: "r \<in> set (downloads d)" "d_url r = u"
    by (auto simp: find_download_Some)
  then have "r \<in> set (run_rows rid d)" using assms(5) by (simp add: mem_run_rows)
  moreover from assms(1) have "agrees sha m (run_rows rid d) p" by (simp add: projects_def)
  ultimately have "agrees sha m (upd_key d_url (d_url r) h (run_rows rid d))
      (apply_change sha (item_of r) (item_of (h r)) n c p)"
    by (intro agrees_upd wf_run_rows [OF assms(2)] keyed_rows [OF assms(3)] h)
  then show ?thesis using r d' assms(8) by (simp add: projects_def)
qed

lemma transition_db_facts:
  assumes "\<And>r. d_url (f r) = d_url r" and "transition_db rid stamp url st dt f old d = (n, d')"
  shows "n = revision_of rid d + 1" and "revision_of rid d' = revision_of rid d + 1"
    and "run_rows rid d' = upd_key d_url url (transition_row_update st stamp f) (run_rows rid d)"
    and "run_items d' = run_items d" and "wf_db d \<Longrightarrow> wf_db d'"
    and "find_download url d = Some r \<Longrightarrow> wf_db d \<Longrightarrow> find_download url d' = Some (transition_row_update st stamp f r)"
proof -
  let ?h = "transition_row_update st stamp f"
  let ?d0 = "insert_transition url rid (Some (status_text (d_status old))) (status_text st) dt stamp
         (update_where (\<lambda>r. d_url r = url) ?h d)"
  have u: "\<And>r. d_url (?h r) = d_url r" by (simp add: transition_row_update_def assms(1))
  have rev0: "revision_of rid ?d0 = revision_of rid d" by (simp add: revision_of_def)
  have n: "n = fst (advance_telemetry_revision rid ?d0)" and d': "d' = snd (advance_telemetry_revision rid ?d0)"
    using assms(2) by (simp_all add: transition_db_def)
  show "n = revision_of rid d + 1" using rev0 by (simp add: n)
  show "revision_of rid d' = revision_of rid d + 1" using rev0 by (simp add: d')
  show "run_rows rid d' = upd_key d_url url ?h (run_rows rid d)" by (simp add: d' run_rows_upd_key u)
  show "run_items d' = run_items d" by (simp add: d')
  show w: "wf_db d'" if "wf_db d" by (simp add: d' wf_db_update_where that u)
  show "find_download url d' = Some (?h r)" if "find_download url d = Some r" "wf_db d"
    using that w by (auto simp: find_download_Some u d' image_iff intro!: bexI [of _ r])
qed

lemma transition_keeps_sync:
  assumes "synced e g s" and "\<And>r. d_url (f r) = d_url r" and "url \<in> set (run_urls (g_run g) (x_db s))"
    and "e_commit e = Committed"
  shows "synced e g (snd (transition e g url st dt f s))"
proof (cases "find_download url (x_db s)")
  case None
  then show ?thesis using assms(1) by (simp add: transition_def)
next
  case (Some old)
  obtain n d' where t: "transition_db (g_run g) (e_now e) url st dt f old (x_db s) = (n, d')"
    by (cases "transition_db (g_run g) (e_now e) url st dt f old (x_db s)")
  note facts = transition_db_facts [OF assms(2) t]
  have wf: "wf_db (x_db s)" using assms(1) by (simp add: synced_def)
  note new = facts(6) [OF Some wf]
  have u: "\<And>r. d_url (transition_row_update st (e_now e) f r) = d_url r"
    by (simp add: transition_row_update_def assms(2))
  have "projects (e_sha e) (g_run g) (g_max_attempts g) d'
      (apply_change (e_sha e) (item_of old) (item_of (transition_row_update st (e_now e) f old)) n c p)"
    if "x_projection s = Some p" for p c
    by (rule projects_upd [OF _ wf _ Some assms(3) u facts(3)])
       (use assms(1) that facts(1,2) in \<open>simp_all add: synced_def\<close>)
  moreover have "keyed (e_sha e) (g_run g) d' = keyed (e_sha e) (g_run g) (x_db s)"
    by (rule keyed_cong) (rule facts(4))
  ultimately show ?thesis
    using assms(1) facts(5) [OF wf]
    by (auto simp: transition_def Some t new assms(4) apply_projection_change_def synced_def
        split: option.splits)
qed

lemma projects_unique:
  assumes "projects sha rid m d p" and "projects sha rid m d q"
  shows "p_counts p = p_counts q" and "p_complete_bytes p = p_complete_bytes q"
    and "map_of (p_retries p) = map_of (p_retries q)" and "p_revision p = p_revision q"
proof -
  show "p_counts p = p_counts q" "p_complete_bytes p = p_complete_bytes q" "p_revision p = p_revision q"
    using assms by (auto simp: projects_def agrees_def)
  show "map_of (p_retries p) = map_of (p_retries q)"
  proof
    fix k
    show "map_of (p_retries p) k = map_of (p_retries q) k"
      using assms by (cases "k \<in> sha ` d_url ` set (run_rows rid d)")
        (auto simp: projects_def agrees_def retries_agree_def)
  qed
qed

lemma ranks_ok_cong: "run_items d = run_items d' \<Longrightarrow> ranks_ok rid d = ranks_ok rid d'"
  by (simp add: ranks_ok_def)

lemma transition_committed:
  "transition e g url st dt f s = (Inr (), s') \<Longrightarrow> e_commit e = Committed"
  by (auto simp: transition_def split: option.splits prod.splits commit.splits)

lemma transition_run_items [simp]:
  "run_items (x_db (snd (transition e g url st dt f s))) = run_items (x_db s)"
proof -
  have "run_items (snd (transition_db r a u x y f old d)) = run_items d" for r a u x y old d
    by (simp add: transition_db_def)
  then have "transition_db r a u x y f old d = (n, d') \<Longrightarrow> run_items d' = run_items d" for r a u x y old d n d'
    by (metis snd_conv)
  then show ?thesis
    by (auto simp: transition_def apply_projection_change_def Let_def split: option.splits prod.splits commit.splits)
qed

text \<open>The abstract specification of the projection: what \<open>hydrate\<close> would compute now.\<close>

definition rehydrated :: "env \<Rightarrow> config \<Rightarrow> downloader \<Rightarrow> projection" where
  "rehydrated e g s = hydrate (e_sha e) (g_run g) (g_max_attempts g) (x_db s)"

definition same_view :: "projection \<Rightarrow> projection \<Rightarrow> bool" where
  "same_view p q \<longleftrightarrow> p_counts p = p_counts q \<and> p_complete_bytes p = p_complete_bytes q \<and>
     map_of (p_retries p) = map_of (p_retries q) \<and> p_revision p = p_revision q"

lemma synced_same_view:
  assumes "synced e g s" and "x_projection s = Some p" and "ranks_ok (g_run g) (x_db s)"
  shows "same_view p (rehydrated e g s)"
proof -
  have p: "projects (e_sha e) (g_run g) (g_max_attempts g) (x_db s) p"
    and q: "projects (e_sha e) (g_run g) (g_max_attempts g) (x_db s) (rehydrated e g s)"
    using assms hydrate_projects by (auto simp: synced_def rehydrated_def)
  show ?thesis unfolding same_view_def using projects_unique [OF p q] by blast
qed


subsection \<open>Finalized records are fit to be verified\<close>

definition text_or_null :: "json \<Rightarrow> bool" where
  "text_or_null v = (case v of JNull \<Rightarrow> True | JStr _ \<Rightarrow> True | _ \<Rightarrow> False)"

lemma canonical_validator:
  "canonical_json v \<noteq> None \<Longrightarrow> canonical_json (validator v c) \<noteq> None"
  unfolding validator_def unavailable_value_def canonical_obj if_distrib by (auto simp: canonical_obj)

lemma unavailable_ok_validator: "unavailable_ok (validator v c)"
  by (simp add: validator_def unavailable_value_def unavailable_ok_def jget_def)

lemma unavailable_ok_value: "unavailable_ok unavailable_value"
  by (simp add: unavailable_value_def unavailable_ok_def jget_def)

lemma canonical_text: "text_or_null v \<Longrightarrow> canonical_json v \<noteq> None"
  by (cases v) (simp_all add: text_or_null_def)

lemma text_or_else: "text_or_null w \<Longrightarrow> text_or_null (or_else v w)"
  by (auto simp: or_else_def text_or_null_def split: option.splits)

lemma canonical_opt_int: "canonical_json (opt_int n) \<noteq> None"
  by (cases n) simp_all

text \<open>
  Every finalized record the controller asks the writer for satisfies what the record
  verifier needs of it, whatever the response of the server was: its fields are distinct, clash
  with no common field, hold no float, and a validation that is not available has neither a
  value nor a comparison.
\<close>
theorem finalized_fields_verifiable:
  assumes "text_or_null (jget (responses_of s url) ''response_etag'')"
    and "text_or_null (jget (responses_of s url) ''response_last_modified'')"
  shows "call_ok \<lparr>cl_uuid = i, cl_now = t, cl_type = ''finalized'',
    cl_fields = finalized_fields e s url logical stored n h expected size_compared\<rparr>"
proof -
  let ?kw = "finalized_fields e s url logical stored n h expected size_compared"
  have etag: "canonical_json (validator (or_else v (jget (responses_of s url) ''response_etag'')) c) \<noteq> None" for v c
    by (intro canonical_validator canonical_text text_or_else assms)
  have lm: "canonical_json (validator (or_else v (jget (responses_of s url) ''response_last_modified'')) c) \<noteq> None" for v c
    by (intro canonical_validator canonical_text text_or_else assms)
  have unav: "canonical_json unavailable_value \<noteq> None"
    unfolding unavailable_value_def canonical_obj by simp
  have "canonical_json (JObj [(''available'', JBool True), (''compared'', JBool True), (''value'', JStr x)]) \<noteq> None" for x
    unfolding canonical_obj by simp
  note vals = etag lm unav canonical_validator [OF canonical_opt_int] this
  have keys: "map fst ?kw = [''item_id'', ''source_url'', ''logical_relative_path'', ''final_relative_path'',
      ''byte_count'', ''sha256'', ''validation_method_version'', ''finalized_at'', ''expected_size'',
      ''expected_checksum'', ''etag'', ''last_modified'']"
    by (simp add: finalized_fields_def Let_def)
  have dist: "distinct (map fst ?kw)" unfolding keys by simp
  have "set (map fst ?kw) \<inter> set common = {}" unfolding keys common_def by simp
  then have clash: "fst kv \<notin> set common" if "kv \<in> set ?kw" for kv using that by (metis IntI empty_iff image_eqI set_map)
  have canon: "canonical_json (snd kv) \<noteq> None" if "kv \<in> set ?kw" for kv
    using that vals
    by (auto simp: finalized_fields_def Let_def simp del: canonical_json.simps(7) split: option.splits if_splits)
  have "unavailable_ok (jget ?kw k)" if "k \<in> set VALIDATION_FIELDS" for k
    using that unavailable_ok_validator unavailable_ok_value
    by (auto simp: VALIDATION_FIELDS_def finalized_fields_def Let_def jget_def unavailable_ok_def
        validator_def unavailable_value_def split: option.splits)
  with dist clash canon show ?thesis
    by (simp add: call_ok_def list_all_iff)
qed

subsection \<open>A concrete controller\<close>

definition example_row :: "string \<Rightarrow> status \<Rightarrow> download" where
  "example_row u st = (new_download u (''files/'' @ u) None None (Some ''7'') None ''t0'')\<lparr>d_status := st\<rparr>"

definition example_db :: db where
  "example_db = empty_db\<lparr>downloads := [example_row ''u1'' Queued, example_row ''u2'' RetryWait,
       example_row ''u3'' ReviewRequired],
     run_items := [\<lparr>ri_run = ''r'', ri_url = ''u1'', ri_rank = 0\<rparr>, \<lparr>ri_run = ''r'', ri_url = ''u2'', ri_rank = 1\<rparr>]\<rparr>"

definition example_env :: env where
  "example_env = \<lparr>e_sha = (\<lambda>u. u), e_now = ''t1'', e_utc = ''2026-01-02T03:04:05Z'', e_time = 100,
     e_mono = 10, e_uuid = ''id'', e_append_ok = True, e_commit = Committed, e_newnym = None\<rparr>"

definition example_config :: config where
  "example_config = \<lparr>g_run = ''r'', g_destination = [''d''], g_state = [''s''], g_workers = 2, g_max_files = 0,
     g_max_attempts = 3, g_stagger = 1, g_newnym_interval = 60, g_socks_backoff = 60, g_time_limit = 0,
     g_reserve = 1, g_retry_now = False, g_name_max = None, g_failpoint = None\<rparr>"

definition example_state :: downloader where
  "example_state = init_downloader\<lparr>x_db := example_db,
     x_projection := Some (hydrate (\<lambda>u. u) ''r'' 3 example_db)\<rparr>"

lemma example_ok:
  "wf_db example_db" "ranks_ok ''r'' example_db" "run_urls ''r'' example_db = [''u1'', ''u2'']"
  by (simp_all add: wf_db_def ranks_ok_def run_urls_def example_db_def empty_db_def example_row_def
      new_download_def)

lemma example_synced: "synced example_env example_config example_state"
  using hydrate_projects [OF example_ok(1,2), of "\<lambda>u. u" 3] example_ok(1)
  by (simp add: synced_def example_state_def example_env_def example_config_def keyed_def inj_on_def)

lemma example_fields [simp]:
  "x_db example_state = example_db" "g_run example_config = ''r''" "e_commit example_env = Committed"
  "x_projection example_state \<noteq> None"
  by (simp_all add: example_state_def example_config_def example_env_def)


theorem finalized_fields_verifiable_witness:
  "text_or_null (jget (responses_of example_state ''u1'') ''response_etag'') \<and>
   call_ok \<lparr>cl_uuid = ''i'', cl_now = ''t'', cl_type = ''finalized'',
     cl_fields = finalized_fields example_env example_state ''u1'' ''files/u1'' ''files/u1'' 7 ''h'' None True\<rparr>"
proof -
  have r: "text_or_null (jget (responses_of example_state ''u1'') k)" for k
    by (simp add: responses_of_def example_state_def init_downloader_def jget_def text_or_null_def)
  show ?thesis using finalized_fields_verifiable [OF r r] r by blast
qed

end
