(* ===== verification/Control.thy ===== *)
theory Control
  imports Downloader
begin

text \<open>
  The eleven confirmed controller actions (\<open>control_action\<close> and the \<open>control_*\<close> handlers of
  \<open>src/tod-dl.py\<close>) and \<open>request_newnym\<close>.  A request is the parsed JSON object the command
  channel hands over, a reply the object it returns.  The locale \<open>audited_action\<close> states what
  every handler promises (replay of a recorded request, one audit row and one revision for a new
  one) and is interpreted on each of them.
\<close>

subsection \<open>Requests and replies\<close>

definition reply :: "string \<Rightarrow> string \<Rightarrow> jobject" where
  "reply outcome reason = [(''outcome'', JStr outcome), (''reason'', JStr reason)]"

definition reply_at :: "string \<Rightarrow> string \<Rightarrow> int \<Rightarrow> jobject" where
  "reply_at outcome reason revision = reply outcome reason @ [(''state_revision'', JInt revision)]"

definition replay_reply :: "control_row \<Rightarrow> jobject" where
  "replay_reply c = reply_at (c_outcome c) (c_reason c) (c_revision c)"

definition invalid_request :: jobject where
  "invalid_request = reply ''rejected'' ''invalid control request''"

text \<open>The request and session identifiers, when both are strings.\<close>

definition request_ids :: "jobject \<Rightarrow> (string \<times> string) option" where
  "request_ids rq =
     (case (jget rq ''request_id'', jget rq ''session_id'') of
        (JStr q, JStr i) \<Rightarrow> Some (q, i) | _ \<Rightarrow> None)"

text \<open>\<open>request["request_id"]\<close> raises when the key is absent.\<close>

definition has_ids :: "jobject \<Rightarrow> bool" where
  "has_ids rq = (map_of rq ''request_id'' \<noteq> None \<and> map_of rq ''session_id'' \<noteq> None)"

text \<open>\<open>parameters.get(name) if isinstance(parameters, dict) else None\<close>.\<close>

definition parameter :: "jobject \<Rightarrow> string \<Rightarrow> json" where
  "parameter rq name = (case jget rq ''parameters'' of JObj kvs \<Rightarrow> jget kvs name | _ \<Rightarrow> JNull)"

definition bad_ids :: jobject where
  "bad_ids = reply ''rejected'' ''item_ids must be a non-empty list of strings''"

subsection \<open>The audit record\<close>

definition control_insert :: "string \<Rightarrow> string \<Rightarrow> string \<Rightarrow> string \<Rightarrow> string \<Rightarrow> string \<Rightarrow> int \<Rightarrow> string \<Rightarrow> db \<Rightarrow> db" where
  "control_insert q rid sid action outcome reason revision stamp d =
     d\<lparr>control_requests := control_requests d @ [\<lparr>c_request = q, c_run = rid, c_session = sid,
        c_action = action, c_outcome = outcome, c_reason = reason, c_revision = revision, c_at = stamp\<rparr>]\<rparr>"

definition audit :: "env \<Rightarrow> config \<Rightarrow> string \<Rightarrow> string \<Rightarrow> string \<Rightarrow> string \<Rightarrow> string \<Rightarrow> db \<Rightarrow> int \<times> db" where
  "audit e g q sid action outcome reason d =
     (let a = advance_telemetry_revision (g_run g) d in
      (fst a, control_insert q (g_run g) sid action outcome reason (fst a) (e_now e) (snd a)))"

definition control_transition :: "env \<Rightarrow> config \<Rightarrow> string \<Rightarrow> db \<Rightarrow> db" where
  "control_transition e g reason d =
     insert_transition ''__control__'' (g_run g) (Some ''control'') ''control'' (Some reason) (e_now e) d"

definition notify :: "env \<Rightarrow> string \<Rightarrow> downloader \<Rightarrow> downloader" where
  "notify e message s =
     s\<lparr>x_telemetry := map_option (tp_event (e_now e) ''info'' ''control'' message None None) (x_telemetry s)\<rparr>"

definition set_projection_revision :: "int \<Rightarrow> downloader \<Rightarrow> downloader" where
  "set_projection_revision revision s =
     s\<lparr>x_projection := map_option (set_revision revision) (x_projection s)\<rparr>"

subsection \<open>Actions on items\<close>

record item_spec =
  is_action :: string
  is_eligible :: "download \<Rightarrow> bool"
  is_ok :: string
  is_bad :: "download \<Rightarrow> string"
  is_row :: "download \<Rightarrow> download"
  is_item :: "item \<Rightarrow> item"
  is_projected :: bool
  is_reason :: "nat \<Rightarrow> nat \<Rightarrow> string"
  is_event :: string

text \<open>\<open>by_id\<close>: a later row wins.\<close>

definition by_id :: "env \<Rightarrow> download list \<Rightarrow> string \<Rightarrow> download option" where
  "by_id e rows i = map_of (rev (map (\<lambda>r. (item_id e (d_url r), r)) rows)) i"

text \<open>The loop over \<open>item_ids\<close>: an outcome per identifier, and the rows to change in order.\<close>

fun decide_items :: "env \<Rightarrow> item_spec \<Rightarrow> download list \<Rightarrow> string list \<Rightarrow>
    (string \<times> json) list \<times> download list \<Rightarrow> (string \<times> json) list \<times> download list" where
  "decide_items e sp rows [] (outs, changed) = (outs, changed)"
| "decide_items e sp rows (i # ids) (outs, changed) =
     (case by_id e rows i of
        None \<Rightarrow> decide_items e sp rows ids
          (AList.update i (JStr ''rejected: item is outside the selected set'') outs, changed)
      | Some r \<Rightarrow>
          if \<not> is_eligible sp r
          then decide_items e sp rows ids (AList.update i (JStr (is_bad sp r)) outs, changed)
          else decide_items e sp rows ids (AList.update i (JStr (is_ok sp)) outs, changed @ [r]))"

definition update_urls :: "string list \<Rightarrow> (download \<Rightarrow> download) \<Rightarrow> db \<Rightarrow> db" where
  "update_urls urls f d = update_where (\<lambda>r. d_url r \<in> set urls) f d"

definition project_rows :: "env \<Rightarrow> (item \<Rightarrow> item) \<Rightarrow> int \<Rightarrow> download list \<Rightarrow> downloader \<Rightarrow> downloader" where
  "project_rows e f revision changed s =
     fold (\<lambda>r. apply_projection_change e (item_of r) (f (item_of r)) revision None) changed s"

text \<open>What the item handlers do once the request is well formed.\<close>

definition item_action :: "env \<Rightarrow> config \<Rightarrow> item_spec \<Rightarrow> string \<Rightarrow> string \<Rightarrow> string list \<Rightarrow> jobject step" where
  "item_action e g sp q sid ids s =
     (case find_control q (x_db s) of
        Some c \<Rightarrow> (Inr (replay_reply c), s)
      | None \<Rightarrow>
          let (outs, changed) = decide_items e sp (run_rows (g_run g) (x_db s)) ids ([], []);
              d = update_urls (map d_url changed) (\<lambda>r. (is_row sp r)\<lparr>d_updated_at := e_now e\<rparr>) (x_db s);
              reason = is_reason sp (length changed) (length ids);
              a = audit e g q sid (is_action sp) ''completed'' reason (control_transition e g reason d);
              s = s\<lparr>x_db := snd a\<rparr>;
              s = (if is_projected sp \<and> changed \<noteq> [] then project_rows e (is_item sp) (fst a) changed s
                   else set_projection_revision (fst a) s);
              s = notify e (is_event sp) s
          in (Inr (reply_at ''completed'' reason (fst a) @ [(''items'', JObj outs)]), s))"

definition well_formed :: "(string \<Rightarrow> string \<Rightarrow> jobject step) \<Rightarrow> jobject \<Rightarrow> jobject step" where
  "well_formed f rq s =
     (if \<not> has_ids rq then (Inl KeyError, s)
      else case request_ids rq of None \<Rightarrow> (Inr invalid_request, s) | Some (q, i) \<Rightarrow> f q i s)"

definition with_item_ids :: "jobject \<Rightarrow> (string list \<Rightarrow> jobject step) \<Rightarrow> jobject step" where
  "with_item_ids rq f s =
     (case as_ids (parameter rq ''item_ids'') of None \<Rightarrow> (Inr bad_ids, s) | Some ids \<Rightarrow> f ids s)"

subsection \<open>The item handlers\<close>

definition of_requested :: "string \<Rightarrow> nat \<Rightarrow> nat \<Rightarrow> string \<Rightarrow> string" where
  "of_requested verb n m rest = verb @ show_nat n @ '' of '' @ show_nat m @ rest"

definition rejected_in :: "download \<Rightarrow> string \<Rightarrow> string" where
  "rejected_in r rest = ''rejected: item is in '' @ status_text (d_status r) @ '', not '' @ rest"

definition exclude_spec :: item_spec where
  "exclude_spec =
     \<lparr>is_action = ''exclude_item'', is_eligible = (\<lambda>r. excludable (d_status r)), is_ok = ''excluded'',
      is_bad = (\<lambda>r. rejected_in r ''excludable''), is_row = (\<lambda>r. r\<lparr>d_status := Excluded\<rparr>),
      is_item = (\<lambda>i. i\<lparr>i_status := Excluded\<rparr>), is_projected = True,
      is_reason = (\<lambda>n m. of_requested ''excluded '' n m '' requested item(s)''),
      is_event = ''exclude item accepted''\<rparr>"

definition control_exclude_item :: "env \<Rightarrow> config \<Rightarrow> jobject \<Rightarrow> jobject step" where
  "control_exclude_item e g rq =
     well_formed (\<lambda>q i. with_item_ids rq (item_action e g exclude_spec q i)) rq"

definition new_generation_spec :: item_spec where
  "new_generation_spec =
     \<lparr>is_action = ''resume_new_generation'',
      is_eligible = (\<lambda>r. d_status r = ReviewRequired \<and> representation_review (d_review_code r)),
      is_ok = ''resumed under a new staging generation'',
      is_bad = (\<lambda>r. rejected_in r ''a representation-change review''),
      is_row = (\<lambda>r. r\<lparr>d_status := Queued, d_review_code := None, d_last_error := None, d_etag := None,
         d_last_modified := None, d_next_retry_at := 0,
         d_staging_generation := map_option (\<lambda>n. n + 1) (d_staging_generation r)\<rparr>),
      is_item = (\<lambda>i. i\<lparr>i_status := Queued, i_retry_at := 0, i_error := None\<rparr>), is_projected = True,
      is_reason = (\<lambda>n m. of_requested ''restarted '' n m '' requested item(s) under a new staging generation''),
      is_event = ''resume new generation accepted''\<rparr>"

definition control_resume_new_generation :: "env \<Rightarrow> config \<Rightarrow> jobject \<Rightarrow> jobject step" where
  "control_resume_new_generation e g rq =
     well_formed (\<lambda>q i. with_item_ids rq (item_action e g new_generation_spec q i)) rq"

definition access_denied_spec :: item_spec where
  "access_denied_spec =
     \<lparr>is_action = ''retry_access_denied'',
      is_eligible = (\<lambda>r. d_status r = ReviewRequired \<and> d_review_code r = Some ''access_denied''),
      is_ok = ''returned to queued'', is_bad = (\<lambda>r. rejected_in r ''an access-denied review''),
      is_row = (\<lambda>r. r\<lparr>d_status := Queued, d_review_code := None, d_last_error := None, d_next_retry_at := 0\<rparr>),
      is_item = (\<lambda>i. i\<lparr>i_status := Queued, i_retry_at := 0, i_error := None\<rparr>), is_projected = True,
      is_reason = (\<lambda>n m. of_requested ''retried '' n m '' requested access-denied item(s)''),
      is_event = ''retry access denied accepted''\<rparr>"

definition control_retry_access_denied :: "env \<Rightarrow> config \<Rightarrow> jobject \<Rightarrow> jobject step" where
  "control_retry_access_denied e g rq =
     well_formed (\<lambda>q i. with_item_ids rq (item_action e g access_denied_spec q i)) rq"

definition PRIORITY_MIN :: int where "PRIORITY_MIN = -5"
definition PRIORITY_MAX :: int where "PRIORITY_MAX = 5"
definition COOLDOWN_OVERRIDE_MIN_S :: int where "COOLDOWN_OVERRIDE_MIN_S = 0"
definition COOLDOWN_OVERRIDE_MAX_S :: int where "COOLDOWN_OVERRIDE_MAX_S = 3600"

definition priority_spec :: "int \<Rightarrow> item_spec" where
  "priority_spec n =
     \<lparr>is_action = ''set_item_priority'', is_eligible = (\<lambda>r. prioritizable (d_status r)),
      is_ok = ''prioritized'', is_bad = (\<lambda>r. rejected_in r ''prioritizable''),
      is_row = (\<lambda>r. r\<lparr>d_priority := n\<rparr>), is_item = (\<lambda>i. i), is_projected = False,
      is_reason = (\<lambda>k m. ''set priority to '' @ show_int n @ of_requested '' for '' k m '' requested item(s)''),
      is_event = ''set item priority accepted''\<rparr>"

definition control_set_item_priority :: "env \<Rightarrow> config \<Rightarrow> jobject \<Rightarrow> jobject step" where
  "control_set_item_priority e g rq =
     well_formed (\<lambda>q i. with_item_ids rq (\<lambda>ids s.
       case as_bounded PRIORITY_MIN PRIORITY_MAX (parameter rq ''priority'') of
         None \<Rightarrow> (Inr (reply ''rejected'' (''priority must be an integer between '' @ show_int PRIORITY_MIN @
                       '' and '' @ show_int PRIORITY_MAX)), s)
       | Some n \<Rightarrow> item_action e g (priority_spec n) q i ids s)) rq"

definition cooldown_spec :: "int \<Rightarrow> rat \<Rightarrow> item_spec" where
  "cooldown_spec n at_time =
     \<lparr>is_action = ''set_retry_cooldown'', is_eligible = (\<lambda>r. cooldown_eligible (d_status r)),
      is_ok = ''cooldown set'', is_bad = (\<lambda>r. rejected_in r ''cooldown-eligible''),
      is_row = (\<lambda>r. r\<lparr>d_next_retry_at := at_time\<rparr>), is_item = (\<lambda>i. i\<lparr>i_retry_at := at_time\<rparr>),
      is_projected = True,
      is_reason = (\<lambda>k m. ''set retry cooldown to '' @ show_int n @ of_requested ''s for '' k m '' requested item(s)''),
      is_event = ''set retry cooldown accepted''\<rparr>"

definition control_set_retry_cooldown :: "env \<Rightarrow> config \<Rightarrow> jobject \<Rightarrow> jobject step" where
  "control_set_retry_cooldown e g rq =
     well_formed (\<lambda>q i. with_item_ids rq (\<lambda>ids s.
       case as_bounded COOLDOWN_OVERRIDE_MIN_S COOLDOWN_OVERRIDE_MAX_S (parameter rq ''cooldown_s'') of
         None \<Rightarrow> (Inr (reply ''rejected'' (''cooldown_s must be an integer between '' @
                       show_int COOLDOWN_OVERRIDE_MIN_S @ '' and '' @ show_int COOLDOWN_OVERRIDE_MAX_S)), s)
       | Some n \<Rightarrow> item_action e g (cooldown_spec n (e_time e + of_int n)) q i ids s)) rq"

text \<open>\<open>retry_now\<close>: all retryable items of the run, or those asked for; the count is SQLite's \<open>rowcount\<close>.\<close>

definition retry_now_rows :: "env \<Rightarrow> config \<Rightarrow> string list option \<Rightarrow> db \<Rightarrow> download list" where
  "retry_now_rows e g ids d =
     (let candidates = filter (\<lambda>r. retryable (d_status r)) (run_rows (g_run g) d) in
      case ids of None \<Rightarrow> candidates
      | Some wanted \<Rightarrow> filter (\<lambda>r. item_id e (d_url r) \<in> set wanted) candidates)"

definition retry_now_action :: "env \<Rightarrow> config \<Rightarrow> string \<Rightarrow> string \<Rightarrow> string list option \<Rightarrow> jobject step" where
  "retry_now_action e g q sid ids s =
     (case find_control q (x_db s) of
        Some c \<Rightarrow> (Inr (replay_reply c), s)
      | None \<Rightarrow>
          let changed = retry_now_rows e g ids (x_db s);
              urls = map d_url changed;
              d = update_urls urls (\<lambda>r. r\<lparr>d_next_retry_at := 0, d_updated_at := e_now e\<rparr>) (x_db s);
              n = length (filter (\<lambda>r. d_url r \<in> set urls) (downloads (x_db s)));
              reason = ''made '' @ show_nat n @ '' selected retryable item(s) eligible now'';
              a = audit e g q sid ''retry_now'' ''completed'' reason (control_transition e g reason d);
              s = s\<lparr>x_db := snd a\<rparr>;
              s = (if changed \<noteq> [] then project_rows e (\<lambda>i. i\<lparr>i_retry_at := 0\<rparr>) (fst a) changed s
                   else set_projection_revision (fst a) s);
              s = notify e ''retry now accepted'' s
          in (Inr (reply_at ''completed'' reason (fst a)), s\<lparr>x_wake := True\<rparr>))"

definition control_retry_now :: "env \<Rightarrow> config \<Rightarrow> jobject \<Rightarrow> jobject step" where
  "control_retry_now e g rq =
     well_formed (\<lambda>q i s.
       if parameter rq ''item_ids'' = JNull then retry_now_action e g q i None s
       else with_item_ids rq (\<lambda>ids. retry_now_action e g q i (Some ids)) s) rq"

subsection \<open>Tor circuit renewal\<close>

definition max_success :: "db \<Rightarrow> rat option" where
  "max_success d =
     (case List.map_filter n_successful_at (renewals d) of [] \<Rightarrow> None | x # xs \<Rightarrow> Some (fold max xs x))"

definition renewal :: "config \<Rightarrow> string \<Rightarrow> string \<Rightarrow> string \<Rightarrow> rat option \<Rightarrow> string \<Rightarrow> string option \<Rightarrow> renewal_row" where
  "renewal g q sid stamp previous outcome failure =
     \<lparr>n_request = q, n_run = g_run g, n_session = sid, n_requested_at = stamp,
      n_interval = g_newnym_interval g, n_previous = previous, n_outcome = outcome,
      n_failure = failure, n_successful_at = None, n_next_eligible_at = None\<rparr>"

definition add_renewal :: "renewal_row \<Rightarrow> db \<Rightarrow> db" where
  "add_renewal n d = d\<lparr>renewals := renewals d @ [n]\<rparr>"

definition update_renewal :: "string \<Rightarrow> (renewal_row \<Rightarrow> renewal_row) \<Rightarrow> db \<Rightarrow> db" where
  "update_renewal q f d = d\<lparr>renewals := map (\<lambda>n. if n_request n = q then f n else n) (renewals d)\<rparr>"

definition newnym_accepted :: string where
  "newnym_accepted = ''Tor accepted a request for new future streams''"

definition wait_reason :: "rat \<Rightarrow> string" where
  "wait_reason left = ''renewal available in '' @ show_int \<lfloor>left + 999 / 1000\<rfloor> @ '' seconds''"

text \<open>The call with a database: the durable rate limit counts successes of every run.\<close>

definition request_newnym :: "env \<Rightarrow> config \<Rightarrow> string \<Rightarrow> string \<Rightarrow> downloader \<Rightarrow> (string \<times> string) \<times> downloader" where
  "request_newnym e g q sid s =
     (let interval = g_newnym_interval g; d = x_db s; current = e_time e in
      if interval = 0 then ((''rejected'', ''Tor circuit renewal is disabled''), s)
      else case find (\<lambda>n. n_request n = q) (renewals d) of
        Some n \<Rightarrow> ((n_outcome n, (case n_failure n of Some (c # cs) \<Rightarrow> c # cs | _ \<Rightarrow> newnym_accepted)), s)
      | None \<Rightarrow>
          let previous = max_success d;
              left = (case previous of None \<Rightarrow> 0 | Some p \<Rightarrow> p + of_int interval - current)
          in if previous \<noteq> None \<and> 0 < left
             then ((''rejected'', wait_reason left),
                   s\<lparr>x_db := add_renewal (renewal g q sid (e_now e) previous ''rejected'' (Some (wait_reason left))) d\<rparr>)
             else
               let d = add_renewal (renewal g q sid (e_now e) previous ''pending'' None) d in
               (case e_newnym e of
                  Some message \<Rightarrow>
                    ((''failed'', take 512 message),
                     s\<lparr>x_db := update_renewal q (\<lambda>n. n\<lparr>n_outcome := ''failed'', n_failure := Some (take 512 message)\<rparr>) d\<rparr>)
                | None \<Rightarrow>
                    ((''completed'', newnym_accepted),
                     s\<lparr>x_next_newnym := current + of_int interval,
                       x_db := update_renewal q (\<lambda>n. n\<lparr>n_outcome := ''completed'', n_successful_at := Some current,
                          n_next_eligible_at := Some (current + of_int interval)\<rparr>) d\<rparr>)))"

text \<open>The automatic call (no database): the in-memory limit.\<close>

definition request_newnym_auto :: "env \<Rightarrow> config \<Rightarrow> downloader \<Rightarrow> bool \<times> downloader" where
  "request_newnym_auto e g s =
     (if g_newnym_interval g = 0 then (False, s)
      else if e_time e < x_next_newnym s then (False, s)
      else if e_newnym e \<noteq> None then (False, s)
      else (True, s\<lparr>x_next_newnym := e_time e + of_int (g_newnym_interval g)\<rparr>))"

definition control_renew_tor_circuits :: "env \<Rightarrow> config \<Rightarrow> jobject \<Rightarrow> jobject step" where
  "control_renew_tor_circuits e g rq s =
     (case request_ids rq of
        None \<Rightarrow> (Inr invalid_request, s)
      | Some (q, i) \<Rightarrow>
          (case find_control q (x_db s) of
             Some c \<Rightarrow> (Inr (replay_reply c), s)
           | None \<Rightarrow>
               let ((outcome, reason), s) = request_newnym e g q i s;
                   a = audit e g q i ''renew_tor_circuits'' outcome reason (x_db s);
                   s = s\<lparr>x_db := snd a\<rparr>
               in (Inr (reply outcome reason), set_projection_revision (fst a) s)))"

subsection \<open>Admission\<close>

text \<open>
  The four admission handlers share their frame: \<open>decide\<close> looks at the flags and says the
  outcome, the reason and the new flags; \<open>after\<close> runs only when the outcome is \<open>completed\<close>.
\<close>

definition admission_action :: "env \<Rightarrow> config \<Rightarrow> string \<Rightarrow> (downloader \<Rightarrow> (string \<times> string) \<times> downloader) \<Rightarrow>
    (string \<Rightarrow> downloader \<Rightarrow> downloader) \<Rightarrow> jobject \<Rightarrow> jobject step" where
  "admission_action e g action decide after rq s =
     (case request_ids rq of
        None \<Rightarrow> (Inr invalid_request, s)
      | Some (q, i) \<Rightarrow>
          (case find_control q (x_db s) of
             Some c \<Rightarrow> (Inr (replay_reply c), s)
           | None \<Rightarrow>
               let ((outcome, reason), s) = decide s;
                   a = audit e g q i action outcome reason (x_db s);
                   s = set_projection_revision (fst a) (s\<lparr>x_db := snd a\<rparr>);
                   s = (if outcome = ''completed'' then after reason s else s)
               in (Inr (reply_at outcome reason (fst a)), s)))"

definition decide_pause :: "downloader \<Rightarrow> (string \<times> string) \<times> downloader" where
  "decide_pause s =
     (if x_stop s \<or> x_drain s then ((''rejected'', ''admission cannot be paused while the run is stopping''), s)
      else if x_paused s then ((''rejected'', ''admission is already paused''), s)
      else ((''completed'', ''admission paused; active transfers continue''), s\<lparr>x_paused := True\<rparr>))"

definition control_pause_admission :: "env \<Rightarrow> config \<Rightarrow> jobject \<Rightarrow> jobject step" where
  "control_pause_admission e g = admission_action e g ''pause_admission'' decide_pause (notify e)"

definition decide_resume :: "downloader \<Rightarrow> (string \<times> string) \<times> downloader" where
  "decide_resume s =
     (if \<not> x_paused s then ((''rejected'', ''admission is not paused''), s)
      else ((''completed'', ''admission resumed for the selected run''), s\<lparr>x_paused := False\<rparr>))"

definition control_resume_admission :: "env \<Rightarrow> config \<Rightarrow> jobject \<Rightarrow> jobject step" where
  "control_resume_admission e g = admission_action e g ''resume_admission'' decide_resume
     (\<lambda>reason s. (notify e reason s)\<lparr>x_wake := True\<rparr>)"

definition set_lifecycle :: "env \<Rightarrow> string \<Rightarrow> string option \<Rightarrow> downloader \<Rightarrow> downloader" where
  "set_lifecycle e lifecycle reason s =
     s\<lparr>x_telemetry := map_option (tp_set_lifecycle (e_now e) lifecycle reason) (x_telemetry s)\<rparr>"

definition decide_drain :: "downloader \<Rightarrow> (string \<times> string) \<times> downloader" where
  "decide_drain s =
     (if x_stop s \<or> x_drain s then ((''rejected'', ''the run is already stopping''), s)
      else ((''completed'', ''draining active transfers to durable states; admission stopped''),
            s\<lparr>x_drain := True, x_paused := False\<rparr>))"

definition control_drain_and_stop :: "env \<Rightarrow> config \<Rightarrow> jobject \<Rightarrow> jobject step" where
  "control_drain_and_stop e g = admission_action e g ''drain_and_stop'' decide_drain
     (\<lambda>reason s. (notify e reason (set_lifecycle e ''stopping'' (Some ''drain and stop requested by operator'') s))
        \<lparr>x_wake := True\<rparr>)"

definition decide_checkpoint :: "downloader \<Rightarrow> (string \<times> string) \<times> downloader" where
  "decide_checkpoint s =
     (if x_stop s then ((''rejected'', ''the run is already stopping''), s)
      else ((''completed'', ''checkpoint requested; terminating active transfers safely''), s\<lparr>x_stop := True\<rparr>))"

definition control_checkpoint_stop :: "env \<Rightarrow> config \<Rightarrow> jobject \<Rightarrow> jobject step" where
  "control_checkpoint_stop e g = admission_action e g ''checkpoint_stop'' decide_checkpoint
     (\<lambda>reason s. (notify e reason (set_lifecycle e ''stopping'' (Some ''checkpoint and stop requested by operator'') s))
        \<lparr>x_wake := True\<rparr>)"

text \<open>\<open>admission_wait_timeout\<close> consumes the wake flag.\<close>

definition ADMISSION_POLL_SECONDS :: rat where "ADMISSION_POLL_SECONDS = 1 / 4"

definition admission_wait_timeout :: "env \<Rightarrow> downloader \<Rightarrow> rat \<times> downloader" where
  "admission_wait_timeout e s =
     (let timeout = (case x_deadline s of None \<Rightarrow> ADMISSION_POLL_SECONDS
                     | Some t \<Rightarrow> min ADMISSION_POLL_SECONDS (max 0 (t - e_mono e)))
      in if x_wake s then (0, s\<lparr>x_wake := False\<rparr>) else (timeout, s))"

subsection \<open>Dispatch\<close>

definition handlers :: "env \<Rightarrow> config \<Rightarrow> (string \<times> (jobject \<Rightarrow> jobject step)) list" where
  "handlers e g =
     [(''retry_now'', control_retry_now e g), (''exclude_item'', control_exclude_item e g),
      (''resume_new_generation'', control_resume_new_generation e g),
      (''retry_access_denied'', control_retry_access_denied e g),
      (''set_item_priority'', control_set_item_priority e g),
      (''set_retry_cooldown'', control_set_retry_cooldown e g),
      (''renew_tor_circuits'', control_renew_tor_circuits e g),
      (''pause_admission'', control_pause_admission e g),
      (''resume_admission'', control_resume_admission e g),
      (''drain_and_stop'', control_drain_and_stop e g),
      (''checkpoint_stop'', control_checkpoint_stop e g)]"

definition control_action :: "env \<Rightarrow> config \<Rightarrow> jobject \<Rightarrow> jobject step" where
  "control_action e g rq s =
     (case jget rq ''action'' of
        JStr a \<Rightarrow>
          (case map_of (handlers e g) a of
             Some f \<Rightarrow> f rq s
           | None \<Rightarrow> (Inr (reply ''rejected'' ''action is unavailable''), s))
      | _ \<Rightarrow> (Inr (reply ''rejected'' ''action is unavailable''), s))"

subsection \<open>The contract of an audited action\<close>

lemma find_control_None: "find_control q d = None \<longleftrightarrow> q \<notin> c_request ` set (control_requests d)"
  by (auto simp: find_control_def find_None_iff)

text \<open>
  \<open>valid rq\<close> is the request identifier when the handler gets past its checks.  A recorded
  request is answered from its row and changes nothing; a new one leaves its row and advances
  the revision of the run by one; an invalid one changes nothing.
\<close>

locale audited_action =
  fixes op :: "jobject \<Rightarrow> downloader \<Rightarrow> (exn + jobject) \<times> downloader"
    and valid :: "jobject \<Rightarrow> string option"
    and rid :: string
  assumes invalid: "valid rq = None \<Longrightarrow> snd (op rq s) = s"
    and replay: "valid rq = Some q \<Longrightarrow> find_control q (x_db s) = Some c \<Longrightarrow> op rq s = (Inr (replay_reply c), s)"
    and fresh_row: "valid rq = Some q \<Longrightarrow> find_control q (x_db s) = None \<Longrightarrow>
      \<exists>c. control_requests (x_db (snd (op rq s))) = control_requests (x_db s) @ [c] \<and> c_request c = q \<and>
          c_revision c = revision_of rid (x_db s) + 1"
    and fresh_revision: "valid rq = Some q \<Longrightarrow> find_control q (x_db s) = None \<Longrightarrow>
      revision_of rid (x_db (snd (op rq s))) = revision_of rid (x_db s) + 1"
begin

lemma recorded:
  assumes "valid rq = Some q"
  shows "\<exists>c. find_control q (x_db (snd (op rq s))) = Some c"
proof (cases "find_control q (x_db s)")
  case None
  from fresh_row [OF assms None] obtain c where
    "control_requests (x_db (snd (op rq s))) = control_requests (x_db s) @ [c]" "c_request c = q" by blast
  then have "find_control q (x_db (snd (op rq s))) \<noteq> None" by (simp add: find_control_None)
  then show ?thesis by simp
next
  case (Some c)
  then show ?thesis by (simp add: replay [OF assms])
qed

lemma idempotent: "snd (op rq (snd (op rq s))) = snd (op rq s)"
proof (cases "valid rq")
  case None
  then show ?thesis by (simp add: invalid)
next
  case (Some q)
  from recorded [OF this, of s] obtain c where "find_control q (x_db (snd (op rq s))) = Some c" ..
  then show ?thesis by (simp add: replay [OF Some])
qed

lemma revision_step:
  "revision_of rid (x_db (snd (op rq s))) = revision_of rid (x_db s) +
     (case valid rq of None \<Rightarrow> 0 | Some q \<Rightarrow> if find_control q (x_db s) = None then 1 else 0)"
  by (cases "valid rq") (auto simp: invalid replay fresh_revision)

lemma rows_grow: "\<exists>cs. control_requests (x_db (snd (op rq s))) = control_requests (x_db s) @ cs"
proof (cases "valid rq")
  case None
  then show ?thesis by (simp add: invalid)
next
  case (Some q)
  show ?thesis
  proof (cases "find_control q (x_db s)")
    case None
    then show ?thesis using fresh_row [OF Some] by blast
  next
    case (Some c)
    then show ?thesis using replay [OF \<open>valid rq = Some q\<close>] by auto
  qed
qed

end

subsection \<open>Every handler keeps the contract\<close>

lemma find_control_frames [simp]:
  "control_requests (update_urls us f d) = control_requests d"
  "control_requests (control_transition e g t d) = control_requests d"
  by (simp_all add: update_urls_def control_transition_def)

lemma revision_of_frames [simp]:
  "revision_of rid (update_urls us f d) = revision_of rid d"
  "revision_of rid (control_transition e g t d) = revision_of rid d"
  "revision_of rid (add_renewal n d) = revision_of rid d"
  "revision_of rid (update_where P k d) = revision_of rid d"
  "revision_of rid (insert_transition u rn fr st dt a d) = revision_of rid d"
  "revision_of rid (update_renewal q h d) = revision_of rid d"
  "revision_of rid (control_insert q r i a oc rs rv st d) = revision_of rid d"
  by (simp_all add: update_urls_def control_transition_def revision_of_def add_renewal_def
      update_renewal_def control_insert_def)

lemma audit_facts [simp]:
  "fst (audit e g q sid a oc rs d) = revision_of (g_run g) d + 1"
  "revision_of (g_run g) (snd (audit e g q sid a oc rs d)) = revision_of (g_run g) d + 1"
  "control_requests (snd (audit e g q sid a oc rs d)) = control_requests d @
     [\<lparr>c_request = q, c_run = g_run g, c_session = sid, c_action = a, c_outcome = oc, c_reason = rs,
       c_revision = revision_of (g_run g) d + 1, c_at = e_now e\<rparr>]"
  by (simp_all add: audit_def Let_def) (simp add: control_insert_def)

lemma project_rows_db [simp]: "x_db (project_rows e f n rs s) = x_db s"
proof (induction rs arbitrary: s)
  case (Cons r rs)
  have "x_db (apply_projection_change e a b n None s) = x_db s" for a b
    by (simp add: apply_projection_change_def split: option.splits)
  with Cons show ?case by (simp add: project_rows_def)
qed (simp add: project_rows_def)

lemma notify_frames [simp]:
  "x_db (notify e m s) = x_db s" "x_projection (notify e m s) = x_projection s"
  "x_db (set_projection_revision n s) = x_db s"
  "x_projection (set_projection_revision n s) = map_option (set_revision n) (x_projection s)"
  "x_db (set_lifecycle e l r s) = x_db s" "x_projection (set_lifecycle e l r s) = x_projection s"
  by (simp_all add: notify_def set_projection_revision_def set_lifecycle_def)

lemma item_action_replay:
  "find_control q (x_db s) = Some c \<Longrightarrow> item_action e g sp q sid ids s = (Inr (replay_reply c), s)"
  by (simp add: item_action_def)

lemma item_action_fresh:
  assumes "find_control q (x_db s) = None"
  shows "\<exists>c. control_requests (x_db (snd (item_action e g sp q sid ids s))) = control_requests (x_db s) @ [c] \<and>
      c_request c = q \<and> c_revision c = revision_of (g_run g) (x_db s) + 1"
    and "revision_of (g_run g) (x_db (snd (item_action e g sp q sid ids s))) = revision_of (g_run g) (x_db s) + 1"
  by (simp_all add: item_action_def assms Let_def split: prod.splits)

lemma retry_now_action_replay:
  "find_control q (x_db s) = Some c \<Longrightarrow> retry_now_action e g q sid ids s = (Inr (replay_reply c), s)"
  by (simp add: retry_now_action_def)

lemma retry_now_action_fresh:
  assumes "find_control q (x_db s) = None"
  shows "\<exists>c. control_requests (x_db (snd (retry_now_action e g q sid ids s))) = control_requests (x_db s) @ [c] \<and>
      c_request c = q \<and> c_revision c = revision_of (g_run g) (x_db s) + 1"
    and "revision_of (g_run g) (x_db (snd (retry_now_action e g q sid ids s))) = revision_of (g_run g) (x_db s) + 1"
  by (simp_all add: retry_now_action_def assms Let_def)

lemmas item_laws = item_action_replay item_action_fresh retry_now_action_replay retry_now_action_fresh

text \<open>The identifier of a request that passes the checks of an item handler.\<close>

definition valid_ids :: "(jobject \<Rightarrow> bool) \<Rightarrow> jobject \<Rightarrow> string option" where
  "valid_ids ok rq =
     (if has_ids rq \<and> as_ids (parameter rq ''item_ids'') \<noteq> None \<and> ok rq
      then map_option fst (request_ids rq) else None)"

definition valid_retry_now :: "jobject \<Rightarrow> string option" where
  "valid_retry_now rq =
     (if has_ids rq \<and> (parameter rq ''item_ids'' = JNull \<or> as_ids (parameter rq ''item_ids'') \<noteq> None)
      then map_option fst (request_ids rq) else None)"

definition valid_plain :: "jobject \<Rightarrow> string option" where
  "valid_plain rq = map_option fst (request_ids rq)"

abbreviation any_parameters :: "jobject \<Rightarrow> bool" where "any_parameters \<equiv> \<lambda>rq. True"

definition priority_given :: "jobject \<Rightarrow> bool" where
  "priority_given rq = (as_bounded PRIORITY_MIN PRIORITY_MAX (parameter rq ''priority'') \<noteq> None)"

definition cooldown_given :: "jobject \<Rightarrow> bool" where
  "cooldown_given rq =
     (as_bounded COOLDOWN_OVERRIDE_MIN_S COOLDOWN_OVERRIDE_MAX_S (parameter rq ''cooldown_s'') \<noteq> None)"

lemmas handler_defs = control_exclude_item_def control_resume_new_generation_def
  control_retry_access_denied_def control_set_item_priority_def control_set_retry_cooldown_def
  control_retry_now_def well_formed_def with_item_ids_def valid_ids_def valid_retry_now_def
  priority_given_def cooldown_given_def

interpretation exclude_item: audited_action "control_exclude_item e g" "valid_ids any_parameters" "g_run g" for e g
  by unfold_locales (auto simp: handler_defs item_laws split: option.splits if_splits)

interpretation new_generation: audited_action "control_resume_new_generation e g" "valid_ids any_parameters" "g_run g" for e g
  by unfold_locales (auto simp: handler_defs item_laws split: option.splits if_splits)

interpretation access_denied: audited_action "control_retry_access_denied e g" "valid_ids any_parameters" "g_run g" for e g
  by unfold_locales (auto simp: handler_defs item_laws split: option.splits if_splits)

interpretation item_priority: audited_action "control_set_item_priority e g" "valid_ids priority_given" "g_run g" for e g
  by unfold_locales (auto simp: handler_defs item_laws split: option.splits if_splits)

interpretation retry_cooldown: audited_action "control_set_retry_cooldown e g" "valid_ids cooldown_given" "g_run g" for e g
  by unfold_locales (auto simp: handler_defs item_laws split: option.splits if_splits)

interpretation retry_now: audited_action "control_retry_now e g" valid_retry_now "g_run g" for e g
  by unfold_locales (auto simp: handler_defs item_laws split: option.splits if_splits)

subsection \<open>The admission handlers and the circuit renewal\<close>

text \<open>What an admission handler may do to the rest: nothing to the database.\<close>

lemma decide_db:
  "decide_pause s = (x, t) \<Longrightarrow> x_db t = x_db s" "decide_resume s = (x, t) \<Longrightarrow> x_db t = x_db s"
  "decide_drain s = (x, t) \<Longrightarrow> x_db t = x_db s" "decide_checkpoint s = (x, t) \<Longrightarrow> x_db t = x_db s"
  by (auto simp: decide_pause_def decide_resume_def decide_drain_def decide_checkpoint_def split: if_splits)

lemma admission_laws:
  assumes "\<And>s x t. decide s = (x, t) \<Longrightarrow> x_db t = x_db s" and "\<And>r s. x_db (after r s) = x_db s"
  shows "audited_action (admission_action e g action decide after) valid_plain (g_run g)"
proof (unfold_locales, goal_cases)
  case (1 rq s)
  then show ?case by (simp add: admission_action_def valid_plain_def split: option.splits)
next
  case (2 rq q s c)
  then show ?case by (auto simp: admission_action_def valid_plain_def split: option.splits)
next
  case (3 rq q s)
  obtain x y t where d: "decide s = ((x, y), t)" by (metis surj_pair)
  from assms(1) [OF this] 3 assms(2) d show ?case
    by (auto simp: admission_action_def valid_plain_def Let_def)
next
  case (4 rq q s)
  obtain x y t where d: "decide s = ((x, y), t)" by (metis surj_pair)
  from assms(1) [OF this] 4 assms(2) d show ?case
    by (auto simp: admission_action_def valid_plain_def Let_def)
qed

interpretation pause: audited_action "control_pause_admission e g" valid_plain "g_run g" for e g
  unfolding control_pause_admission_def by (rule admission_laws) (auto dest: decide_db)

interpretation resume: audited_action "control_resume_admission e g" valid_plain "g_run g" for e g
  unfolding control_resume_admission_def by (rule admission_laws) (auto dest: decide_db)

interpretation drain: audited_action "control_drain_and_stop e g" valid_plain "g_run g" for e g
  unfolding control_drain_and_stop_def by (rule admission_laws) (auto dest: decide_db)

interpretation checkpoint: audited_action "control_checkpoint_stop e g" valid_plain "g_run g" for e g
  unfolding control_checkpoint_stop_def by (rule admission_laws) (auto dest: decide_db)

lemma request_newnym_db:
  assumes "request_newnym e g q sid s = (x, t)"
  shows "control_requests (x_db t) = control_requests (x_db s)" "downloads (x_db t) = downloads (x_db s)"
    "run_items (x_db t) = run_items (x_db s)" "revisions (x_db t) = revisions (x_db s)"
    "x_projection t = x_projection s"
  using assms
  by (auto simp: request_newnym_def Let_def add_renewal_def update_renewal_def split: if_splits option.splits)

interpretation renew: audited_action "control_renew_tor_circuits e g" valid_plain "g_run g" for e g
proof (unfold_locales, goal_cases)
  case (3 rq q s)
  then obtain i where i: "request_ids rq = Some (q, i)" by (auto simp: valid_plain_def)
  obtain x y t where r: "request_newnym e g q i s = ((x, y), t)" by (metis surj_pair)
  from request_newnym_db [OF this] 3 i r show ?case
    by (auto simp: control_renew_tor_circuits_def Let_def revision_of_def)
next
  case (4 rq q s)
  then obtain i where i: "request_ids rq = Some (q, i)" by (auto simp: valid_plain_def)
  obtain x y t where r: "request_newnym e g q i s = ((x, y), t)" by (metis surj_pair)
  from request_newnym_db [OF this] 4 i r show ?case
    by (auto simp: control_renew_tor_circuits_def Let_def revision_of_def audit_def control_insert_def
        advance_telemetry_revision_def update_conv)
qed (auto simp: control_renew_tor_circuits_def valid_plain_def split: option.splits)

subsection \<open>The dispatcher\<close>

definition validators :: "(string \<times> (jobject \<Rightarrow> string option)) list" where
  "validators =
     [(''retry_now'', valid_retry_now), (''exclude_item'', valid_ids any_parameters),
      (''resume_new_generation'', valid_ids any_parameters),
      (''retry_access_denied'', valid_ids any_parameters),
      (''set_item_priority'', valid_ids priority_given),
      (''set_retry_cooldown'', valid_ids cooldown_given),
      (''renew_tor_circuits'', valid_plain), (''pause_admission'', valid_plain),
      (''resume_admission'', valid_plain), (''drain_and_stop'', valid_plain),
      (''checkpoint_stop'', valid_plain)]"

definition valid_action :: "jobject \<Rightarrow> string option" where
  "valid_action rq =
     (case jget rq ''action'' of
        JStr a \<Rightarrow> (case map_of validators a of Some v \<Rightarrow> v rq | None \<Rightarrow> None)
      | _ \<Rightarrow> None)"

lemmas handler_contracts = retry_now.audited_action_axioms exclude_item.audited_action_axioms
  new_generation.audited_action_axioms access_denied.audited_action_axioms
  item_priority.audited_action_axioms retry_cooldown.audited_action_axioms
  renew.audited_action_axioms pause.audited_action_axioms resume.audited_action_axioms
  drain.audited_action_axioms checkpoint.audited_action_axioms

lemma handler_contract:
  "rel_option (\<lambda>f v. audited_action f v (g_run g)) (map_of (handlers e g) a) (map_of validators a)"
proof -
  have "list_all2 (\<lambda>(a, f) (b, v). a = b \<and> audited_action f v (g_run g)) (handlers e g) validators"
    unfolding handlers_def validators_def by (simp add: handler_contracts)
  then show ?thesis by (induction rule: list_all2_induct) auto
qed

lemma dispatch_cases:
  "(valid_action rq = None \<and> (\<forall>s. snd (control_action e g rq s) = s)) \<or>
   (\<exists>f v. audited_action f v (g_run g) \<and> valid_action rq = v rq \<and> (\<forall>s. control_action e g rq s = f rq s))"
proof (cases "jget rq ''action''")
  case (JStr a)
  then show ?thesis using handler_contract [of g e a]
    by (cases "map_of (handlers e g) a"; cases "map_of validators a")
       (auto simp: control_action_def valid_action_def)
qed (auto simp: control_action_def valid_action_def)

interpretation dispatch: audited_action "control_action e g" valid_action "g_run g" for e g
proof (unfold_locales, goal_cases)
  case (1 rq s)
  from dispatch_cases [of rq e g] 1 show ?case using audited_action.invalid by fastforce
next
  case (2 rq q s c)
  from dispatch_cases [of rq e g] 2 show ?case using audited_action.replay by fastforce
next
  case (3 rq q s)
  from dispatch_cases [of rq e g] 3 show ?case using audited_action.fresh_row by fastforce
next
  case (4 rq q s)
  from dispatch_cases [of rq e g] 4 show ?case using audited_action.fresh_revision by fastforce
qed

subsection \<open>A session of requests\<close>

text \<open>Requests arrive one after the other, each in its own environment.\<close>

definition serve :: "config \<Rightarrow> (env \<times> jobject) list \<Rightarrow> downloader \<Rightarrow> downloader" where
  "serve g ers s = fold (\<lambda>(e, rq) s. snd (control_action e g rq s)) ers s"

lemma serve_rows: "\<exists>cs. control_requests (x_db (serve g ers s)) = control_requests (x_db s) @ cs"
proof (induction ers arbitrary: s)
  case (Cons er ers)
  obtain e rq where er: "er = (e, rq)" by (cases er)
  from dispatch.rows_grow [of e g rq s] Cons [of "snd (control_action e g rq s)"] show ?case
    by (auto simp: serve_def er)
qed (simp add: serve_def)

lemma serve_keeps_row: "find_control q (x_db s) \<noteq> None \<Longrightarrow> find_control q (x_db (serve g ers s)) \<noteq> None"
  using serve_rows [of g ers s] by (auto simp: find_control_None)

lemma serve_records:
  "(e, rq) \<in> set ers \<Longrightarrow> valid_action rq = Some q \<Longrightarrow> find_control q (x_db (serve g ers s)) \<noteq> None"
proof (induction ers arbitrary: s)
  case (Cons er ers)
  show ?case
  proof (cases "er = (e, rq)")
    case True
    from dispatch.recorded [OF Cons.prems(2), of e g s] obtain c
      where "find_control q (x_db (snd (control_action e g rq s))) = Some c" ..
    with serve_keeps_row [of q "snd (control_action e g rq s)" g ers] show ?thesis
      by (simp add: serve_def True)
  next
    case False
    obtain e' rq' where er: "er = (e', rq')" by (cases er)
    have "(e, rq) \<in> set ers" using Cons.prems(1) False by auto
    from Cons.IH [OF this Cons.prems(2), of "snd (control_action e' g rq' s)"] show ?thesis
      by (simp add: serve_def er)
  qed
qed simp

lemma serve_revision:
  "revision_of (g_run g) (x_db (serve g ers s)) = revision_of (g_run g) (x_db s) +
     int (length (control_requests (x_db (serve g ers s)))) - int (length (control_requests (x_db s)))"
proof (induction ers arbitrary: s)
  case (Cons er ers)
  obtain e rq where er: "er = (e, rq)" by (cases er)
  let ?t = "snd (control_action e g rq s)"
  have "revision_of (g_run g) (x_db ?t) = revision_of (g_run g) (x_db s) +
      int (length (control_requests (x_db ?t))) - int (length (control_requests (x_db s)))"
  proof (cases "valid_action rq")
    case None
    then show ?thesis by (simp add: dispatch.invalid)
  next
    case (Some q)
    show ?thesis
    proof (cases "find_control q (x_db s)")
      case None
      from dispatch.fresh_row [OF Some None, where e = e and g = g] dispatch.fresh_revision [OF Some None, where e = e and g = g]
      show ?thesis by auto
    next
      case (Some c)
      then show ?thesis using dispatch.replay [OF \<open>valid_action rq = Some q\<close>] by simp
    qed
  qed
  moreover from Cons have "revision_of (g_run g) (x_db (serve g ers ?t)) = revision_of (g_run g) (x_db ?t) +
     int (length (control_requests (x_db (serve g ers ?t)))) - int (length (control_requests (x_db ?t)))" .
  ultimately show ?case by (simp add: serve_def er)
qed (simp add: serve_def)

text \<open>
  C1: confirmed actions are idempotent across a whole session.  Whatever requests the controller
  has served, of whatever action and in whatever order, submitting one of them again (with the
  same identifiers, at any later time) changes nothing, and if it was valid it is answered from
  its audit row; every audit row added stands for exactly one advance of the run's revision.
\<close>
theorem served_requests_are_idempotent:
  assumes "(e, rq) \<in> set ers" and "t = serve g ers s"
  shows "snd (control_action e' g rq t) = t \<and>
    (\<forall>q. valid_action rq = Some q \<longrightarrow>
       (\<exists>c. find_control q (x_db t) = Some c \<and> fst (control_action e' g rq t) = Inr (replay_reply c))) \<and>
    revision_of (g_run g) (x_db t) = revision_of (g_run g) (x_db s) +
      int (length (control_requests (x_db t))) - int (length (control_requests (x_db s)))"
proof (cases "valid_action rq")
  case None
  then show ?thesis by (simp add: dispatch.invalid serve_revision assms(2))
next
  case (Some q)
  from serve_records [OF assms(1) Some] obtain c where c: "find_control q (x_db t) = Some c"
    unfolding assms(2) by blast
  from dispatch.replay [OF Some this] have "control_action e' g rq t = (Inr (replay_reply c), t)" .
  with Some c show ?thesis by (simp add: serve_revision assms(2))
qed

definition example_pause :: jobject where
  "example_pause = [(''action'', JStr ''pause_admission''), (''request_id'', JStr ''q1''),
     (''session_id'', JStr ''s'')]"

theorem served_requests_are_idempotent_witness:
  "valid_action example_pause = Some ''q1'' \<and>
   (let t = serve example_config [(example_env, example_pause)] example_state in
    x_paused t \<and> snd (control_action example_env example_config example_pause t) = t)"
proof -
  have v: "valid_action example_pause = Some ''q1''"
    by (simp add: valid_action_def example_pause_def jget_def validators_def valid_plain_def request_ids_def)
  have "x_paused (serve example_config [(example_env, example_pause)] example_state)"
    by (simp add: serve_def control_action_def example_pause_def jget_def handlers_def
        control_pause_admission_def admission_action_def request_ids_def find_control_def example_db_def
        empty_db_def decide_pause_def example_state_def init_downloader_def notify_def
        set_projection_revision_def Let_def)
  with v served_requests_are_idempotent [of example_env example_pause "[(example_env, example_pause)]"
      "serve example_config [(example_env, example_pause)] example_state" example_config example_state example_env]
  show ?thesis by (simp add: Let_def)
qed

subsection \<open>Which rows an item action changes\<close>

definition chosen :: "env \<Rightarrow> item_spec \<Rightarrow> download list \<Rightarrow> string \<Rightarrow> download option" where
  "chosen e sp rows i = (case by_id e rows i of None \<Rightarrow> None | Some r \<Rightarrow> if is_eligible sp r then Some r else None)"

lemma decide_changed:
  "snd (decide_items e sp rows ids (outs, ch)) = ch @ List.map_filter (chosen e sp rows) ids"
  by (induction ids arbitrary: outs ch) (auto simp: chosen_def map_filter_simps split: option.splits)

lemma by_id_Some:
  assumes "distinct (map d_url rows)" and "inj_on (e_sha e) (d_url ` set rows)"
  shows "by_id e rows i = Some r \<longleftrightarrow> r \<in> set rows \<and> item_id e (d_url r) = i"
proof -
  have "inj_on (\<lambda>r. item_id e (d_url r)) (set rows)"
    using assms by (auto simp: distinct_map item_id_def inj_on_def)
  then have "distinct (map fst (map (\<lambda>r. (item_id e (d_url r), r)) rows))"
    using assms(1) by (simp add: distinct_map comp_def)
  then have "map_of (rev (map (\<lambda>r. (item_id e (d_url r), r)) rows)) = map_of (map (\<lambda>r. (item_id e (d_url r), r)) rows)"
    by (rule map_of_rev_distinct)
  moreover have "map_of (map (\<lambda>r. (item_id e (d_url r), r)) rows) i = Some r \<longleftrightarrow>
      (i, r) \<in> set (map (\<lambda>r. (item_id e (d_url r), r)) rows)"
    by (rule map_of_eq_Some_iff) fact
  ultimately show ?thesis by (auto simp: by_id_def)
qed

lemma mem_map_filter: "x \<in> set (List.map_filter f xs) \<longleftrightarrow> (\<exists>y \<in> set xs. f y = Some x)"
  by (induction xs) (auto simp: map_filter_simps split: option.splits)

lemma chosen_Some:
  assumes "distinct (map d_url rows)" and "inj_on (e_sha e) (d_url ` set rows)"
  shows "chosen e sp rows i = Some r \<longleftrightarrow> r \<in> set rows \<and> item_id e (d_url r) = i \<and> is_eligible sp r"
proof -
  have "chosen e sp rows i = Some r \<longleftrightarrow> by_id e rows i = Some r \<and> is_eligible sp r"
    by (auto simp: chosen_def split: option.splits)
  then show ?thesis by (simp add: by_id_Some [OF assms])
qed

lemma chosen_set:
  assumes "distinct (map d_url rows)" and "inj_on (e_sha e) (d_url ` set rows)"
  shows "set (List.map_filter (chosen e sp rows) ids) =
    {r \<in> set rows. item_id e (d_url r) \<in> set ids \<and> is_eligible sp r}"
  by (auto simp: mem_map_filter chosen_Some [OF assms])

lemma chosen_distinct:
  assumes "distinct (map d_url rows)" and "inj_on (e_sha e) (d_url ` set rows)" and "distinct ids"
  shows "distinct (map d_url (List.map_filter (chosen e sp rows) ids))"
  using assms(3)
proof (induction ids)
  case (Cons i ids)
  show ?case
  proof (cases "chosen e sp rows i")
    case (Some r)
    then have r: "item_id e (d_url r) = i" by (simp add: chosen_Some [OF assms(1,2)])
    have "d_url r \<noteq> d_url x" if "x \<in> set (List.map_filter (chosen e sp rows) ids)" for x
      using that r Cons.prems by (auto simp: chosen_set [OF assms(1,2)])
    with Cons Some show ?thesis by (auto simp: map_filter_simps)
  qed (use Cons in \<open>simp add: map_filter_simps\<close>)
qed (simp add: map_filter_simps)

subsection \<open>Item actions keep the projection in step\<close>

lemma agrees_many:
  assumes "agrees sha m rs p" and "distinct (map d_url rs)" and "inj_on sha (d_url ` set rs)"
    and "set cs \<subseteq> set rs" and "distinct (map d_url cs)" and h: "\<And>r. d_url (h r) = d_url r"
  shows "agrees sha m (map (\<lambda>r. if d_url r \<in> d_url ` set cs then h r else r) rs)
    (fold (\<lambda>r. apply_change sha (item_of r) (item_of (h r)) n None) cs p)"
  using assms(1-5)
proof (induction cs arbitrary: rs p)
  case (Cons c cs)
  let ?rs = "upd_key d_url (d_url c) h rs"
  have urls: "map d_url ?rs = map d_url rs" by (simp add: upd_key_def h)
  then have set_urls: "d_url ` set ?rs = d_url ` set rs" by (metis set_map)
  have sub: "set cs \<subseteq> set ?rs"
  proof
    fix x assume "x \<in> set cs"
    then have "x \<in> set rs" "d_url x \<in> d_url ` set cs" using Cons.prems(4) by auto
    then have "d_url x \<noteq> d_url c" using Cons.prems(5) by auto
    with \<open>x \<in> set rs\<close>
    show "x \<in> set ?rs" by (force simp: upd_key_def)
  qed
  have "agrees sha m ?rs (apply_change sha (item_of c) (item_of (h c)) n None p)"
    using Cons.prems(4) by (intro agrees_upd [OF Cons.prems(1-3) _ h]) simp
  from Cons.IH [OF this] have "agrees sha m (map (\<lambda>r. if d_url r \<in> d_url ` set cs then h r else r) ?rs)
    (fold (\<lambda>r. apply_change sha (item_of r) (item_of (h r)) n None) cs
       (apply_change sha (item_of c) (item_of (h c)) n None p))"
    using Cons.prems(2,3,5) sub urls set_urls by simp
  moreover have "map (\<lambda>r. if d_url r \<in> d_url ` set cs then h r else r) ?rs =
      map (\<lambda>r. if d_url r \<in> d_url ` set (c # cs) then h r else r) rs"
    using Cons.prems(5) by (auto simp: upd_key_def h)
  ultimately show ?case by simp
qed simp

lemma agrees_items:
  assumes "map item_of rs = map item_of rs'"
  shows "agrees sha m rs p \<longleftrightarrow> agrees sha m rs' p"
proof -
  have count: "count_where (\<lambda>r. bucket_of m r = b) rs = (\<Sum>i\<leftarrow>map item_of rs. if item_bucket m i = b then 1 else 0)" for b rs
    by (simp add: count_where_def bucket_of_def comp_def)
  have bytes: "complete_bytes rs = (\<Sum>i\<leftarrow>map item_of rs. if i_status i = Complete then zero_if_none (i_bytes i) else 0)" for rs
    by (simp add: complete_bytes_def comp_def cong: if_cong)
  have retries: "retries_agree sha m rs ts \<longleftrightarrow> distinct (map fst ts) \<and>
     (\<forall>i \<in> set (map item_of rs). map_of ts (sha (i_url i)) = (if item_bucket m i = BRetry then Some (retry_entry i) else None)) \<and>
     (\<forall>k. k \<notin> sha ` i_url ` set (map item_of rs) \<longrightarrow> map_of ts k = None)" for rs ts
    by (simp add: retries_agree_def bucket_of_def image_image)
  show ?thesis unfolding agrees_def count bytes retries assms ..
qed

lemma project_rows_projection:
  "x_projection (project_rows e f n cs s) =
     map_option (fold (\<lambda>r. apply_change (e_sha e) (item_of r) (f (item_of r)) n None) cs) (x_projection s)"
  by (induction cs arbitrary: s)
     (auto simp: project_rows_def apply_projection_change_def option.map_id0 split: option.splits)

lemma fold_apply_revision:
  "cs \<noteq> [] \<Longrightarrow> p_revision (fold (\<lambda>r. apply_change sha (a r) (b r) n None) cs p) = n"
proof (induction cs rule: rev_induct)
  case (snoc c cs)
  then show ?case by simp
qed simp

text \<open>What the SQL assignment of a handler must be for its in-memory postimage to be right.\<close>

definition spec_ok :: "item_spec \<Rightarrow> bool" where
  "spec_ok sp \<longleftrightarrow> (\<forall>r t. d_url (is_row sp r) = d_url r \<and>
     item_of ((is_row sp r)\<lparr>d_updated_at := t\<rparr>) = is_item sp (item_of r)) \<and>
     (is_projected sp \<or> (\<forall>i. is_item sp i = i))"

lemma specs_ok:
  "spec_ok exclude_spec" "spec_ok new_generation_spec" "spec_ok access_denied_spec"
  "spec_ok (priority_spec n)" "spec_ok (cooldown_spec n a)"
  by (simp_all add: spec_ok_def exclude_spec_def new_generation_spec_def access_denied_spec_def
      priority_spec_def cooldown_spec_def item_of_def)

definition touch :: "env \<Rightarrow> item_spec \<Rightarrow> download \<Rightarrow> download" where
  "touch e sp r = (is_row sp r)\<lparr>d_updated_at := e_now e\<rparr>"

lemma touch_facts:
  assumes "spec_ok sp"
  shows "d_url (touch e sp r) = d_url r" "item_of (touch e sp r) = is_item sp (item_of r)"
    "\<not> is_projected sp \<Longrightarrow> item_of (touch e sp r) = item_of r"
  using assms by (simp_all add: touch_def spec_ok_def)

definition item_changes :: "env \<Rightarrow> config \<Rightarrow> item_spec \<Rightarrow> string list \<Rightarrow> downloader \<Rightarrow> download list" where
  "item_changes e g sp ids s = List.map_filter (chosen e sp (run_rows (g_run g) (x_db s))) ids"

lemma item_action_state:
  fixes e :: env and g :: config and sp :: item_spec and ids :: "string list" and sid :: string
  assumes "find_control q (x_db s) = None"
  defines "ch \<equiv> item_changes e g sp ids s" and "n \<equiv> revision_of (g_run g) (x_db s) + 1"
    and "t \<equiv> snd (item_action e g sp q sid ids s)"
  shows "downloads (x_db t) = map (\<lambda>r. if d_url r \<in> d_url ` set ch then touch e sp r else r) (downloads (x_db s))"
    and "run_items (x_db t) = run_items (x_db s)"
    and "revision_of (g_run g) (x_db t) = n"
    and "x_projection t = (if is_projected sp \<and> ch \<noteq> []
       then map_option (fold (\<lambda>r. apply_change (e_sha e) (item_of r) (is_item sp (item_of r)) n None) ch) (x_projection s)
       else map_option (set_revision n) (x_projection s))"
    and "\<exists>c. control_requests (x_db t) = control_requests (x_db s) @ [c] \<and> c_request c = q"
proof -
  obtain outs ch' where d: "decide_items e sp (run_rows (g_run g) (x_db s)) ids ([], []) = (outs, ch')"
    by (cases "decide_items e sp (run_rows (g_run g) (x_db s)) ids ([], [])")
  then have ch: "ch' = ch"
    using decide_changed [of e sp "run_rows (g_run g) (x_db s)" ids "[]" "[]"] by (simp add: ch_def item_changes_def)
  note t = t_def item_action_def assms(1) d ch
  show "downloads (x_db t) = map (\<lambda>r. if d_url r \<in> d_url ` set ch then touch e sp r else r) (downloads (x_db s))"
    by (simp add: t Let_def audit_def control_insert_def control_transition_def update_urls_def touch_def)
  show "run_items (x_db t) = run_items (x_db s)"
    by (simp add: t Let_def audit_def control_insert_def control_transition_def update_urls_def)
  show "revision_of (g_run g) (x_db t) = n"
    by (simp add: t n_def Let_def)
  show "x_projection t = (if is_projected sp \<and> ch \<noteq> []
       then map_option (fold (\<lambda>r. apply_change (e_sha e) (item_of r) (is_item sp (item_of r)) n None) ch) (x_projection s)
       else map_option (set_revision n) (x_projection s))"
    by (simp add: t n_def Let_def project_rows_projection)
  show "\<exists>c. control_requests (x_db t) = control_requests (x_db s) @ [c] \<and> c_request c = q"
    by (simp add: t Let_def)
qed

lemma run_rows_map:
  assumes "downloads d' = map (\<lambda>r. if P (d_url r) then h r else r) (downloads d)" "run_items d' = run_items d"
    and "\<And>r. d_url (h r) = d_url r"
  shows "run_rows rid d' = map (\<lambda>r. if P (d_url r) then h r else r) (run_rows rid d)"
proof -
  have "run_rows rid d' = run_rows rid (update_where (\<lambda>r. P (d_url r)) h d)"
    by (rule run_rows_cong) (simp_all add: assms)
  then show ?thesis by (simp add: run_rows_update_where assms(3))
qed

lemma item_action_sync:
  assumes sync: "synced e g s" and sp: "spec_ok sp" and "distinct ids"
  shows "synced e g (snd (item_action e g sp q sid ids s))"
proof (cases "find_control q (x_db s)")
  case (Some c)
  then show ?thesis using sync by (simp add: item_action_def)
next
  case None
  let ?t = "snd (item_action e g sp q sid ids s)"
  let ?ch = "item_changes e g sp ids s"
  let ?rows = "run_rows (g_run g) (x_db s)"
  note st = item_action_state [OF None, where e = e and g = g and sp = sp and ids = ids and sid = sid]
  note url = touch_facts(1) [OF sp] and item = touch_facts(2) [OF sp]
  have wf: "wf_db (x_db s)" using sync by (simp add: synced_def)
  have urls: "map d_url (downloads (x_db ?t)) = map d_url (downloads (x_db s))"
    by (simp add: st(1) url)
  have wf': "wf_db (x_db ?t)"
    using wf None st(5) urls st(2) by (auto simp: wf_db_def find_control_None)
  have rows': "run_rows (g_run g) (x_db ?t) = map (\<lambda>r. if d_url r \<in> d_url ` set ?ch then touch e sp r else r) ?rows"
    by (rule run_rows_map [OF st(1,2) url])
  show ?thesis
  proof (cases "x_projection s")
    case None
    then show ?thesis using wf' st(4) by (simp add: synced_def)
  next
    case (Some p)
    with sync have pr: "projects (e_sha e) (g_run g) (g_max_attempts g) (x_db s) p"
      and key: "keyed (e_sha e) (g_run g) (x_db s)" by (simp_all add: synced_def)
    have inj: "inj_on (e_sha e) (d_url ` set ?rows)" and dist: "distinct (map d_url ?rows)"
      using keyed_rows [OF key] wf_run_rows [OF wf] by simp_all
    have ag: "agrees (e_sha e) (g_max_attempts g) ?rows p" using pr by (simp add: projects_def)
    have key': "keyed (e_sha e) (g_run g) (x_db ?t)" using keyed_cong [OF st(2)] key by simp
    let ?n = "revision_of (g_run g) (x_db s) + 1"
    show ?thesis
    proof (cases "is_projected sp \<and> ?ch \<noteq> []")
      case True
      have sub: "set ?ch \<subseteq> set ?rows" by (auto simp: item_changes_def chosen_set [OF dist inj])
      have dch: "distinct (map d_url ?ch)"
        by (simp add: item_changes_def chosen_distinct [OF dist inj assms(3)])
      have "agrees (e_sha e) (g_max_attempts g) (run_rows (g_run g) (x_db ?t))
          (fold (\<lambda>r. apply_change (e_sha e) (item_of r) (is_item sp (item_of r)) ?n None) ?ch p)"
        using agrees_many [OF ag dist inj sub dch, where h = "touch e sp" and n = ?n] by (simp add: rows' url item)
      then show ?thesis
        using True wf' key' st(3,4) by (simp add: synced_def Some projects_def fold_apply_revision)
    next
      case False
      have "map item_of (run_rows (g_run g) (x_db ?t)) = map item_of ?rows"
        unfolding rows' using False touch_facts(3) [OF sp] by auto
      from agrees_items [OF this] ag
      have a: "agrees (e_sha e) (g_max_attempts g) (run_rows (g_run g) (x_db ?t)) (set_revision ?n p)"
        by (simp add: set_revision_def)
      have "x_projection ?t = Some (set_revision ?n p)"
        using False by (subst st(4)) (auto simp: Some)
      with a show ?thesis
        using wf' key' st(3) by (simp add: synced_def projects_def set_revision_def)
    qed
  qed
qed

text \<open>A change of bookkeeping tables only, with the new revision copied to the projection.\<close>

lemma synced_bookkeeping:
  assumes "synced e g s" and "downloads (x_db t) = downloads (x_db s)" and "run_items (x_db t) = run_items (x_db s)"
    and "x_projection t = map_option (set_revision n) (x_projection s)"
    and "revision_of (g_run g) (x_db t) = n" and "wf_db (x_db t)"
  shows "synced e g t"
proof (cases "x_projection s")
  case (Some p)
  have "run_rows (g_run g) (x_db t) = run_rows (g_run g) (x_db s)"
    by (rule run_rows_cong) (simp_all add: assms)
  moreover have "keyed (e_sha e) (g_run g) (x_db t) = keyed (e_sha e) (g_run g) (x_db s)"
    by (rule keyed_cong) (rule assms(3))
  ultimately show ?thesis using assms Some
    by (simp add: synced_def projects_def set_revision_def)
qed (use assms in \<open>simp add: synced_def\<close>)

lemma audit_frames [simp]:
  "downloads (snd (audit e g q sid a oc rs d)) = downloads d"
  "run_items (snd (audit e g q sid a oc rs d)) = run_items d"
  by (simp_all add: audit_def Let_def control_insert_def)

lemma wf_db_audit:
  "wf_db d \<Longrightarrow> find_control q d = None \<Longrightarrow> wf_db (snd (audit e g q sid a oc rs d))"
  by (auto simp: wf_db_def find_control_None)

lemma retry_now_sync:
  assumes sync: "synced e g s"
  shows "synced e g (snd (retry_now_action e g q sid ids s))"
proof (cases "find_control q (x_db s)")
  case (Some c)
  then show ?thesis using sync by (simp add: retry_now_action_def)
next
  case None
  let ?t = "snd (retry_now_action e g q sid ids s)"
  let ?ch = "retry_now_rows e g ids (x_db s)"
  let ?rows = "run_rows (g_run g) (x_db s)"
  let ?h = "\<lambda>r. r\<lparr>d_next_retry_at := 0, d_updated_at := e_now e\<rparr>"
  let ?n = "revision_of (g_run g) (x_db s) + 1"
  have downs: "downloads (x_db ?t) = map (\<lambda>r. if d_url r \<in> d_url ` set ?ch then ?h r else r) (downloads (x_db s))"
    and items: "run_items (x_db ?t) = run_items (x_db s)" and rv: "revision_of (g_run g) (x_db ?t) = ?n"
    and reqs: "\<exists>c. control_requests (x_db ?t) = control_requests (x_db s) @ [c] \<and> c_request c = q"
    and proj: "x_projection ?t = (if ?ch \<noteq> []
       then map_option (fold (\<lambda>r. apply_change (e_sha e) (item_of r) ((item_of r)\<lparr>i_retry_at := 0\<rparr>) ?n None) ?ch) (x_projection s)
       else map_option (set_revision ?n) (x_projection s))"
    by (simp_all add: retry_now_action_def None Let_def project_rows_projection update_urls_def control_transition_def)
  have wf: "wf_db (x_db s)" using sync by (simp add: synced_def)
  have "map d_url (downloads (x_db ?t)) = map d_url (downloads (x_db s))" by (simp add: downs)
  then have wf': "wf_db (x_db ?t)"
    using wf None reqs items by (auto simp: wf_db_def find_control_None)
  show ?thesis
  proof (cases "?ch = []")
    case True
    show ?thesis
      by (rule synced_bookkeeping [OF sync _ items _ rv wf']) (simp_all add: downs proj True)
  next
    case False
    show ?thesis
    proof (cases "x_projection s")
      case None
      then show ?thesis using wf' by (simp add: synced_def proj False)
    next
      case (Some p)
      with sync have ag: "agrees (e_sha e) (g_max_attempts g) ?rows p"
        and key: "keyed (e_sha e) (g_run g) (x_db s)" by (simp_all add: synced_def projects_def)
      have inj: "inj_on (e_sha e) (d_url ` set ?rows)" and dist: "distinct (map d_url ?rows)"
        using keyed_rows [OF key] wf_run_rows [OF wf] by simp_all
      have sub: "set ?ch \<subseteq> set ?rows" by (auto simp: retry_now_rows_def Let_def split: option.splits)
      have dch: "distinct (map d_url ?ch)"
        using dist by (auto simp: retry_now_rows_def Let_def distinct_map_filter split: option.splits)
      have rows': "run_rows (g_run g) (x_db ?t) = map (\<lambda>r. if d_url r \<in> d_url ` set ?ch then ?h r else r) ?rows"
        by (rule run_rows_map [OF downs items]) simp
      have it: "item_of (?h r) = (item_of r)\<lparr>i_retry_at := 0\<rparr>" for r by (simp add: item_of_def)
      have "agrees (e_sha e) (g_max_attempts g) (run_rows (g_run g) (x_db ?t))
          (fold (\<lambda>r. apply_change (e_sha e) (item_of r) ((item_of r)\<lparr>i_retry_at := 0\<rparr>) ?n None) ?ch p)"
        using agrees_many [OF ag dist inj sub dch, where h = ?h and n = ?n] by (simp add: rows' it)
      moreover have "keyed (e_sha e) (g_run g) (x_db ?t)" using keyed_cong [OF items] key by simp
      ultimately show ?thesis
        using wf' rv by (simp add: synced_def projects_def proj False Some fold_apply_revision)
    qed
  qed
qed

lemma admission_sync:
  assumes sync: "synced e g s"
    and dec: "\<And>s x t. decide s = (x, t) \<Longrightarrow> x_db t = x_db s \<and> x_projection t = x_projection s"
    and after: "\<And>r s. x_db (after r s) = x_db s \<and> x_projection (after r s) = x_projection s"
  shows "synced e g (snd (admission_action e g action decide after rq s))"
proof (cases "\<exists>q i. request_ids rq = Some (q, i) \<and> find_control q (x_db s) = None")
  case True
  then obtain q i where q: "request_ids rq = Some (q, i)" "find_control q (x_db s) = None" by blast
  obtain x y t where d: "decide s = ((x, y), t)" by (metis surj_pair)
  have wf: "wf_db (x_db s)" using sync by (simp add: synced_def)
  show ?thesis
    using dec [OF d] after wf_db_audit [OF wf q(2)]
    by (intro synced_bookkeeping [OF sync, where n = "revision_of (g_run g) (x_db s) + 1"])
       (simp_all add: admission_action_def q d Let_def)
qed (use sync in \<open>auto simp: admission_action_def split: option.splits\<close>)

lemma decide_frames:
  "decide_pause s = (x, t) \<Longrightarrow> x_db t = x_db s \<and> x_projection t = x_projection s"
  "decide_resume s = (x, t) \<Longrightarrow> x_db t = x_db s \<and> x_projection t = x_projection s"
  "decide_drain s = (x, t) \<Longrightarrow> x_db t = x_db s \<and> x_projection t = x_projection s"
  "decide_checkpoint s = (x, t) \<Longrightarrow> x_db t = x_db s \<and> x_projection t = x_projection s"
  by (auto simp: decide_pause_def decide_resume_def decide_drain_def decide_checkpoint_def split: if_splits)

lemma renew_sync:
  assumes sync: "synced e g s"
  shows "synced e g (snd (control_renew_tor_circuits e g rq s))"
proof (cases "\<exists>q i. request_ids rq = Some (q, i) \<and> find_control q (x_db s) = None")
  case True
  then obtain q i where q: "request_ids rq = Some (q, i)" "find_control q (x_db s) = None" by blast
  obtain x y t where r: "request_newnym e g q i s = ((x, y), t)" by (metis surj_pair)
  note fr = request_newnym_db [OF r]
  have wf: "wf_db (x_db s)" using sync by (simp add: synced_def)
  then have wt: "wf_db (x_db t)" using fr by (simp add: wf_db_def)
  have nt: "find_control q (x_db t) = None" using q(2) fr by (simp add: find_control_None)
  have rt: "revision_of (g_run g) (x_db t) = revision_of (g_run g) (x_db s)" using fr by (simp add: revision_of_def)
  show ?thesis
    using fr wf_db_audit [OF wt nt] rt
    by (intro synced_bookkeeping [OF sync, where n = "revision_of (g_run g) (x_db s) + 1"])
       (simp_all add: control_renew_tor_circuits_def q r Let_def)
qed (use sync in \<open>auto simp: control_renew_tor_circuits_def split: option.splits\<close>)

definition ids_distinct :: "jobject \<Rightarrow> bool" where
  "ids_distinct rq = (case as_ids (parameter rq ''item_ids'') of None \<Rightarrow> True | Some ids \<Rightarrow> distinct ids)"

lemma control_action_sync:
  assumes "synced e g s" and "ids_distinct rq"
  shows "synced e g (snd (control_action e g rq s))"
proof -
  have d: "distinct ids" if "as_ids (parameter rq ''item_ids'') = Some ids" for ids
    using assms(2) that by (simp add: ids_distinct_def)
  have item: "synced e g (snd (well_formed (\<lambda>q i. with_item_ids rq (\<lambda>ids s. item_action e g sp q i ids s)) rq s))"
    if "spec_ok sp" for sp
    using item_action_sync [OF assms(1) that d] assms(1)
    by (auto simp: well_formed_def with_item_ids_def split: option.splits)
  have "synced e g (snd (control_exclude_item e g rq s))" "synced e g (snd (control_resume_new_generation e g rq s))"
    "synced e g (snd (control_retry_access_denied e g rq s))"
    using item specs_ok by (simp_all add: control_exclude_item_def control_resume_new_generation_def control_retry_access_denied_def)
  moreover have "synced e g (snd (control_set_item_priority e g rq s))" "synced e g (snd (control_set_retry_cooldown e g rq s))"
    using item_action_sync [OF assms(1) specs_ok(4) d] item_action_sync [OF assms(1) specs_ok(5) d] assms(1)
    by (auto simp: control_set_item_priority_def control_set_retry_cooldown_def well_formed_def with_item_ids_def
        split: option.splits)
  moreover have "synced e g (snd (control_retry_now e g rq s))"
    using retry_now_sync [OF assms(1)] assms(1)
    by (auto simp: control_retry_now_def well_formed_def with_item_ids_def split: option.splits)
  moreover have "synced e g (snd (control_pause_admission e g rq s))" "synced e g (snd (control_resume_admission e g rq s))"
    "synced e g (snd (control_drain_and_stop e g rq s))" "synced e g (snd (control_checkpoint_stop e g rq s))"
    unfolding control_pause_admission_def control_resume_admission_def control_drain_and_stop_def control_checkpoint_stop_def
    by (rule admission_sync [OF assms(1)]; (rule decide_frames; assumption | simp))+
  moreover note renew_sync [OF assms(1)]
  ultimately show ?thesis
    using assms(1) by (simp add: control_action_def handlers_def split: json.split)
qed

lemma serve_sync:
  assumes "synced e g s" and "\<forall>(e', rq) \<in> set ers. e_sha e' = e_sha e \<and> ids_distinct rq"
  shows "synced e g (serve g ers s)"
  using assms
proof (induction ers arbitrary: s)
  case (Cons er ers)
  obtain e' rq where er: "er = (e', rq)" by (cases er)
  have same: "synced e g t \<longleftrightarrow> synced e' g t" for t
    using Cons.prems(2) by (cases "x_projection t") (auto simp: synced_def er)
  have "synced e g (snd (control_action e' g rq s))"
    unfolding same by (rule control_action_sync) (use Cons.prems same er in auto)
  from Cons.IH [OF this] Cons.prems(2) show ?case by (simp add: serve_def er)
qed (simp add: serve_def)

lemma control_action_run_items:
  "run_items (x_db (snd (control_action e g rq s))) = run_items (x_db s)"
proof -
  have it: "run_items (x_db (snd (item_action e g sp q i ids s))) = run_items (x_db s)" for sp q i ids s
    using item_action_state(2) by (cases "find_control q (x_db s)") (auto simp: item_action_replay)
  have rt: "run_items (x_db (snd (retry_now_action e g q i ids s))) = run_items (x_db s)" for q i ids s
    by (simp add: retry_now_action_def Let_def control_transition_def update_urls_def split: option.split)
  have ad: "run_items (x_db (snd (admission_action e g a dec aft rq s))) = run_items (x_db s)"
    if "\<And>s x t. dec s = (x, t) \<Longrightarrow> x_db t = x_db s \<and> x_projection t = x_projection s"
       "\<And>r s. x_db (aft r s) = x_db s" for a dec aft s
    using that by (auto simp: admission_action_def Let_def split: option.split prod.split)
  have rn: "run_items (x_db (snd (control_renew_tor_circuits e g rq s))) = run_items (x_db s)"
    by (auto simp: control_renew_tor_circuits_def Let_def dest: request_newnym_db(3) split: option.split prod.split)
  have "run_items (x_db (snd (f rq s))) = run_items (x_db s)" if "map_of (handlers e g) a = Some f" for a f
    using that it rt rn
    by (auto simp: handlers_def control_retry_now_def control_exclude_item_def control_resume_new_generation_def
        control_retry_access_denied_def control_set_item_priority_def control_set_retry_cooldown_def
        well_formed_def with_item_ids_def control_pause_admission_def control_resume_admission_def
        control_drain_and_stop_def control_checkpoint_stop_def split: if_splits option.splits
        intro!: ad dest: decide_frames)
  then show ?thesis by (auto simp: control_action_def split: json.splits option.splits)
qed

lemma serve_run_items: "run_items (x_db (serve g ers s)) = run_items (x_db s)"
  by (induction ers arbitrary: s) (auto simp: serve_def control_action_run_items)

lemma serve_projection: "x_projection s \<noteq> None \<Longrightarrow> x_projection (serve g ers s) \<noteq> None"
proof (induction ers arbitrary: s)
  case (Cons er ers)
  obtain e rq where er: "er = (e, rq)" by (cases er)
  have none: "x_projection (snd (item_action e g sp q i ids t)) = None \<longleftrightarrow> x_projection t = None" for sp q i ids t
    by (cases "find_control q (x_db t)") (auto simp: item_action_replay item_action_state(4))
  have rt: "x_projection (snd (retry_now_action e g q i ids t)) = None \<longleftrightarrow> x_projection t = None" for q i ids t
    by (auto simp: retry_now_action_def Let_def project_rows_projection split: option.split)
  have ad: "x_projection (snd (admission_action e g a dec aft rq t)) = None \<longleftrightarrow> x_projection t = None"
    if "\<And>s x t. dec s = (x, t) \<Longrightarrow> x_db t = x_db s \<and> x_projection t = x_projection s"
       "\<And>r s. x_projection (aft r s) = x_projection s" for a dec aft t
    using that by (auto simp: admission_action_def Let_def split: option.split prod.split)
  have rn: "x_projection (snd (control_renew_tor_circuits e g rq t)) = None \<longleftrightarrow> x_projection t = None" for t
    by (auto simp: control_renew_tor_circuits_def Let_def dest: request_newnym_db(5) split: option.split prod.split)
  have "x_projection (snd (f rq s)) = None \<longleftrightarrow> x_projection s = None" if "map_of (handlers e g) a = Some f" for a f
    using that none rt rn
    by (auto simp: handlers_def control_retry_now_def control_exclude_item_def control_resume_new_generation_def
        control_retry_access_denied_def control_set_item_priority_def control_set_retry_cooldown_def
        well_formed_def with_item_ids_def control_pause_admission_def control_resume_admission_def
        control_drain_and_stop_def control_checkpoint_stop_def split: if_splits option.splits
        intro!: ad dest: decide_frames)
  then have "x_projection (snd (control_action e g rq s)) \<noteq> None"
    using Cons.prems by (auto simp: control_action_def split: json.splits option.splits)
  from Cons.IH [OF this] show ?case by (simp add: serve_def er)
qed (simp add: serve_def)


definition example_request :: "string \<Rightarrow> string \<Rightarrow> string list \<Rightarrow> jobject" where
  "example_request action q ids = [(''action'', JStr action), (''request_id'', JStr q), (''session_id'', JStr ''s''),
     (''parameters'', JObj [(''item_ids'', ids_json ids)])]"


subsection \<open>Duplicate identifiers break the projection\<close>

lemma item_action_duplicate:
  assumes sync: "synced e g s" and p: "x_projection s = Some p" and sp: "spec_ok sp" "is_projected sp"
    and q: "find_control q (x_db s) = None" and rr: "ranks_ok (g_run g) (x_db s)"
    and r: "r \<in> set (run_rows (g_run g) (x_db s))" "is_eligible sp r" and i: "i = item_id e (d_url r)"
    and b: "item_bucket (g_max_attempts g) (is_item sp (item_of r)) \<noteq> bucket_of (g_max_attempts g) r"
    and t: "t = snd (item_action e g sp q sid [i, i] s)"
  shows "\<exists>p'. x_projection t = Some p' \<and>
    p_counts p' (bucket_of (g_max_attempts g) r) = p_counts p (bucket_of (g_max_attempts g) r) - 2 \<and>
    p_counts (rehydrated e g t) (bucket_of (g_max_attempts g) r) = p_counts p (bucket_of (g_max_attempts g) r) - 1"
proof -
  let ?rows = "run_rows (g_run g) (x_db s)"
  have wf: "wf_db (x_db s)" and key: "keyed (e_sha e) (g_run g) (x_db s)"
    and ag: "agrees (e_sha e) (g_max_attempts g) ?rows p"
    using sync p by (simp_all add: synced_def projects_def)
  have inj: "inj_on (e_sha e) (d_url ` set ?rows)" and dist: "distinct (map d_url ?rows)"
    using keyed_rows [OF key] wf_run_rows [OF wf] by simp_all
  have c: "chosen e sp ?rows i = Some r" using r i by (simp add: chosen_Some [OF dist inj])
  have m: "p_max_attempts p = g_max_attempts g" using ag by (simp add: agrees_def)
  have two: "item_changes e g sp [i, i] s = [r, r]" and one: "item_changes e g sp [i] s = [r]"
    by (simp_all add: item_changes_def c map_filter_simps)
  let ?n = "revision_of (g_run g) (x_db s) + 1"
  let ?a = "apply_change (e_sha e) (item_of r) (is_item sp (item_of r)) ?n None"
  note st2 = item_action_state [OF q, where e = e and g = g and sp = sp and ids = "[i, i]" and sid = sid, unfolded two]
  let ?u = "snd (item_action e g sp q sid [i] s)"
  note st1 = item_action_state [OF q, where e = e and g = g and sp = sp and ids = "[i]" and sid = sid, unfolded one]
  have su: "synced e g ?u" by (rule item_action_sync [OF sync sp(1)]) simp
  have pu: "x_projection ?u = Some (?a p)" using st1(4) sp(2) p by simp
  have "same_view (?a p) (rehydrated e g ?u)"
    by (rule synced_same_view [OF su pu]) (use rr ranks_ok_cong [OF st1(2)] in simp)
  moreover have "p_counts (rehydrated e g t) = p_counts (rehydrated e g ?u)"
  proof -
    have "downloads (x_db t) = downloads (x_db ?u)" "run_items (x_db t) = run_items (x_db ?u)"
      using st1(1,2) st2(1,2) by (simp_all add: t)
    then have "run_rows (g_run g) (x_db t) = run_rows (g_run g) (x_db ?u)" "ranks_ok (g_run g) (x_db t)"
      "keyed (e_sha e) (g_run g) (x_db t)"
      using rr ranks_ok_cong [of "x_db t" "x_db s"] keyed_cong [of "x_db t" "x_db s"] key st1(2)
      by (auto intro: run_rows_cong)
    moreover have "wf_db (x_db t)" "wf_db (x_db ?u)"
      using su wf q st2(5) st1(1) st2(1,2) touch_facts(1) [OF sp(1)]
      by (auto simp: synced_def wf_db_def find_control_None t)
    moreover have "ranks_ok (g_run g) (x_db ?u)" "keyed (e_sha e) (g_run g) (x_db ?u)"
      using rr ranks_ok_cong [OF st1(2)] keyed_cong [OF st1(2)] key by auto
    ultimately show ?thesis
      using hydrate_projects [of "x_db t" "g_run g" "e_sha e" "g_max_attempts g"]
        hydrate_projects [of "x_db ?u" "g_run g" "e_sha e" "g_max_attempts g"]
      by (auto simp: rehydrated_def projects_def agrees_def)
  qed
  ultimately have ce: "p_counts (rehydrated e g t) = p_counts (?a p)" unfolding same_view_def by metis
  have step: "p_counts (?a x) (bucket_of (g_max_attempts g) r) = p_counts x (bucket_of (g_max_attempts g) r) - 1"
    if "p_max_attempts x = g_max_attempts g" for x
    using b that by (auto simp: apply_change_def Let_def bump_def bucket_of_def)
  have "x_projection t = Some (?a (?a p))"
    unfolding t by (subst st2(4)) (simp add: sp(2) p)
  then show ?thesis
    using step [OF m] step [of "?a p"] m by (simp add: ce)
qed

text \<open>
  C11: naming an item twice in one \<open>exclude_item\<close> request breaks the projection.  The SQL update
  changes the row once, but the in-memory change is applied once per occurrence, so the bucket
  the item leaves is decremented twice while the database (what a hydration sees) lost one.
\<close>
theorem duplicate_ids_corrupt_the_projection:
  assumes "synced e g s" and "x_projection s = Some p" and "find_control q (x_db s) = None"
    and "ranks_ok (g_run g) (x_db s)" and "r \<in> set (run_rows (g_run g) (x_db s))"
    and "excludable (d_status r)" and "i = item_id e (d_url r)"
    and "t = snd (item_action e g exclude_spec q sid [i, i] s)"
  shows "\<exists>p'. x_projection t = Some p' \<and>
    p_counts p' (bucket_of (g_max_attempts g) r) = p_counts p (bucket_of (g_max_attempts g) r) - 2 \<and>
    p_counts (rehydrated e g t) (bucket_of (g_max_attempts g) r) = p_counts p (bucket_of (g_max_attempts g) r) - 1"
proof (rule item_action_duplicate [OF assms(1,2) specs_ok(1) _ assms(3-5) _ assms(7) _ assms(8)])
  show "item_bucket (g_max_attempts g) (is_item exclude_spec (item_of r)) \<noteq> bucket_of (g_max_attempts g) r"
    using assms(6)
    by (cases "d_status r") (simp_all add: exclude_spec_def bucket_of_def item_bucket_def item_of_def display_bucket_def)
qed (use assms(6) in \<open>simp_all add: exclude_spec_def\<close>)

theorem duplicate_ids_corrupt_the_projection_witness:
  "\<exists>p'. x_projection (snd (item_action example_env example_config exclude_spec ''q'' ''s'' [''u1'', ''u1''] example_state)) = Some p' \<and>
     p_counts p' BQueued = p_counts (the (x_projection example_state)) BQueued - 2"
proof -
  let ?r = "example_row ''u1'' Queued"
  obtain p where p: "x_projection example_state = Some p" by (simp add: example_state_def)
  have q: "find_control ''q'' (x_db example_state) = None"
    by (simp add: find_control_def example_db_def empty_db_def)
  have r: "?r \<in> set (run_rows (g_run example_config) (x_db example_state))"
    by (simp add: run_rows_def example_db_def example_row_def new_download_def empty_db_def)
  have x: "excludable (d_status ?r)" and i: "''u1'' = item_id example_env (d_url ?r)"
    and b: "bucket_of (g_max_attempts example_config) ?r = BQueued"
    by (simp_all add: example_row_def new_download_def item_id_def example_env_def bucket_of_def
        item_bucket_def item_of_def display_bucket_def)
  have k: "ranks_ok (g_run example_config) (x_db example_state)" by (simp add: example_ok)
  from duplicate_ids_corrupt_the_projection [OF example_synced p q k r x i refl, unfolded b] show ?thesis
    using p by fastforce
qed

subsection \<open>What the actions may change\<close>

text \<open>
  \<open>exclude_item\<close> changes exactly the rows it may: of a new well-formed request, a row of the
  database ends excluded by it exactly when it belongs to the selected run, its identifier was
  named and its state is excludable; every other row is as it was.
\<close>
theorem exclude_changes_exactly:
  assumes "synced e g s" and "x_projection s \<noteq> None" and "find_control q (x_db s) = None"
    and "t = snd (item_action e g exclude_spec q sid ids s)"
  shows "downloads (x_db t) = map (\<lambda>r.
    if d_url r \<in> set (run_urls (g_run g) (x_db s)) \<and> item_id e (d_url r) \<in> set ids \<and> excludable (d_status r)
    then r\<lparr>d_status := Excluded, d_updated_at := e_now e\<rparr> else r) (downloads (x_db s))"
proof -
  let ?rows = "run_rows (g_run g) (x_db s)"
  have wf: "wf_db (x_db s)" and key: "keyed (e_sha e) (g_run g) (x_db s)"
    using assms(1,2) by (auto simp: synced_def)
  have inj: "inj_on (e_sha e) (d_url ` set ?rows)" and dist: "distinct (map d_url ?rows)"
    using keyed_rows [OF key] wf_run_rows [OF wf] by simp_all
  let ?ch = "item_changes e g exclude_spec ids s"
  have ch: "set ?ch = {r \<in> set ?rows. item_id e (d_url r) \<in> set ids \<and> excludable (d_status r)}"
    by (simp add: item_changes_def chosen_set [OF dist inj] exclude_spec_def)
  have same: "x = r" if "x \<in> set (downloads (x_db s))" "r \<in> set (downloads (x_db s))" "d_url x = d_url r" for x r
    using wf that by (auto simp: wf_db_def distinct_map dest: inj_onD)
  have "d_url r \<in> d_url ` set ?ch \<longleftrightarrow>
      d_url r \<in> set (run_urls (g_run g) (x_db s)) \<and> item_id e (d_url r) \<in> set ids \<and> excludable (d_status r)"
    if "r \<in> set (downloads (x_db s))" for r
  proof
    assume "d_url r \<in> d_url ` set ?ch"
    then obtain x where x: "x \<in> set ?ch" "d_url x = d_url r" by auto
    then have "x \<in> set ?rows" using ch by blast
    then have "x = r" using same [OF _ that] x(2) run_rows_subset by blast
    with x(1) show "d_url r \<in> set (run_urls (g_run g) (x_db s)) \<and> item_id e (d_url r) \<in> set ids \<and> excludable (d_status r)"
      unfolding ch by (auto dest: run_rows_subset)
  next
    assume "d_url r \<in> set (run_urls (g_run g) (x_db s)) \<and> item_id e (d_url r) \<in> set ids \<and> excludable (d_status r)"
    with that have "r \<in> set ?ch" unfolding ch by (simp add: mem_run_rows)
    then show "d_url r \<in> d_url ` set ?ch" by simp
  qed
  then show ?thesis
    by (simp add: assms(4) item_action_state(1) [OF assms(3)] touch_def exclude_spec_def cong: if_cong)
qed

theorem exclude_changes_exactly_witness:
  "downloads (x_db (snd (item_action example_env example_config exclude_spec ''q'' ''s'' [''u1'', ''u3''] example_state))) =
     [(example_row ''u1'' Queued)\<lparr>d_status := Excluded, d_updated_at := ''t1''\<rparr>,
      example_row ''u2'' RetryWait, example_row ''u3'' ReviewRequired]"
proof -
  have "find_control ''q'' (x_db example_state) = None"
    by (simp add: find_control_def example_db_def empty_db_def)
  from exclude_changes_exactly [OF example_synced _ this refl] show ?thesis
    using example_ok(3)
    by (simp add: example_db_def example_row_def new_download_def item_id_def example_env_def)
qed

end
