(* ===== verification/ControlServer.thy ===== *)
theory ControlServer
  imports Control
begin

text \<open>
  \<open>src/controller.py\<close>: the bounded line reader, the authenticated request handler, the two-step
  confirmation (a nonce valid for 60 seconds and for one use) and the replay cache, in front of
  \<open>control_action\<close>.  A request is modelled from its parsed JSON value on (\<open>None\<close> when the bytes
  are not UTF-8 JSON); the socket is a list of what successive \<open>recv\<close> calls deliver.  An
  exception the serving thread does not catch ends it.
\<close>

definition PROTOCOL_VERSION :: int where "PROTOCOL_VERSION = 1"
definition MAX_MESSAGE_BYTES :: nat where "MAX_MESSAGE_BYTES = 64 * 1024"

subsection \<open>Reading one line\<close>

datatype chunk = Data string | Eof | RecvError

datatype line_result = Line string | LineError | LineOsError

text \<open>
  \<open>_read_line\<close>: \<open>recv\<close> returns at most 4096 bytes and never more than the limit leaves; what it
  does not take stays for the next call.
\<close>

function read_line :: "string \<Rightarrow> chunk list \<Rightarrow> line_result" where
  "read_line received cs =
     (if MAX_MESSAGE_BYTES < length received then LineError
      else case cs of
        [] \<Rightarrow> LineError
      | Eof # _ \<Rightarrow> LineError
      | RecvError # _ \<Rightarrow> LineOsError
      | Data d # rest \<Rightarrow>
          if d = [] then LineError
          else
            let n = min 4096 (MAX_MESSAGE_BYTES + 1 - length received);
                got = take n d;
                rest = (if n < length d then Data (drop n d) # rest else rest)
            in if CHR 0x0A \<in> set got
               then Line (takeWhile (\<lambda>c. c \<noteq> CHR 0x0A) (received @ got))
               else read_line (received @ got) rest)"
  by pat_completeness auto
termination
  by (relation "measure (\<lambda>(r, cs). Suc MAX_MESSAGE_BYTES - length r)") (auto simp: neq_Nil_conv)

declare read_line.simps [simp del]

subsection \<open>The server\<close>

text \<open>A prepared confirmation: action, expiry, and the parameters it was prepared with.\<close>

record confirmation =
  cf_action :: string
  cf_expires :: rat
  cf_items :: "string list option"
  cf_priority :: "int option"
  cf_cooldown :: "int option"

record server =
  sv_run :: string
  sv_session :: string
  sv_token :: string
  sv_confirmations :: "(string \<times> confirmation) list"
  sv_completed :: "(string \<times> jobject) list"

definition new_server :: "string \<Rightarrow> string \<Rightarrow> string \<Rightarrow> server" where
  "new_server run_id session token =
     \<lparr>sv_run = run_id, sv_session = session, sv_token = token, sv_confirmations = [], sv_completed = []\<rparr>"

definition CONFIRMED_ACTIONS :: "string list" where
  "CONFIRMED_ACTIONS = [''retry_now'', ''exclude_item'', ''resume_new_generation'', ''retry_access_denied'',
     ''set_item_priority'', ''set_retry_cooldown'', ''renew_tor_circuits'', ''pause_admission'',
     ''resume_admission'', ''drain_and_stop'', ''checkpoint_stop'']"

definition ITEM_ACTIONS :: "string list" where
  "ITEM_ACTIONS = [''exclude_item'', ''resume_new_generation'', ''retry_access_denied'',
     ''set_item_priority'', ''set_retry_cooldown'']"

text \<open>A \<open>ControlError\<close> (its text) is answered; anything else ends the serving thread.\<close>

datatype server_exn = ControlError string | ServerCrash exn | ServerTypeError | ServerOsError

type_synonym 'a server_step = "(server \<times> downloader, server_exn, 'a) act"

definition refuse :: "string \<Rightarrow> 'a server_step" where
  "refuse message = raise (ControlError message)"

subsection \<open>Preparing a confirmation\<close>

definition needs_items :: "string \<Rightarrow> jobject \<Rightarrow> bool" where
  "needs_items action kvs =
     (action \<in> set ITEM_ACTIONS \<or> (action = ''retry_now'' \<and> map_of kvs ''item_ids'' \<noteq> None))"

definition scope_text :: "string \<Rightarrow> string list option \<Rightarrow> string" where
  "scope_text action items =
     (let selected = show_nat (case items of None \<Rightarrow> 0 | Some ids \<Rightarrow> length ids) @
            '' selected item(s) in the immutable selected run'' in
      if action = ''retry_now''
      then (if items \<noteq> None then selected else ''retryable items in the immutable selected run'')
      else if action \<in> set ITEM_ACTIONS then selected
      else if action \<in> {''pause_admission'', ''resume_admission'', ''drain_and_stop'', ''checkpoint_stop''}
      then ''the immutable selected run's admission and active transfers''
      else ''future Tor streams only'')"

text \<open>The checks of \<open>_prepare_confirmation\<close>: what the confirmation will carry, or why not.\<close>

definition prepared :: "env \<Rightarrow> json \<Rightarrow> string + confirmation" where
  "prepared e parameters =
     (case parameters of
        JObj kvs \<Rightarrow>
          (case jget kvs ''action'' of
             JStr action \<Rightarrow>
               if action \<notin> set CONFIRMED_ACTIONS then Inl ''action is unavailable''
               else if needs_items action kvs \<and> as_ids (jget kvs ''item_ids'') = None
               then Inl ''item_ids must be a non-empty list of strings''
               else if action = ''set_item_priority'' \<and>
                 as_bounded PRIORITY_MIN PRIORITY_MAX (jget kvs ''priority'') = None
               then Inl (''priority must be an integer between '' @ show_int PRIORITY_MIN @ '' and '' @ show_int PRIORITY_MAX)
               else if action = ''set_retry_cooldown'' \<and>
                 as_bounded COOLDOWN_OVERRIDE_MIN_S COOLDOWN_OVERRIDE_MAX_S (jget kvs ''cooldown_s'') = None
               then Inl (''cooldown_s must be an integer between '' @ show_int COOLDOWN_OVERRIDE_MIN_S @
                         '' and '' @ show_int COOLDOWN_OVERRIDE_MAX_S)
               else Inr \<lparr>cf_action = action, cf_expires = e_mono e + 60,
                   cf_items = (if needs_items action kvs then as_ids (jget kvs ''item_ids'') else None),
                   cf_priority = (if action = ''set_item_priority''
                                  then as_bounded PRIORITY_MIN PRIORITY_MAX (jget kvs ''priority'') else None),
                   cf_cooldown = (if action = ''set_retry_cooldown''
                                  then as_bounded COOLDOWN_OVERRIDE_MIN_S COOLDOWN_OVERRIDE_MAX_S (jget kvs ''cooldown_s'')
                                  else None)\<rparr>
           | _ \<Rightarrow> Inl ''action is unavailable'')
      | _ \<Rightarrow> Inl ''confirmation parameters must be an object'')"

definition unhashable_action :: "json \<Rightarrow> bool" where
  "unhashable_action parameters =
     (case parameters of JObj kvs \<Rightarrow> \<not> hashable (jget kvs ''action'') | _ \<Rightarrow> False)"

definition prepare_confirmation :: "env \<Rightarrow> string \<Rightarrow> string \<Rightarrow> json \<Rightarrow> jobject server_step" where
  "prepare_confirmation e nonce request_id parameters s =
     (if unhashable_action parameters then (Inl ServerTypeError, s)
      else case prepared e parameters of
        Inl message \<Rightarrow> (Inl (ControlError message), s)
      | Inr c \<Rightarrow>
          (Inr [(''request_id'', JStr request_id), (''outcome'', JStr ''completed''),
                (''confirmation'', JObj [(''nonce'', JStr nonce), (''action'', JStr (cf_action c)),
                   (''expires_in_s'', JInt 60), (''scope'', JStr (scope_text (cf_action c) (cf_items c)))])],
           ((fst s)\<lparr>sv_confirmations := AList.update nonce c (sv_confirmations (fst s))\<rparr>, snd s)))"

subsection \<open>A confirmed action\<close>

text \<open>\<open>confirmations.pop(nonce)\<close>: whatever comes of it, the nonce is spent.\<close>

definition pop_confirmation :: "json \<Rightarrow> server \<Rightarrow> confirmation option \<times> server" where
  "pop_confirmation nonce v =
     (case nonce of
        JStr n \<Rightarrow> (map_of (sv_confirmations v) n, v\<lparr>sv_confirmations := AList.delete n (sv_confirmations v)\<rparr>)
      | _ \<Rightarrow> (None, v))"

definition bound_parameters :: "confirmation \<Rightarrow> jobject \<Rightarrow> jobject" where
  "bound_parameters c kvs =
     (let kvs = (case cf_items c of None \<Rightarrow> kvs | Some ids \<Rightarrow> AList.update ''item_ids'' (ids_json ids) kvs);
          kvs = (case cf_priority c of None \<Rightarrow> kvs | Some n \<Rightarrow> AList.update ''priority'' (JInt n) kvs)
      in case cf_cooldown c of None \<Rightarrow> kvs | Some n \<Rightarrow> AList.update ''cooldown_s'' (JInt n) kvs)"

definition accepted :: "env \<Rightarrow> string \<Rightarrow> jobject \<Rightarrow> confirmation option \<Rightarrow> confirmation option" where
  "accepted e action kvs c =
     (case c of
        None \<Rightarrow> None
      | Some c \<Rightarrow> if cf_action c \<noteq> action \<or> cf_expires c < e_mono e \<or> jget kvs ''confirmation'' \<noteq> JStr action
                  then None else Some c)"

definition confirmed_action :: "env \<Rightarrow> config \<Rightarrow> string \<Rightarrow> string \<Rightarrow> json \<Rightarrow> jobject \<Rightarrow> jobject server_step" where
  "confirmed_action e g action request_id parameters request s =
     (case parameters of
        JObj kvs \<Rightarrow>
          (case map_of (sv_completed (fst s)) request_id of
             Some done_reply \<Rightarrow> (Inr done_reply, s)
           | None \<Rightarrow>
               let (c, v) = pop_confirmation (jget kvs ''nonce'') (fst s) in
               (case accepted e action kvs c of
                  None \<Rightarrow> (Inl (ControlError (action @ '' confirmation is invalid or expired'')), (v, snd s))
                | Some c \<Rightarrow>
                    let rq = AList.update ''parameters'' (JObj (bound_parameters c kvs)) request in
                    (case control_action e g rq (snd s) of
                       (Inl x, d) \<Rightarrow> (Inl (ServerCrash x), (v, d))
                     | (Inr response, d) \<Rightarrow>
                         if jget response ''outcome'' \<notin> {JStr ''completed'', JStr ''rejected'', JStr ''failed''}
                         then (Inl (ControlError (''controller returned an invalid '' @ action @ '' outcome'')), (v, d))
                         else
                           let response = AList.updates (map fst response) (map snd response)
                                 [(''request_id'', JStr request_id)]
                           in (Inr response, (v\<lparr>sv_completed := AList.update request_id response (sv_completed v)\<rparr>, d)))))
      | _ \<Rightarrow> (Inl (ControlError (action @ '' parameters must be an object'')), s))"

subsection \<open>One connection\<close>

definition rejection :: "json \<Rightarrow> string \<Rightarrow> jobject" where
  "rejection request_id message =
     [(''request_id'', request_id), (''outcome'', JStr ''rejected''), (''reason'', JStr (take 512 message))]"

text \<open>
  \<open>str(token)\<close>; the text of a float, a list or an object never is a URL-safe token.
  \<open>compare_digest\<close> refuses a text that is not ASCII with a \<open>TypeError\<close>.
\<close>

fun token_text :: "json \<Rightarrow> string option" where
  "token_text (JStr t) = Some t"
| "token_text (JInt i) = Some (show_int i)"
| "token_text (JBool b) = Some (if b then ''True'' else ''False'')"
| "token_text JNull = Some ''None''"
| "token_text _ = None"

definition is_ascii :: "string \<Rightarrow> bool" where
  "is_ascii s = list_all (\<lambda>c. (of_char c :: nat) < 128) s"

definition authenticated :: "server \<Rightarrow> jobject \<Rightarrow> server_exn option" where
  "authenticated v rq =
     (if \<not> eq_int (jget rq ''protocol_version'') PROTOCOL_VERSION
      then Some (ControlError ''unsupported protocol version'')
      else if jget rq ''run_id'' \<noteq> JStr (sv_run v) \<or> jget rq ''session_id'' \<noteq> JStr (sv_session v)
      then Some (ControlError ''run or session does not match this controller'')
      else let token = (if map_of rq ''token'' = None then Some [] else token_text (jget rq ''token'')) in
        if token \<noteq> None \<and> \<not> is_ascii (the token) then Some ServerTypeError
        else if token \<noteq> Some (sv_token v) then Some (ControlError ''capability token is invalid'')
        else None)"

definition handle_request :: "env \<Rightarrow> config \<Rightarrow> string \<Rightarrow> string \<Rightarrow> jobject \<Rightarrow> jobject server_step" where
  "handle_request e g nonce request_id rq s =
     (case authenticated (fst s) rq of
        Some x \<Rightarrow> (Inl x, s)
      | None \<Rightarrow>
          (let a = jget rq ''action'' in
           if a = JStr ''get_control_state''
           then (Inr [(''request_id'', JStr request_id), (''outcome'', JStr ''completed''),
                      (''control_state'', JObj (control_state g (snd s)))], s)
           else if a = JStr ''prepare_confirmation''
           then prepare_confirmation e nonce request_id (jget rq ''parameters'') s
           else if \<not> hashable a then (Inl ServerTypeError, s)
           else case a of
             JStr action \<Rightarrow>
               if action \<in> set CONFIRMED_ACTIONS
               then confirmed_action e g action request_id (jget rq ''parameters'') rq s
               else (Inl (ControlError ''action is unavailable''), s)
           | _ \<Rightarrow> (Inl (ControlError ''action is unavailable''), s)))"

text \<open>
  \<open>_handle\<close>: \<open>loads\<close> is the decoding of the line; the identifier of the answer is the one the
  request gave, as far as it was read.
\<close>

definition handle :: "env \<Rightarrow> config \<Rightarrow> (string \<Rightarrow> json option) \<Rightarrow> string \<Rightarrow> bool \<Rightarrow> chunk list \<Rightarrow> jobject server_step" where
  "handle e g loads nonce peer_ok cs s =
     (if \<not> peer_ok then (Inr (rejection (JStr []) ''peer UID is not authorized''), s)
      else case read_line [] cs of
        LineOsError \<Rightarrow> (Inl ServerOsError, s)
      | LineError \<Rightarrow> (Inr (rejection (JStr []) ''control response exceeds 64 KiB or is incomplete''), s)
      | Line l \<Rightarrow>
          (case loads l of
             None \<Rightarrow> (Inr (rejection (JStr []) ''malformed JSON''), s)
           | Some (JObj rq) \<Rightarrow>
               (case jget rq ''request_id'' of
                  JStr q \<Rightarrow>
                    if q = [] then (Inr (rejection (JStr []) ''request ID is required''), s)
                    else (case handle_request e g nonce q rq s of
                            (Inl (ControlError message), t) \<Rightarrow> (Inr (rejection (JStr q) message), t)
                          | r \<Rightarrow> r)
                | v \<Rightarrow> (Inr (rejection v ''request ID is required''), s))
           | Some _ \<Rightarrow> (Inr (rejection (JStr []) ''request must be an object''), s)))"

text \<open>\<open>_serve\<close>: connections in turn; \<open>False\<close> when an uncaught exception has ended the thread.\<close>

record connection =
  cn_env :: env
  cn_nonce :: string
  cn_peer_ok :: bool
  cn_chunks :: "chunk list"

fun serve_connections :: "config \<Rightarrow> (string \<Rightarrow> json option) \<Rightarrow> connection list \<Rightarrow> server \<times> downloader \<Rightarrow>
    bool \<times> (server \<times> downloader)" where
  "serve_connections g loads [] s = (True, s)"
| "serve_connections g loads (c # cs) s =
     (case handle (cn_env c) g loads (cn_nonce c) (cn_peer_ok c) (cn_chunks c) s of
        (Inl _, t) \<Rightarrow> (False, t)
      | (Inr _, t) \<Rightarrow> serve_connections g loads cs t)"

subsection \<open>The line reader\<close>

fun stream :: "chunk list \<Rightarrow> string" where
  "stream (Data d # cs) = (if d = [] then [] else d @ stream cs)"
| "stream _ = []"

lemma read_line_sound:
  assumes "read_line received cs = Line l" and "CHR 0x0A \<notin> set received"
  shows "length l \<le> MAX_MESSAGE_BYTES \<and> CHR 0x0A \<notin> set l \<and> (\<exists>rest. received @ stream cs = l @ CHR 0x0A # rest)"
  using assms
proof (induction received cs rule: read_line.induct)
  case (1 received cs)
  note IH = "1.IH" and pr = "1.prems"
  have len: "\<not> MAX_MESSAGE_BYTES < length received"
    using pr(1) by (subst (asm) read_line.simps) (auto split: if_splits)
  obtain d rest where cs: "cs = Data d # rest" "d \<noteq> []"
    using pr(1) len by (subst (asm) read_line.simps) (auto split: list.splits chunk.splits if_splits)
  define n where "n = min 4096 (MAX_MESSAGE_BYTES + 1 - length received)"
  define rest' where "rest' = (if n < length d then Data (drop n d) # rest else rest)"
  have st: "received @ stream cs = (received @ take n d) @ stream rest'"
  proof (cases "n < length d")
    case True
    then show ?thesis by (simp add: cs rest'_def)
  qed (simp add: cs rest'_def)
  show ?case
  proof (cases "CHR 0x0A \<in> set (take n d)")
    case True
    then have l: "l = takeWhile (\<lambda>c. c \<noteq> CHR 0x0A) (received @ take n d)"
      using pr(1) len cs by (subst (asm) read_line.simps) (simp add: Let_def n_def)
    let ?x = "received @ take n d"
    have drop: "dropWhile (\<lambda>c. c \<noteq> CHR 0x0A) ?x \<noteq> []" using True by (auto simp: dropWhile_eq_Nil_conv)
    then obtain a r where ar: "dropWhile (\<lambda>c. c \<noteq> CHR 0x0A) ?x = a # r"
      by (cases "dropWhile (\<lambda>c. c \<noteq> CHR 0x0A) ?x") auto
    have "a = CHR 0x0A" using hd_dropWhile [OF drop] by (simp add: ar)
    with ar have r: "dropWhile (\<lambda>c. c \<noteq> CHR 0x0A) ?x = CHR 0x0A # r" by simp
    have x: "?x = l @ CHR 0x0A # r" using takeWhile_dropWhile_id [of "\<lambda>c. c \<noteq> CHR 0x0A" ?x] r l by simp
    have "length ?x \<le> MAX_MESSAGE_BYTES + 1" using len by (auto simp: n_def)
    then have "length l \<le> MAX_MESSAGE_BYTES" using arg_cong [OF x, of length] by simp
    moreover have "CHR 0x0A \<notin> set l" by (auto simp: l dest: set_takeWhileD)
    ultimately show ?thesis using st x by auto
  next
    case False
    then have "read_line (received @ take n d) rest' = Line l"
      using pr(1) len cs by (subst (asm) read_line.simps) (simp add: Let_def n_def rest'_def split: if_splits)
    moreover have "CHR 0x0A \<notin> set (received @ take n d)" using False pr(2) by simp
    ultimately show ?thesis
      using IH [OF len cs(1) refl cs(2) n_def refl rest'_def] False st by simp
  qed
qed

text \<open>
  The line reader never hands on more than 64 KiB, and what it hands on is exactly the first
  line of the byte stream, however the kernel cuts the stream into chunks.
\<close>
theorem read_line_is_first_line:
  assumes "read_line [] cs = Line l"
  shows "length l \<le> MAX_MESSAGE_BYTES \<and> (\<exists>rest. stream cs = l @ CHR 0x0A # rest) \<and> CHR 0x0A \<notin> set l"
  using read_line_sound [OF assms] by simp

theorem read_line_is_first_line_witness:
  "read_line [] [Data ''ab'', Data (''c'' @ [CHR 0x0A] @ ''d'')] = Line ''abc'' \<and>
   (\<exists>rest. stream [Data ''ab'', Data (''c'' @ [CHR 0x0A] @ ''d'')] = ''abc'' @ CHR 0x0A # rest)"
proof -
  have "read_line [] [Data ''ab'', Data (''c'' @ [CHR 0x0A] @ ''d'')] = Line ''abc''"
    by (simp add: read_line.simps MAX_MESSAGE_BYTES_def)
  with read_line_is_first_line [OF this] show ?thesis by blast
qed

subsection \<open>What a confirmation authorises\<close>

lemma pop_confirmation_facts:
  assumes "pop_confirmation nonce v = (c, v')"
  shows "sv_completed v' = sv_completed v"
    "c = Some x \<Longrightarrow> \<exists>n. nonce = JStr n \<and> map_of (sv_confirmations v) n = Some x \<and> map_of (sv_confirmations v') n = None"
  using assms by (auto simp: pop_confirmation_def delete_conv split: json.splits)

lemma acceptedD:
  "accepted e action kvs c = Some x \<Longrightarrow> c = Some x \<and> cf_action x = action \<and> e_mono e \<le> cf_expires x \<and>
     jget kvs ''confirmation'' = JStr action"
  by (auto simp: accepted_def split: option.splits if_splits)

text \<open>What makes \<open>confirmed_action\<close> run the action, and with which request.\<close>

definition authorises :: "env \<Rightarrow> server \<Rightarrow> string \<Rightarrow> string \<Rightarrow> jobject \<Rightarrow> string \<Rightarrow> confirmation \<Rightarrow> bool" where
  "authorises e v request_id action kvs n c \<longleftrightarrow>
     jget kvs ''nonce'' = JStr n \<and> map_of (sv_confirmations v) n = Some c \<and> cf_action c = action \<and>
     e_mono e \<le> cf_expires c \<and> jget kvs ''confirmation'' = JStr action \<and>
     map_of (sv_completed v) request_id = None"

lemma confirmed_action_runs:
  assumes "confirmed_action e g action q parameters rq s = (r, t)" and "snd t \<noteq> snd s"
  shows "\<exists>kvs n c. parameters = JObj kvs \<and> authorises e (fst s) q action kvs n c \<and>
    map_of (sv_confirmations (fst t)) n = None \<and>
    snd t = snd (control_action e g (AList.update ''parameters'' (JObj (bound_parameters c kvs)) rq) (snd s))"
proof (cases parameters)
  case (JObj kvs)
  obtain c v where pop: "pop_confirmation (jget kvs ''nonce'') (fst s) = (c, v)"
    by (cases "pop_confirmation (jget kvs ''nonce'') (fst s)")
  have fresh: "map_of (sv_completed (fst s)) q = None"
    using assms by (auto simp: confirmed_action_def JObj split: option.splits)
  from assms obtain x where x: "accepted e action kvs c = Some x"
    by (auto simp: confirmed_action_def JObj fresh pop split: option.splits)
  note xa = acceptedD [OF x]
  from pop_confirmation_facts(2) [OF pop, of x] xa obtain n where n: "jget kvs ''nonce'' = JStr n"
    "map_of (sv_confirmations (fst s)) n = Some x" "map_of (sv_confirmations v) n = None" by blast
  have "authorises e (fst s) q action kvs n x"
    using xa n fresh by (simp add: authorises_def)
  moreover have "snd t = snd (control_action e g (AList.update ''parameters'' (JObj (bound_parameters x kvs)) rq) (snd s))"
    and "sv_confirmations (fst t) = sv_confirmations v"
    using assms by (auto simp: confirmed_action_def JObj fresh pop x Let_def split: prod.splits sum.splits if_splits)
  ultimately show ?thesis using JObj n by auto
qed (use assms in \<open>simp_all add: confirmed_action_def\<close>)

lemma prepare_confirmation_state:
  "snd (snd (prepare_confirmation e nonce q ps s)) = snd s"
  by (simp add: prepare_confirmation_def split: sum.splits)

text \<open>
  C6: the command channel changes the controller only on a confirmed, authenticated request.
  If handling a request changes the controller's state at all, then the request carried the
  run, session and token of this server, named a confirmed action, and spent an unexpired nonce
  that was prepared for that same action; the nonce cannot be used again, and the action ran
  with the item list, priority and cooldown that were prepared, whatever the request said.
\<close>
theorem only_confirmed_requests_act:
  assumes "handle_request e g nonce q rq s = (r, t)" and "snd t \<noteq> snd s"
  shows "\<exists>action kvs n c. authenticated (fst s) rq = None \<and> jget rq ''action'' = JStr action \<and>
    action \<in> set CONFIRMED_ACTIONS \<and> jget rq ''parameters'' = JObj kvs \<and>
    authorises e (fst s) q action kvs n c \<and> map_of (sv_confirmations (fst t)) n = None \<and>
    snd t = snd (control_action e g (AList.update ''parameters'' (JObj (bound_parameters c kvs)) rq) (snd s))"
proof -
  have au: "authenticated (fst s) rq = None"
    using assms by (auto simp: handle_request_def split: option.splits)
  obtain action where a: "jget rq ''action'' = JStr action" "action \<in> set CONFIRMED_ACTIONS"
    and c: "confirmed_action e g action q (jget rq ''parameters'') rq s = (r, t)"
  proof (cases "jget rq ''action''")
    case (JStr action)
    have "action \<noteq> ''get_control_state''" using assms JStr by (auto simp: handle_request_def au)
    moreover have "action \<noteq> ''prepare_confirmation''"
      using assms JStr prepare_confirmation_state [of e nonce q "jget rq ''parameters''" s]
      by (auto simp: handle_request_def au)
    ultimately show ?thesis using assms JStr that
      by (auto simp: handle_request_def au split: if_splits)
  qed (use assms in \<open>auto simp: handle_request_def au\<close>)
  from confirmed_action_runs [OF c assms(2)] a au show ?thesis by blast
qed

definition example_server :: server where
  "example_server = (new_server ''r'' ''s'' ''t'')\<lparr>sv_confirmations :=
     [(''n1'', \<lparr>cf_action = ''pause_admission'', cf_expires = 60, cf_items = None, cf_priority = None, cf_cooldown = None\<rparr>)]\<rparr>"

definition example_confirmed :: jobject where
  "example_confirmed = [(''protocol_version'', JInt 1), (''request_id'', JStr ''q1''), (''run_id'', JStr ''r''),
     (''session_id'', JStr ''s''), (''token'', JStr ''t''), (''action'', JStr ''pause_admission''),
     (''parameters'', JObj [(''nonce'', JStr ''n1''), (''confirmation'', JStr ''pause_admission'')])]"

theorem only_confirmed_requests_act_witness:
  "\<exists>r t n. handle_request example_env example_config ''x'' ''q1'' example_confirmed (example_server, example_state) = (r, t) \<and>
     x_paused (snd t) \<and> \<not> x_paused example_state \<and> map_of (sv_confirmations (fst t)) n = None \<and>
     authenticated example_server example_confirmed = None"
proof -
  let ?h = "handle_request example_env example_config ''x'' ''q1'' example_confirmed (example_server, example_state)"
  obtain r t where h: "?h = (r, t)" by (cases ?h)
  have "x_paused (snd (snd ?h))"
    by (simp add: handle_request_def authenticated_def example_confirmed_def example_server_def new_server_def jget_def
        PROTOCOL_VERSION_def is_ascii_def Let_def CONFIRMED_ACTIONS_def confirmed_action_def pop_confirmation_def
        accepted_def example_env_def bound_parameters_def control_action_def handlers_def
        control_pause_admission_def admission_action_def request_ids_def find_control_def example_db_def
        empty_db_def decide_pause_def example_state_def init_downloader_def notify_def
        set_projection_revision_def reply_at_def reply_def)
  with h have p: "x_paused (snd t)" by simp
  have np: "\<not> x_paused example_state" by (simp add: example_state_def init_downloader_def)
  with p have "snd t \<noteq> snd (example_server, example_state)" by auto
  from only_confirmed_requests_act [OF h this] show ?thesis using h p np by auto
qed

subsection \<open>A silent client ends the channel\<close>

text \<open>
  The serving thread does not survive a client that connects and sends nothing (or half a
  line) until the socket times out: the \<open>OSError\<close> of \<open>recv\<close> is none of the exceptions \<open>_handle\<close>
  catches, so the loop ends and no later request of the session is ever served.
\<close>
theorem silent_client_ends_control:
  assumes "read_line [] (cn_chunks c) = LineOsError" and "cn_peer_ok c"
  shows "serve_connections g loads (c # cs) s = (False, s)"
  by (simp add: handle_def assms)

definition silent_client :: connection where
  "silent_client = \<lparr>cn_env = example_env, cn_nonce = ''n'', cn_peer_ok = True, cn_chunks = [Data ''half a line'', RecvError]\<rparr>"

theorem silent_client_ends_control_witness:
  "serve_connections example_config (\<lambda>l. None) [silent_client] (new_server ''r'' ''s'' ''t'', example_state) =
     (False, (new_server ''r'' ''s'' ''t'', example_state))"
  by (rule silent_client_ends_control)
     (simp_all add: silent_client_def read_line.simps MAX_MESSAGE_BYTES_def)

end
