(* ===== verification/Paths.thy ===== *)
theory Paths
  imports Provenance
begin

text \<open>
  URLs and destination paths (\<open>src/tod-dl.py\<close>: \<open>is_unsafe_relative\<close>, \<open>relative_path\<close>,
  \<open>legacy_relative_path\<close>, \<open>storage_relative\<close>), with the parts of \<open>urllib.parse\<close> and \<open>pathlib\<close>
  they use: \<open>urlsplit\<close>, percent-decoding with UTF-8 replacement, and \<open>PurePosixPath\<close>.
\<close>

subsection \<open>\<open>PurePosixPath\<close>\<close>

text \<open>A path is absolute or not and has components; empty ones and \<open>.\<close> are dropped.\<close>

record ppath =
  pp_absolute :: bool
  pp_names :: "string list"

definition parse_path :: "string \<Rightarrow> ppath" where
  "parse_path s = \<lparr>pp_absolute = starts_with ''/'' s, pp_names = posix_parts s\<rparr>"

text \<open>\<open>p.parts\<close>: the root is the first part of an absolute path.\<close>

definition path_parts :: "ppath \<Rightarrow> string list" where
  "path_parts p = (if pp_absolute p then [''/''] else []) @ pp_names p"

text \<open>\<open>a / b\<close>: an absolute right side replaces the left.\<close>

definition join_path :: "ppath \<Rightarrow> ppath \<Rightarrow> ppath" where
  "join_path a b = (if pp_absolute b then b else a\<lparr>pp_names := pp_names a @ pp_names b\<rparr>)"

definition empty_path :: ppath where
  "empty_path = \<lparr>pp_absolute = False, pp_names = []\<rparr>"

text \<open>\<open>PurePosixPath(*segments)\<close>.\<close>

definition path_of_segments :: "string list \<Rightarrow> ppath" where
  "path_of_segments ss = foldl (\<lambda>p s. join_path p (parse_path s)) empty_path ss"

definition as_posix :: "ppath \<Rightarrow> string" where
  "as_posix p =
     (if pp_absolute p then ''/'' @ join_with ''/'' (pp_names p)
      else if pp_names p = [] then ''.'' else join_with ''/'' (pp_names p))"

definition is_unsafe_relative :: "ppath \<Rightarrow> bool" where
  "is_unsafe_relative p =
     (pp_absolute p \<or> list_ex (\<lambda>part. part = ''..'' \<or> CHR 0x00 \<in> set part) (path_parts p))"

subsection \<open>Percent-decoding\<close>

definition hex_value :: "char \<Rightarrow> nat" where
  "hex_value c = (if is_digit c then of_char c - 48 else of_char (lower_char c) - 87)"

fun unquote_to_bytes :: "string \<Rightarrow> string" where
  "unquote_to_bytes (p # a # b # s) =
     (if p = CHR ''%'' \<and> is_hex a \<and> is_hex b
      then char_of (16 * hex_value a + hex_value b) # unquote_to_bytes s
      else p # unquote_to_bytes (a # b # s))"
| "unquote_to_bytes s = s"

text \<open>
  \<open>decode("utf-8", "replace")\<close>, kept as bytes: an invalid sequence becomes U+FFFD, and as
  much of it is consumed as could have started a valid one.
\<close>

definition REPLACEMENT :: string where "REPLACEMENT = [CHR 0xEF, CHR 0xBF, CHR 0xBD]"

definition byte_in :: "nat \<Rightarrow> nat \<Rightarrow> char \<Rightarrow> bool" where
  "byte_in lo hi c = (let n = of_char c :: nat in lo \<le> n \<and> n \<le> hi)"

text \<open>For a leading byte: the range of the second byte and how many further bytes follow it.\<close>

definition utf8_lead :: "char \<Rightarrow> (nat \<times> nat \<times> nat) option" where
  "utf8_lead c =
     (if byte_in 0xC2 0xDF c then Some (0x80, 0xBF, 0)
      else if byte_in 0xE0 0xE0 c then Some (0xA0, 0xBF, 1)
      else if byte_in 0xED 0xED c then Some (0x80, 0x9F, 1)
      else if byte_in 0xE1 0xEF c then Some (0x80, 0xBF, 1)
      else if byte_in 0xF0 0xF0 c then Some (0x90, 0xBF, 2)
      else if byte_in 0xF1 0xF3 c then Some (0x80, 0xBF, 2)
      else if byte_in 0xF4 0xF4 c then Some (0x80, 0x8F, 2)
      else None)"

text \<open>The bytes of one sequence that are valid so far, and whether it is complete.\<close>

definition utf8_take :: "char \<Rightarrow> string \<Rightarrow> string \<times> bool" where
  "utf8_take c s =
     (case utf8_lead c of
        None \<Rightarrow> ([c], False)
      | Some (lo, hi, k) \<Rightarrow>
          (case s of
             [] \<Rightarrow> ([c], False)
           | d # t \<Rightarrow>
               if \<not> byte_in lo hi d then ([c], False)
               else let cont = takeWhile (byte_in 0x80 0xBF) (take k t)
                    in (c # d # cont, length cont = k)))"

function utf8_replace :: "string \<Rightarrow> string" where
  "utf8_replace [] = []"
| "utf8_replace (c # s) =
     (if byte_in 0 0x7F c then c # utf8_replace s
      else let (seq, ok) = utf8_take c s in
        (if ok then seq else REPLACEMENT) @ utf8_replace (drop (length seq - 1) s))"
  by pat_completeness auto
termination by (relation "measure length") auto

text \<open>\<open>unquote\<close> decodes each run of ASCII characters by itself.\<close>

function unquote_runs :: "string \<Rightarrow> string" where
  "unquote_runs [] = []"
| "unquote_runs (c # s) =
     (if byte_in 0 0x7F c
      then utf8_replace (unquote_to_bytes (c # takeWhile (byte_in 0 0x7F) s)) @ unquote_runs (dropWhile (byte_in 0 0x7F) s)
      else c # unquote_runs s)"
  by pat_completeness auto
termination by (relation "measure length") (auto simp: le_imp_less_Suc length_dropWhile_le)

definition unquote :: "string \<Rightarrow> string" where
  "unquote s = (if CHR ''%'' \<in> set s then unquote_runs s else s)"

subsection \<open>\<open>urlsplit\<close>\<close>

record url_parts =
  up_netloc :: string
  up_path :: string
  up_query :: string

text \<open>The fragment is cut first, then the query.\<close>

definition urlsplit :: "string \<Rightarrow> url_parts option" where
  "urlsplit u =
     (case urlsplit_netloc u of
        None \<Rightarrow> None
      | Some n \<Rightarrow>
          let rest = snd (split_netloc (drop_scheme (clean_url u)));
              (before, _, _) = py_partition (CHR ''#'') rest;
              (path, _, query) = py_partition (CHR ''?'') before
          in Some \<lparr>up_netloc = n, up_path = path, up_query = query\<rparr>)"

definition url_scheme :: "string \<Rightarrow> string" where
  "url_scheme u =
     (let (h, found, t) = py_partition (CHR '':'') (clean_url u) in
      if found \<and> h \<noteq> [] \<and> (is_lower (hd h) \<or> is_upper (hd h)) \<and> list_all scheme_char h then str_lower h else [])"

text \<open>User name and password: what precedes the last \<open>@\<close>, cut at the first colon.\<close>

definition userinfo :: "string \<Rightarrow> string option" where
  "userinfo n =
     (if CHR ''@'' \<in> set n
      then Some (rev (drop 1 (dropWhile (\<lambda>c. c \<noteq> CHR ''@'') (rev n)))) else None)"

definition username_or_password :: "string \<Rightarrow> bool" where
  "username_or_password n =
     (case userinfo n of
        None \<Rightarrow> False
      | Some u \<Rightarrow> let (name, _, password) = py_partition (CHR '':'') u in name \<noteq> [] \<or> password \<noteq> [])"

subsection \<open>The destination path of a URL\<close>

datatype path_error = BadUrl | HasCredentials | NotDataFile | UnsafeUrlPath

definition url_segments :: "string \<Rightarrow> path_error + (string \<times> string)" where
  "url_segments url =
     (case urlsplit url of
        None \<Rightarrow> Inl BadUrl
      | Some p \<Rightarrow>
          if username_or_password (up_netloc p) \<or> up_query p \<noteq> [] then Inl HasCredentials
          else
            let (first, found, rest) = py_partition (CHR ''/'') (dropWhile (\<lambda>c. c = CHR ''/'') (up_path p))
            in if \<not> found \<or> rest \<in> {[], ''ALL_FILES'', ''data/ALL_FILES''} then Inl NotDataFile
               else Inr (first, rest))"

definition relative_path :: "string \<Rightarrow> path_error + ppath" where
  "relative_path url =
     (case url_segments url of
        Inl x \<Rightarrow> Inl x
      | Inr (first, rest) \<Rightarrow>
          let tail = map unquote (path_parts (parse_path rest));
              path = join_path (parse_path (unquote first)) (path_of_segments tail)
          in if is_unsafe_relative path then Inl UnsafeUrlPath else Inr path)"

definition legacy_relative_path :: "string \<Rightarrow> ppath option" where
  "legacy_relative_path url =
     (case url_segments url of
        Inl _ \<Rightarrow> None
      | Inr (first, rest) \<Rightarrow>
          let path = join_path (parse_path first) (parse_path rest)
          in if is_unsafe_relative path then None else Some path)"

text \<open>
  \<open>storage_relative\<close>: \<open>name_max\<close> is what \<open>pathconf\<close> says (\<open>None\<close> when it fails), \<open>base\<close> the
  byte length of the resolved destination (which is not the root directory).
\<close>

definition storage_relative :: "(string \<Rightarrow> string) \<Rightarrow> nat option \<Rightarrow> nat \<Rightarrow> ppath \<Rightarrow> ppath" where
  "storage_relative sha name_max base path =
     (let limit = min 240 (max 1 ((case name_max of None \<Rightarrow> 240 | Some n \<Rightarrow> n) - 1));
          names = map (\<lambda>c. if limit < length c then ''__longname__'' @ sha c else c) (path_parts path);
          stored = path_of_segments names
      in if 3800 < base + (if pp_names stored = [] then 0 else 1 + length (as_posix stored))
         then parse_path (''__longpath__'' @ sha (as_posix path)) else stored)"

subsection \<open>Paths that stay inside\<close>

definition plain_name :: "string \<Rightarrow> bool" where
  "plain_name n \<longleftrightarrow> n \<noteq> [] \<and> n \<noteq> ''.'' \<and> CHR ''/'' \<notin> set n"

lemma posix_parts_plain: "n \<in> set (posix_parts s) \<Longrightarrow> plain_name n"
  using split_on_no_sep [of "CHR ''/''" s] by (auto simp: posix_parts_def plain_name_def)

lemma posix_parts_word: "plain_name n \<Longrightarrow> posix_parts n = [n]"
  by (simp add: posix_parts_def split_on_word plain_name_def)

lemma parse_path_plain: "n \<in> set (pp_names (parse_path s)) \<Longrightarrow> plain_name n"
  by (simp add: parse_path_def posix_parts_plain)

lemma join_path_plain:
  "n \<in> set (pp_names (join_path a b)) \<Longrightarrow> n \<in> set (pp_names a) \<or> n \<in> set (pp_names b)"
  by (auto simp: join_path_def split: if_splits)

lemma path_of_segments_plain:
  "n \<in> set (pp_names (path_of_segments ss)) \<Longrightarrow> plain_name n"
proof (induction ss rule: rev_induct)
  case (snoc s ss)
  then show ?case
    by (auto simp: path_of_segments_def dest!: join_path_plain intro: parse_path_plain)
qed (simp add: path_of_segments_def empty_path_def)

text \<open>A path below the destination, one that no \<open>..\<close> and no absolute part can leave.\<close>

definition inside :: "ppath \<Rightarrow> bool" where
  "inside p \<longleftrightarrow> \<not> pp_absolute p \<and>
     (\<forall>n \<in> set (pp_names p). plain_name n \<and> n \<noteq> ''..'' \<and> CHR 0x00 \<notin> set n)"

lemma inside_iff:
  "\<forall>n \<in> set (pp_names p). plain_name n \<Longrightarrow> inside p \<longleftrightarrow> \<not> is_unsafe_relative p"
  by (auto simp: inside_def is_unsafe_relative_def path_parts_def list_ex_iff)

text \<open>
  What the operating system does with \<open>base / p\<close>: walk the components, \<open>..\<close> going up.
\<close>

definition walk :: "string list \<Rightarrow> ppath \<Rightarrow> string list" where
  "walk base p =
     foldl (\<lambda>cur n. if n = ''..'' then butlast cur else cur @ [n]) (if pp_absolute p then [] else base) (pp_names p)"

lemma walk_inside:
  assumes "inside p"
  shows "walk base p = base @ pp_names p"
proof -
  have "foldl (\<lambda>cur n. if n = ''..'' then butlast cur else cur @ [n]) b ns = b @ ns" if "''..'' \<notin> set ns" for b ns
    using that by (induction ns arbitrary: b) auto
  moreover have "''..'' \<notin> set (pp_names p)" using assms by (auto simp: inside_def)
  ultimately show ?thesis using assms by (simp add: walk_def inside_def)
qed

lemma relative_path_inside:
  assumes "relative_path url = Inr p"
  shows "inside p"
proof -
  obtain first rest where p: "p = join_path (parse_path (unquote first))
      (path_of_segments (map unquote (path_parts (parse_path rest))))" and safe: "\<not> is_unsafe_relative p"
    using assms by (auto simp: relative_path_def Let_def split: sum.splits if_splits)
  have "\<forall>n \<in> set (pp_names p). plain_name n"
    unfolding p by (auto dest!: join_path_plain intro: parse_path_plain path_of_segments_plain)
  with safe show ?thesis by (simp add: inside_iff)
qed

lemma legacy_relative_path_inside:
  assumes "legacy_relative_path url = Some p"
  shows "inside p"
proof -
  obtain first rest where p: "p = join_path (parse_path first) (parse_path rest)" and safe: "\<not> is_unsafe_relative p"
    using assms by (auto simp: legacy_relative_path_def Let_def split: sum.splits if_splits)
  have "\<forall>n \<in> set (pp_names p). plain_name n"
    unfolding p by (auto dest!: join_path_plain intro: parse_path_plain)
  with safe show ?thesis by (simp add: inside_iff)
qed

text \<open>
  C7: no queue URL can name a file outside the destination.  Whatever bytes, percent-escapes,
  empty or dotted segments the URL has, when \<open>relative_path\<close> (or its undecoded predecessor)
  accepts it, resolving the result against any destination directory stays below it, component
  by component.
\<close>
theorem url_paths_stay_inside:
  "(\<forall>p. relative_path url = Inr p \<longrightarrow> inside p \<and> walk base p = base @ pp_names p) \<and>
   (\<forall>p. legacy_relative_path url = Some p \<longrightarrow> inside p \<and> walk base p = base @ pp_names p)"
  using relative_path_inside legacy_relative_path_inside walk_inside by blast

theorem url_paths_stay_inside_witness:
  "relative_path ''http://x.onion/share/a%2Fb/c%20d'' = Inr \<lparr>pp_absolute = False, pp_names = [''share'', ''a'', ''b'', ''c d'']\<rparr> \<and>
   relative_path ''http://x.onion/share/%2e%2e/c'' = Inl UnsafeUrlPath \<and>
   walk [''d''] \<lparr>pp_absolute = False, pp_names = [''share'', ''a'', ''b'', ''c d'']\<rparr> = [''d'', ''share'', ''a'', ''b'', ''c d'']"
proof -
  have r: "relative_path ''http://x.onion/share/a%2Fb/c%20d'' = Inr \<lparr>pp_absolute = False, pp_names = [''share'', ''a'', ''b'', ''c d'']\<rparr>"
    by code_simp
  moreover have "relative_path ''http://x.onion/share/%2e%2e/c'' = Inl UnsafeUrlPath"
    by code_simp
  ultimately show ?thesis using url_paths_stay_inside [of "''http://x.onion/share/a%2Fb/c%20d''" "[''d'']"] by simp
qed

text \<open>An escaped slash does separate components, so two URLs share a destination.\<close>

lemma escaped_slash_collides:
  "relative_path ''http://x.onion/share/a%2Fb'' = relative_path ''http://x.onion/share/a/b''"
  by code_simp

text \<open>A URL whose path is only dots is accepted as the destination directory itself.\<close>

lemma dot_url_is_the_destination: "relative_path ''http://x.onion/./.'' = Inr empty_path"
  by code_simp

subsection \<open>Bounded names\<close>

lemma longname_plain: "CHR ''/'' \<notin> set h \<Longrightarrow> plain_name (''__longname__'' @ h)"
  "CHR ''/'' \<notin> set h \<Longrightarrow> plain_name (''__longpath__'' @ h)"
  by (simp_all add: plain_name_def)

lemma no_slash_hex: "match_hex64 h \<Longrightarrow> CHR ''/'' \<notin> set h \<and> CHR 0x00 \<notin> set h"
  by (auto simp: match_hex64_def list_all_iff is_lower_hex_def is_digit_def Let_def)

lemma segments_of_plain:
  "\<forall>n \<in> set ns. plain_name n \<Longrightarrow> path_of_segments ns = \<lparr>pp_absolute = False, pp_names = ns\<rparr>"
proof (induction ns rule: rev_induct)
  case (snoc n ns)
  then have "plain_name n" by simp
  then have "parse_path n = \<lparr>pp_absolute = False, pp_names = [n]\<rparr>"
    by (cases n) (auto simp: parse_path_def posix_parts_word plain_name_def starts_with_def)
  with snoc show ?case by (simp add: path_of_segments_def join_path_def)
qed (simp add: path_of_segments_def empty_path_def)

text \<open>
  C8: the stored path of any accepted URL fits the file system: it stays inside the destination,
  no component is longer than 240 bytes (nor than one byte less than the file system allows,
  unless that is below the 76 bytes of a digest name), and the full path has at most 3800 bytes
  or is a single digest name.
\<close>
theorem storage_paths_are_bounded:
  assumes "inside p" and "\<And>t. match_hex64 (sha t)" and "st = storage_relative sha name_max base p"
  shows "inside st \<and>
    (\<forall>n \<in> set (pp_names st). length n \<le> 240 \<and> (\<forall>k. name_max = Some k \<and> 77 \<le> k \<longrightarrow> length n < k)) \<and>
    (base + (if pp_names st = [] then 0 else 1 + length (as_posix st)) \<le> 3800 \<or> (\<exists>h. pp_names st = [''__longpath__'' @ h]))"
proof -
  define limit where "limit = min 240 (max 1 ((case name_max of None \<Rightarrow> 240 | Some n \<Rightarrow> n) - 1))"
  let ?f = "\<lambda>c. if limit < length c then ''__longname__'' @ sha c else c"
  let ?ns = "map ?f (pp_names p)"
  have hash: "inside \<lparr>pp_absolute = False, pp_names = [pre @ sha t]\<rparr> \<and> length (sha t) = 64"
    if "pre \<in> {''__longname__'', ''__longpath__''}" for pre t
    using that longname_plain no_slash_hex [OF assms(2), of t] assms(2) [of t]
    by (auto simp: inside_def match_hex64_def)
  have parts: "path_parts p = pp_names p" using assms(1) by (simp add: path_parts_def inside_def)
  have ns: "plain_name n \<and> n \<noteq> ''..'' \<and> CHR 0x00 \<notin> set n" if "n \<in> set ?ns" for n
    using that assms(1) hash [of "''__longname__''"] by (auto simp: inside_def)
  have short: "length n \<le> limit \<or> length n = 76" if "n \<in> set ?ns" for n
    using that hash [of "''__longname__''"] by auto
  have stored: "path_of_segments ?ns = \<lparr>pp_absolute = False, pp_names = ?ns\<rparr>"
    using ns by (intro segments_of_plain) blast
  have lim: "limit \<le> 240" "name_max = Some k \<Longrightarrow> 77 \<le> k \<Longrightarrow> limit < k" for k
    by (auto simp: limit_def)
  have eq: "st = (if 3800 < base + (if ?ns = [] then 0 else 1 + length (as_posix (path_of_segments ?ns)))
      then parse_path (''__longpath__'' @ sha (as_posix p)) else path_of_segments ?ns)"
    by (simp only: assms(3) storage_relative_def Let_def parts limit_def [symmetric] stored ppath.simps)
  show ?thesis
  proof (cases "3800 < base + (if ?ns = [] then 0 else 1 + length (as_posix (path_of_segments ?ns)))")
    case True
    have pl: "plain_name (''__longpath__'' @ sha t)" for t using hash [of "''__longpath__''" t] by (simp add: inside_def)
    have "st = parse_path (''__longpath__'' @ sha (as_posix p))"
      by (simp only: eq True if_True)
    then have "st = \<lparr>pp_absolute = False, pp_names = [''__longpath__'' @ sha (as_posix p)]\<rparr>"
      using posix_parts_word [OF pl] by (simp add: parse_path_def starts_with_def)
    then show ?thesis using hash [of "''__longpath__''" "as_posix p"] by simp
  next
    case False
    then have st: "st = \<lparr>pp_absolute = False, pp_names = ?ns\<rparr>"
      by (simp only: eq if_False stored)
    have "base + (if pp_names st = [] then 0 else 1 + length (as_posix st)) \<le> 3800"
      using False by (auto simp: st stored as_posix_def split: if_splits)
    moreover have "inside st" using ns by (auto simp: st inside_def)
    moreover have "length n \<le> 240 \<and> (\<forall>k. name_max = Some k \<and> 77 \<le> k \<longrightarrow> length n < k)" if "n \<in> set ?ns" for n
      using short [OF that] lim by (auto intro: le_less_trans)
    ultimately show ?thesis by (simp add: st)
  qed
qed

definition paths_sha :: "string \<Rightarrow> string" where
  "paths_sha t = replicate 63 (CHR ''0'') @ [hex_digit (length t mod 16)]"

lemma paths_sha_hex: "match_hex64 (paths_sha t)"
  by (auto simp: match_hex64_def paths_sha_def hex_digit_def is_lower_hex_def is_digit_def list_all_iff)

theorem storage_paths_are_bounded_witness:
  "inside \<lparr>pp_absolute = False, pp_names = [''share'', replicate 300 (CHR ''a'')]\<rparr> \<and>
   list_all (\<lambda>n. length n \<le> 240) (pp_names (storage_relative paths_sha (Some 255) 20
       \<lparr>pp_absolute = False, pp_names = [''share'', replicate 300 (CHR ''a'')]\<rparr>))"
proof -
  have i: "inside \<lparr>pp_absolute = False, pp_names = [''share'', replicate 300 (CHR ''a'')]\<rparr>"
    by (simp add: inside_def plain_name_def) (simp add: numeral_eq_Suc)
  from storage_paths_are_bounded [OF i _ refl, of paths_sha "Some 255" 20] paths_sha_hex i
  show ?thesis unfolding list_all_iff by blast
qed

end
