(* ===== verification/Queue.thy ===== *)
theory Queue
  imports Paths Downloader
begin

text \<open>
  Reading of text in \<open>src/tod-dl.py\<close>: queue files (\<open>parse_queue_line_tokens\<close>, \<open>read_queues\<close>),
  the classification of aria2's error texts, the aria2 response log and the Tor control port
  replies.
\<close>

subsection \<open>Queue files\<close>

datatype queue_error =
    DuplicateUrl
  | UnrecognizedToken string
  | DuplicateToken string
  | EmptyToken string
  | BadSha256
  | BadPath path_error

definition QUEUE_LINE_TOKEN_KEYS :: "string list" where
  "QUEUE_LINE_TOKEN_KEYS = [''size'', ''sha256'', ''generation'']"

definition is_sha256 :: "string \<Rightarrow> bool" where
  "is_sha256 v = (length v = 64 \<and> list_all is_hex v)"

fun parse_queue_line_tokens :: "string list \<Rightarrow> (string \<times> string) list \<Rightarrow> queue_error + (string \<times> string) list" where
  "parse_queue_line_tokens [] tokens = Inr tokens"
| "parse_queue_line_tokens (field # rest) tokens =
     (let (key, sep, v) = py_partition (CHR ''='') field in
      if \<not> sep \<or> key \<notin> set QUEUE_LINE_TOKEN_KEYS then Inl (UnrecognizedToken field)
      else if map_of tokens key \<noteq> None then Inl (DuplicateToken key)
      else if v = [] then Inl (EmptyToken key)
      else if key = ''sha256'' \<and> \<not> is_sha256 v then Inl BadSha256
      else parse_queue_line_tokens rest (tokens @ [(key, if key = ''sha256'' then str_lower v else v)]))"

record queue_entry =
  q_url :: string
  q_path :: ppath
  q_size :: "string option"
  q_sha256 :: "string option"
  q_generation :: "string option"

text \<open>
  \<open>read_queues\<close> as a generator: the URLs seen, the entries yielded and the lines rejected.  A
  URL counts as seen once its tokens parse, whether or not its path does.
\<close>

record queue_scan =
  qs_seen :: "string list"
  qs_entries :: "queue_entry list"
  qs_rejected :: "(string \<times> queue_error) list"

definition queue_line :: "string \<Rightarrow> queue_scan \<Rightarrow> queue_scan" where
  "queue_line line s =
     (let stripped = strip line in
      if stripped = [] \<or> starts_with ''#'' stripped then s
      else
        let flds = split_ws stripped; url = hd flds;
            reject = (\<lambda>x s. s\<lparr>qs_rejected := qs_rejected s @ [(url, x)]\<rparr>)
        in if url \<in> set (qs_seen s) then reject DuplicateUrl s
           else case parse_queue_line_tokens (tl flds) [] of
             Inl x \<Rightarrow> reject x s
           | Inr tokens \<Rightarrow>
               let s = s\<lparr>qs_seen := url # qs_seen s\<rparr> in
               (case relative_path url of
                  Inl x \<Rightarrow> reject (BadPath x) s
                | Inr path \<Rightarrow>
                    s\<lparr>qs_entries := qs_entries s @ [\<lparr>q_url = url, q_path = path, q_size = map_of tokens ''size'',
                       q_sha256 = map_of tokens ''sha256'', q_generation = map_of tokens ''generation''\<rparr>]\<rparr>))"

definition start_queue_scan :: queue_scan where
  "start_queue_scan = \<lparr>qs_seen = [], qs_entries = [], qs_rejected = []\<rparr>"

definition read_queues :: "string list list \<Rightarrow> queue_scan" where
  "read_queues files = fold (\<lambda>lines s. fold queue_line lines s) files start_queue_scan"

subsection \<open>Error texts\<close>

definition CONNECTIVITY_MARKERS :: "string list" where
  "CONNECTIVITY_MARKERS = [''SOCKS'', ''NAME RESOLUTION'', ''FAILED TO CONNECT TO THE HOST'',
     ''CONNECTION REFUSED'', ''NO ROUTE TO HOST'', ''CONNECTION TIMED OUT'']"

definition is_connectivity_failure :: "string \<Rightarrow> bool" where
  "is_connectivity_failure error = list_ex (\<lambda>m. contains m (str_upper error)) CONNECTIVITY_MARKERS"

definition is_incomplete_body_failure :: "string \<Rightarrow> bool" where
  "is_incomplete_body_failure error = contains ''GOT EOF FROM THE SERVER'' (str_upper error)"

definition word_char :: "char \<Rightarrow> bool" where
  "word_char c = (is_lower c \<or> is_upper c \<or> is_digit c \<or> c = CHR ''_'')"

definition word_boundary :: "string \<Rightarrow> bool" where
  "word_boundary rest = (case rest of [] \<Rightarrow> True | c # _ \<Rightarrow> \<not> word_char c)"

text \<open>\<open>re.search(r"STATUS=(a|b)\b", s)\<close>.\<close>

fun search_status :: "string list \<Rightarrow> string \<Rightarrow> bool" where
  "search_status codes [] = False"
| "search_status codes (c # s) =
     (list_ex (\<lambda>k. starts_with (''STATUS='' @ k) (c # s) \<and> word_boundary (drop (length (''STATUS='' @ k)) (c # s))) codes
      \<or> search_status codes s)"

definition is_unavailable_failure :: "string \<Rightarrow> bool" where
  "is_unavailable_failure error =
     (let u = str_upper error in contains ''RESOURCE NOT FOUND'' u \<or> search_status [''404'', ''410''] u)"

definition is_access_denied_failure :: "string \<Rightarrow> bool" where
  "is_access_denied_failure error =
     (let u = str_upper error in contains ''AUTHORIZATION FAILED'' u \<or> search_status [''401'', ''403''] u)"

definition is_disk_full_failure :: "string \<Rightarrow> bool" where
  "is_disk_full_failure error = contains ''NO SPACE LEFT ON DEVICE'' (str_upper error)"

definition legacy_name_too_long_error :: "string option \<Rightarrow> bool" where
  "legacy_name_too_long_error error =
     (case error of None \<Rightarrow> False
      | Some t \<Rightarrow> contains ''Errno 36'' t \<and> contains ''File name too long'' t)"

subsection \<open>The aria2 response log\<close>

text \<open>\<open>str.splitlines\<close> on its ASCII line ends.\<close>

function splitlines :: "string \<Rightarrow> string list" where
  "splitlines [] = []"
| "splitlines (c # s) =
     (if c = CHR 0x0D then [] # splitlines (if take 1 s = [CHR 0x0A] then drop 1 s else s)
      else if c \<in> {CHR 0x0A, CHR 0x0B, CHR 0x0C, CHR 0x1C, CHR 0x1D, CHR 0x1E} then [] # splitlines s
      else case splitlines s of [] \<Rightarrow> [[c]] | w # ws \<Rightarrow> (c # w) # ws)"
  by pat_completeness auto
termination by (relation "measure length") auto

definition RESPONSE_HEADER_FIELDS :: "(string \<times> string) list" where
  "RESPONSE_HEADER_FIELDS =
     [(''content-length'', ''response_content_length''), (''content-range'', ''response_content_range''),
      (''content-type'', ''response_content_type''), (''etag'', ''response_etag''),
      (''last-modified'', ''response_last_modified'')]"

text \<open>\<open>re.match(r"HTTP/\d(?:\.\d)? (\d{3})\b", line)\<close>.\<close>

definition match_status_line :: "string \<Rightarrow> int option" where
  "match_status_line l =
     (if starts_with ''HTTP/'' l \<and> drop 5 l \<noteq> [] \<and> is_digit (l ! 5) then
        (let r = drop 6 l;
             r = (case r of a # b # t \<Rightarrow> if a = CHR ''.'' \<and> is_digit b then t else r | _ \<Rightarrow> r)
         in case r of
              sp # a # b # c # t \<Rightarrow>
                if sp = CHR '' '' \<and> is_digit a \<and> is_digit b \<and> is_digit c \<and> word_boundary t
                then Some (int (parse_nat [a, b, c])) else None
            | _ \<Rightarrow> None)
      else None)"

definition header_line :: "string \<Rightarrow> (string \<times> string) list \<Rightarrow> (string \<times> string) list" where
  "header_line line headers =
     (let (name, separator, v) = py_partition (CHR '':'') line; k = str_lower (strip name) in
      if separator \<and> map_of headers k = None then headers @ [(k, strip v)] else headers)"

text \<open>\<open>re.search(r"- Redirecting to (\S+)$", line)\<close>: the leftmost match that reaches the end.\<close>

fun search_redirect :: "string \<Rightarrow> string option" where
  "search_redirect [] = None"
| "search_redirect (c # s) =
     (let r = drop 17 (c # s) in
      if starts_with ''- Redirecting to '' (c # s) \<and> r \<noteq> [] \<and> list_all (\<lambda>x. \<not> is_space x) r then Some r
      else search_redirect s)"

definition not_blank :: "string \<Rightarrow> bool" where
  "not_blank l = (strip l \<noteq> [])"

function response_loop :: "string list \<Rightarrow> string list \<Rightarrow> (int \<times> (string \<times> string) list) option \<Rightarrow>
    string list \<times> (int \<times> (string \<times> string) list) option" where
  "response_loop [] urls response = (urls, response)"
| "response_loop (line # rest) urls response =
     (if ends_with ''Response received:'' line then
        (let status_line = (case rest of [] \<Rightarrow> [] | l # _ \<Rightarrow> l);
             headers = fold header_line (takeWhile not_blank (drop 1 rest)) [];
             response = (case match_status_line status_line of None \<Rightarrow> response | Some n \<Rightarrow> Some (n, headers))
         in response_loop (dropWhile not_blank (drop 1 rest)) urls response)
      else response_loop rest (case search_redirect line of None \<Rightarrow> urls | Some u \<Rightarrow> urls @ [u]) response)"
  by pat_completeness auto
termination
  by (relation "measure (\<lambda>(ls, us, r). length ls)")
     (auto simp: less_Suc_eq_le intro: le_trans [OF length_dropWhile_le])

text \<open>\<open>None\<close> is the \<open>ValueError\<close> of \<open>urlsplit\<close> on one of the URLs.\<close>

definition parse_aria2_response_log :: "string \<Rightarrow> string \<Rightarrow> jobject option" where
  "parse_aria2_response_log text source_url =
     (case response_loop (splitlines text) [source_url] None of
        (urls, None) \<Rightarrow> Some []
      | (urls, Some (status, headers)) \<Rightarrow>
          if list_ex (\<lambda>u. urlsplit_netloc u = None) urls then None
          else
            let credentialed = list_ex (\<lambda>u. CHR ''@'' \<in> set (the (urlsplit_netloc u))) urls in
            Some ([(''http_status'', if 100 \<le> status \<and> status \<le> 599 then JInt status else JNull)] @
              map (\<lambda>(h, f). (f, opt_str (map_of headers h))) RESPONSE_HEADER_FIELDS @
              [(''final_url'', if credentialed then JNull else JStr (last urls)),
               (''redirect_chain'', JArr (if credentialed then [] else map JStr (butlast (tl urls))))]))"

subsection \<open>The Tor control port\<close>

text \<open>
  \<open>control_command\<close> on the bytes the control port sends: the lines up to one that starts with
  \<open>250\<close> and a blank, or with \<open>5\<close>; \<open>None\<close> when the connection closes first.
\<close>

definition rstrip_cr :: "string \<Rightarrow> string" where
  "rstrip_cr s = rev (dropWhile (\<lambda>c. c = CHR 0x0D) (rev s))"

lemma py_partition_shorter:
  "c \<in> set s \<Longrightarrow> (a, b, r) = py_partition c s \<Longrightarrow> length r < length s"
  using length_dropWhile_le [of "\<lambda>x. x \<noteq> c" s]
  by (cases s) (auto simp: py_partition_def)

function control_command :: "string \<Rightarrow> string list option" where
  "control_command bytes =
     (if CHR 0x0A \<notin> set bytes then None
      else
        let (line, _, rest) = py_partition (CHR 0x0A) bytes; t = rstrip_cr line in
        if starts_with ''250 '' t \<or> starts_with ''5'' t then Some [t]
        else map_option (\<lambda>ls. t # ls) (control_command rest))"
  by pat_completeness auto
termination
  by (relation "measure length") (auto dest: py_partition_shorter)

datatype tor_error = BadAddress | ConnectionClosed | AuthenticationFailed | NotIsolated | NewnymRejected

text \<open>\<open>address.rpartition(":")\<close>.\<close>

definition good_address :: "string \<Rightarrow> bool" where
  "good_address a =
     (CHR '':'' \<in> set a \<and>
      (let port = rev (takeWhile (\<lambda>c. c \<noteq> CHR '':'') (rev a));
           host = rev (drop 1 (dropWhile (\<lambda>c. c \<noteq> CHR '':'') (rev a)))
       in host \<noteq> [] \<and> is_decimal port))"

definition authenticate :: "string \<Rightarrow> string \<Rightarrow> tor_error + unit" where
  "authenticate address auth_reply =
     (if \<not> good_address address then Inl BadAddress
      else case control_command auth_reply of
        None \<Rightarrow> Inl ConnectionClosed
      | Some ls \<Rightarrow> if starts_with ''250'' (last ls) then Inr () else Inl AuthenticationFailed)"

definition socks_ports :: "string list \<Rightarrow> string list" where
  "socks_ports response =
     map (\<lambda>l. snd (snd (py_partition (CHR ''='') l)))
       (filter (\<lambda>l. starts_with ''250-'' l \<or> starts_with ''250 SocksPort='' l) response)"

definition verify_tor_isolation :: "string \<Rightarrow> string \<Rightarrow> string \<Rightarrow> tor_error + string list" where
  "verify_tor_isolation address auth_reply conf_reply =
     (case authenticate address auth_reply of
        Inl x \<Rightarrow> Inl x
      | Inr _ \<Rightarrow>
          (case control_command conf_reply of
             None \<Rightarrow> Inl ConnectionClosed
           | Some response \<Rightarrow>
               let ports = socks_ports response in
               if list_ex (\<lambda>p. ''IsolateSOCKSAuth'' \<in> set (split_ws p)) ports then Inr ports else Inl NotIsolated))"

definition send_tor_newnym :: "string \<Rightarrow> string \<Rightarrow> string \<Rightarrow> tor_error + unit" where
  "send_tor_newnym address auth_reply newnym_reply =
     (case authenticate address auth_reply of
        Inl x \<Rightarrow> Inl x
      | Inr _ \<Rightarrow>
          (case control_command newnym_reply of
             None \<Rightarrow> Inl ConnectionClosed
           | Some ls \<Rightarrow> if starts_with ''250'' (last ls) then Inr () else Inl NewnymRejected))"

text \<open>\<open>aria2_log_terminal_status\<close> on the text of the log.\<close>

definition aria2_log_terminal_status :: "string option \<Rightarrow> string option" where
  "aria2_log_terminal_status log_text =
     (case log_text of
        None \<Rightarrow> None
      | Some t \<Rightarrow>
          if list_ex (contains ''errorCode='') (splitlines t) then Some ''error''
          else if list_ex (contains ''Download complete:'') (splitlines t) then Some ''complete''
          else None)"

text \<open>\<open>aria2_rpc_job_status\<close>: \<open>call\<close> is the decoded answer of the RPC call, if any.\<close>

definition terminal_status :: "json \<Rightarrow> string option" where
  "terminal_status v =
     (case v of
        JObj kvs \<Rightarrow>
          (case jget kvs ''status'' of
             JStr st \<Rightarrow> if st \<in> {''complete'', ''error'', ''removed''} then Some st else None
           | _ \<Rightarrow> None)
      | _ \<Rightarrow> None)"

definition aria2_rpc_job_status :: "bool \<Rightarrow> jobject option \<Rightarrow> string option" where
  "aria2_rpc_job_status has_gid response =
     (let result = (case response of None \<Rightarrow> JNull | Some [] \<Rightarrow> JNull | Some kvs \<Rightarrow> jget kvs ''result'') in
      if has_gid then terminal_status result
      else (case result of JArr (v # _) \<Rightarrow> terminal_status v | _ \<Rightarrow> None))"

subsection \<open>What the queue reader yields\<close>

definition significant :: "string \<Rightarrow> bool" where
  "significant line = (strip line \<noteq> [] \<and> \<not> starts_with ''#'' (strip line))"

lemma parse_tokens_keys:
  assumes "parse_queue_line_tokens flds tokens = Inr ts"
    and "\<And>v. map_of tokens ''sha256'' = Some v \<Longrightarrow> length v = 64 \<and> list_all is_lower_hex v"
  shows "map_of ts ''sha256'' = Some v \<Longrightarrow> length v = 64 \<and> list_all is_lower_hex v"
  using assms
proof (induction flds tokens rule: parse_queue_line_tokens.induct)
  case (2 field rest tokens)
  obtain k sep v' where f: "py_partition (CHR ''='') field = (k, sep, v')" by (metis surj_pair)
  have lower: "is_lower_hex (lower_char c)" if "is_hex c" for c
  proof -
    have "lower_char c = c" if "(of_char c :: nat) < 65 \<or> 90 < (of_char c :: nat)"
      using that by (auto simp: lower_char_def Let_def)
    moreover have "(of_char c :: nat) < 65 \<or> 90 < (of_char c :: nat) \<Longrightarrow> is_lower_hex c"
      using \<open>is_hex c\<close> by (auto simp: is_hex_def Let_def)
    moreover have "is_lower_hex (lower_char c)" if "65 \<le> (of_char c :: nat)" "(of_char c :: nat) \<le> 90"
      using \<open>is_hex c\<close> that by (auto simp: is_hex_def is_lower_hex_def is_digit_def lower_char_def Let_def)
    ultimately show ?thesis by fastforce
  qed
  have hex: "length (str_lower v') = 64 \<and> list_all is_lower_hex (str_lower v')" if "is_sha256 v'"
    using that lower by (auto simp: is_sha256_def list_all_iff)
  from 2(3) have ok: "sep" "k \<in> set QUEUE_LINE_TOKEN_KEYS" "map_of tokens k = None" "v' \<noteq> []"
    "k = ''sha256'' \<longrightarrow> is_sha256 v'"
    and r: "parse_queue_line_tokens rest (tokens @ [(k, if k = ''sha256'' then str_lower v' else v')]) = Inr ts"
    by (auto simp: f split: if_splits)
  show ?case
  proof (rule "2.IH" [OF f [symmetric] refl refl _ _ _ _ "2.prems"(1) r])
    fix w assume "map_of (tokens @ [(k, if k = ''sha256'' then str_lower v' else v')]) ''sha256'' = Some w"
    then show "length w = 64 \<and> list_all is_lower_hex w"
      using 2(4) hex ok(5) by (auto simp: map_add_def split: option.splits if_splits)
  qed (use ok in auto)
qed simp

definition scan_ok :: "queue_scan \<Rightarrow> bool" where
  "scan_ok s \<longleftrightarrow> distinct (map q_url (qs_entries s)) \<and> set (map q_url (qs_entries s)) \<subseteq> set (qs_seen s) \<and>
     (\<forall>x \<in> set (qs_entries s). relative_path (q_url x) = Inr (q_path x) \<and>
        (\<forall>h. q_sha256 x = Some h \<longrightarrow> length h = 64 \<and> list_all is_lower_hex h))"

lemma queue_line_ok: "scan_ok s \<Longrightarrow> scan_ok (queue_line line s)"
  by (auto simp: queue_line_def scan_ok_def Let_def dest: parse_tokens_keys split: sum.splits)

lemma queue_line_count:
  "length (qs_entries (queue_line line s)) + length (qs_rejected (queue_line line s)) =
   length (qs_entries s) + length (qs_rejected s) + (if significant line then 1 else 0)"
  by (auto simp: queue_line_def significant_def Let_def split: sum.splits)

lemma queue_lines:
  assumes "scan_ok s"
  shows "scan_ok (fold queue_line ls s) \<and>
    length (qs_entries (fold queue_line ls s)) + length (qs_rejected (fold queue_line ls s)) =
    length (qs_entries s) + length (qs_rejected s) + length (filter significant ls)"
  using assms
proof (induction ls arbitrary: s)
  case (Cons l ls)
  from Cons.IH [OF queue_line_ok [OF Cons.prems]] show ?case
    using queue_line_count [of l s] by simp
qed simp

text \<open>
  C10: the queue reader loses no line and yields no URL twice.  Over any queue files, every line
  that is not blank or a comment gives exactly one entry or one rejection; the entries have
  distinct URLs, carry the safe path their URL decodes to (inside the destination), and an
  expected digest is always 64 lower-case hex digits.
\<close>
theorem read_queues_sound:
  "length (qs_entries (read_queues files)) + length (qs_rejected (read_queues files)) =
     length (filter significant (concat files)) \<and>
   distinct (map q_url (qs_entries (read_queues files))) \<and>
   (\<forall>x \<in> set (qs_entries (read_queues files)). relative_path (q_url x) = Inr (q_path x) \<and> inside (q_path x) \<and>
      (\<forall>h. q_sha256 x = Some h \<longrightarrow> length h = 64 \<and> list_all is_lower_hex h))"
proof -
  have flat: "read_queues files = fold queue_line (concat files) start_queue_scan"
  proof -
    have "fold (\<lambda>ls s. fold queue_line ls s) files s = fold queue_line (concat files) s" for s
      by (induction files arbitrary: s) auto
    then show ?thesis by (simp add: read_queues_def)
  qed
  have "scan_ok start_queue_scan" by (simp add: scan_ok_def start_queue_scan_def)
  from queue_lines [OF this, of "concat files"] show ?thesis
    unfolding flat [symmetric] by (auto simp: scan_ok_def start_queue_scan_def dest: relative_path_inside)
qed

definition example_queue :: "string list" where
  "example_queue = [''# comment'', ''http://x.onion/s/a size=7'', ''  '', ''http://x.onion/s/a'', ''http://x.onion/s/b size='']"

theorem read_queues_sound_witness:
  "map q_url (qs_entries (read_queues [example_queue])) = [''http://x.onion/s/a''] \<and>
   map snd (qs_rejected (read_queues [example_queue])) = [DuplicateUrl, EmptyToken ''size''] \<and>
   length (filter significant (concat [example_queue])) = 3"
proof -
  have "map q_url (qs_entries (read_queues [example_queue])) = [''http://x.onion/s/a''] \<and>
   map snd (qs_rejected (read_queues [example_queue])) = [DuplicateUrl, EmptyToken ''size'']"
    by code_simp
  moreover from this have "length (qs_entries (read_queues [example_queue])) = 1"
    and "length (qs_rejected (read_queues [example_queue])) = 2"
    using length_map [of q_url "qs_entries (read_queues [example_queue])"]
      length_map [of snd "qs_rejected (read_queues [example_queue])"] by simp_all
  ultimately show ?thesis using read_queues_sound [of "[example_queue]"] by simp
qed

subsection \<open>What a response log can put into the records\<close>

lemma response_urls:
  "set us \<subseteq> set (fst (response_loop ls us r))"
proof (induction ls us r rule: response_loop.induct)
  case (2 line rest urls response)
  then show ?case by (subst response_loop.simps) (auto simp: Let_def split: option.splits)
qed simp

text \<open>
  Whatever a server or a redirect writes into the aria2 log, the response fields the
  controller keeps are fit for the provenance record: their names are those of
  \<open>NO_RESPONSE_FIELDS\<close>, the validators are text or null, and neither the final URL nor a
  redirect carries user credentials, so the writer's credential check cannot fail on them.
\<close>
theorem response_fields_are_safe:
  assumes "parse_aria2_response_log text source_url = Some r"
  shows "set (map fst r) \<subseteq> set (map fst NO_RESPONSE_FIELDS) \<and> distinct (map fst r) \<and>
    text_or_null (jget r ''response_etag'') \<and> text_or_null (jget r ''response_last_modified'') \<and>
    reject_credentialed_url (jget r ''final_url'') = None \<and>
    (\<forall>u \<in> set (arr (jget r ''redirect_chain'')). reject_credentialed_url u = None)"
proof -
  obtain urls resp where l: "response_loop (splitlines text) [source_url] None = (urls, resp)"
    by (cases "response_loop (splitlines text) [source_url] None")
  show ?thesis
  proof (cases resp)
    case None
    with assms l have "r = []" by (simp add: parse_aria2_response_log_def)
    then show ?thesis by (simp add: jget_def text_or_null_def reject_credentialed_url_def)
  next
    case (Some sh)
    obtain status headers where sh: "sh = (status, headers)" by (cases sh)
    define cred where "cred = list_ex (\<lambda>u. CHR ''@'' \<in> set (the (urlsplit_netloc u))) urls"
    have ok: "\<forall>u \<in> set urls. urlsplit_netloc u \<noteq> None"
      and r: "r = [(''http_status'', if 100 \<le> status \<and> status \<le> 599 then JInt status else JNull)] @
              map (\<lambda>(h, f). (f, opt_str (map_of headers h))) RESPONSE_HEADER_FIELDS @
              [(''final_url'', if cred then JNull else JStr (last urls)),
               (''redirect_chain'', JArr (if cred then [] else map JStr (butlast (tl urls))))]"
      using assms l Some sh
      by (auto simp: parse_aria2_response_log_def Let_def cred_def list_ex_iff split: if_splits)
    have mem: "source_url \<in> set urls" using response_urls [of "[source_url]" "splitlines text" None] l by simp
    then have lu: "last urls \<in> set urls" by (metis last_in_set empty_iff empty_set)
    have safe: "reject_credentialed_url (JStr u) = None" if "u \<in> set urls" "\<not> cred" for u
      using ok that by (auto simp: reject_credentialed_url_def cred_def list_ex_iff split: option.splits)
    have sub: "u \<in> set urls" if "u \<in> set (butlast (tl urls))" for u
      using that by (metis in_set_butlastD list.sel(2) list.set_sel(2) tl_Nil)
    have tx: "text_or_null (opt_str v)" for v by (cases v) (simp_all add: text_or_null_def)
    have keys: "map fst r = [''http_status'', ''response_content_length'', ''response_content_range'',
        ''response_content_type'', ''response_etag'', ''response_last_modified'', ''final_url'', ''redirect_chain'']"
      by (simp add: r RESPONSE_HEADER_FIELDS_def)
    have "set (map fst r) \<subseteq> set (map fst NO_RESPONSE_FIELDS)" "distinct (map fst r)"
      unfolding keys by (auto simp: NO_RESPONSE_FIELDS_def)
    moreover have "jget r ''response_etag'' = opt_str (map_of headers ''etag'')"
      "jget r ''response_last_modified'' = opt_str (map_of headers ''last-modified'')"
      "jget r ''final_url'' = (if cred then JNull else JStr (last urls))"
      "jget r ''redirect_chain'' = JArr (if cred then [] else map JStr (butlast (tl urls)))"
      by (simp_all add: r jget_def RESPONSE_HEADER_FIELDS_def)
    ultimately show ?thesis
      using tx safe [OF lu] safe sub by (auto simp: reject_credentialed_url_def)
  qed
qed

definition example_log :: string where
  "example_log = join_with [CHR 0x0A] [''x - Response received:'', ''HTTP/1.1 302 Found'', ''ETag: a'', [],
     ''x - Redirecting to http://u:p@h.onion/s/b'', ''x - Response received:'', ''HTTP/1.1 200 OK'', ''ETag: e1'', []]"

theorem response_fields_are_safe_witness:
  "\<exists>r. parse_aria2_response_log example_log ''http://h.onion/s/a'' = Some r \<and>
     jget r ''http_status'' = JInt 200 \<and> jget r ''response_etag'' = JStr ''e1'' \<and> jget r ''final_url'' = JNull \<and>
     reject_credentialed_url (jget r ''final_url'') = None"
proof -
  have "(case parse_aria2_response_log example_log ''http://h.onion/s/a'' of
     None \<Rightarrow> False | Some r \<Rightarrow> jget r ''http_status'' = JInt 200 \<and> jget r ''response_etag'' = JStr ''e1'' \<and>
       jget r ''final_url'' = JNull)"
    by code_simp
  then obtain r where "parse_aria2_response_log example_log ''http://h.onion/s/a'' = Some r"
    "jget r ''http_status'' = JInt 200" "jget r ''response_etag'' = JStr ''e1''" "jget r ''final_url'' = JNull"
    by (auto split: option.splits)
  with response_fields_are_safe [OF this(1)] show ?thesis by blast
qed

end
