(* ===== verification/FileSystem.thy ===== *)
theory FileSystem
  imports Paths Downloader
begin

text \<open>
  The file system as \<open>src/tod-dl.py\<close> uses it: \<open>lstat\<close>, \<open>exists\<close>, \<open>is_file\<close>, \<open>link\<close>, \<open>unlink\<close>,
  \<open>replace\<close>, \<open>mkdir\<close>, and the helpers of the controller built from them
  (\<open>ensure_safe_parent\<close>, \<open>is_promotable_final_path\<close>, \<open>is_safe_final_path\<close>,
  \<open>is_safe_staging_path\<close>, \<open>move_candidate\<close>, \<open>sha256sum\<close>, \<open>hit_failpoint\<close>).

  A location is the component list of an absolute path.  A name leads to a file (an inode
  number, so that two hard links share their content), a directory, or a symbolic link, which
  carries what following it reaches (\<open>None\<close> when it dangles).  Any system call may fail: the
  argument \<open>fault\<close> says with which error.  \<open>fsync\<close> has no effect on this state.
\<close>

subsection \<open>State and errors\<close>

type_synonym loc = "string list"

datatype node = File nat | Directory | Symlink "node option"

record fs =
  f_node :: "loc \<Rightarrow> node option"
  f_data :: "nat \<Rightarrow> string"

datatype os_error = EEXIST | ENOENT | ENOTDIR | EISDIR | ENAMETOOLONG | EIO string

datatype syscall = SysLstat | SysLink | SysUnlink | SysReplace | SysMkdir | SysOpen | SysFsync

type_synonym fault = "syscall \<Rightarrow> loc \<Rightarrow> os_error option"

text \<open>
  An exception of an operation on the file system and the controller: one of the controller's
  own, an \<open>OSError\<close>, or the exit of the process at a failpoint (which nothing catches).
  \<open>OutOfNames\<close> is no exception: the loop of \<open>move_candidate\<close> has used up the random names the
  run of the model was given.
\<close>

datatype failure = Raised exn | Os os_error | Killed | OutOfNames

type_synonym 'a fstep = "(downloader \<times> fs, failure, 'a) act"

type_synonym 'a fcall = "fs \<Rightarrow> failure + 'a \<times> fs"

text \<open>Operations of the controller alone, and of the file system alone.\<close>

definition ctl :: "'a step \<Rightarrow> 'a fstep" where
  "ctl m s = (case m (fst s) of (Inl x, t) \<Rightarrow> (Inl (Raised x), (t, snd s)) | (Inr v, t) \<Rightarrow> (Inr v, (t, snd s)))"

definition sys :: "'a fcall \<Rightarrow> 'a fstep" where
  "sys m s = (case m (snd s) of Inl x \<Rightarrow> (Inl x, s) | Inr (v, f) \<Rightarrow> (Inr v, (fst s, f)))"

definition look :: "(fs \<Rightarrow> 'a) \<Rightarrow> 'a fstep" where
  "look q s = (Inr (q (snd s)), s)"

text \<open>
  \<open>except (OSError, RuntimeError)\<close>, \<open>except OSError\<close>, \<open>except FileExistsError\<close>.  A \<open>KeyError\<close>,
  a \<open>ValueError\<close> and a \<open>TypeError\<close> are no \<open>RuntimeError\<close>.
\<close>

definition runtime_or_os :: "failure \<Rightarrow> bool" where
  "runtime_or_os x =
     (case x of
        Raised y \<Rightarrow> y \<notin> {KeyError, OtherRuntime ''ValueError'', OtherRuntime ''TypeError''}
      | Os _ \<Rightarrow> True | _ \<Rightarrow> False)"

definition os_only :: "failure \<Rightarrow> bool" where
  "os_only x = (case x of Os _ \<Rightarrow> True | _ \<Rightarrow> False)"

text \<open>\<open>str(exc)\<close> and \<open>review_code_for_error\<close>.\<close>

fun os_text :: "os_error \<Rightarrow> string" where
  "os_text EEXIST = ''[Errno 17] File exists''"
| "os_text ENOENT = ''[Errno 2] No such file or directory''"
| "os_text ENOTDIR = ''[Errno 20] Not a directory''"
| "os_text EISDIR = ''[Errno 21] Is a directory''"
| "os_text ENAMETOOLONG = ''[Errno 36] File name too long''"
| "os_text (EIO t) = t"

definition failure_text :: "failure \<Rightarrow> string" where
  "failure_text x =
     (case x of
        Os y \<Rightarrow> os_text y
      | Raised (OtherRuntime t) \<Rightarrow> t
      | Raised SqliteFailure \<Rightarrow> ''local SQLite failure''
      | Raised MissingRow \<Rightarrow> ''missing download row''
      | _ \<Rightarrow> [])"

definition review_code_for_error :: "failure \<Rightarrow> string option" where
  "review_code_for_error x = (if x = Os ENAMETOOLONG then Some ''ENAMETOOLONG'' else None)"

subsection \<open>System calls\<close>

fun follow :: "node option \<Rightarrow> node option" where
  "follow (Some (Symlink target)) = follow target"
| "follow n = n"

definition lstat :: "loc \<Rightarrow> fs \<Rightarrow> node option" where
  "lstat p f = f_node f p"

definition exists :: "loc \<Rightarrow> fs \<Rightarrow> bool" where
  "exists p f = (follow (lstat p f) \<noteq> None)"

definition is_dir :: "loc \<Rightarrow> fs \<Rightarrow> bool" where
  "is_dir p f = (follow (lstat p f) = Some Directory)"

definition is_link :: "loc \<Rightarrow> fs \<Rightarrow> bool" where
  "is_link p f = (case lstat p f of Some (Symlink _) \<Rightarrow> True | _ \<Rightarrow> False)"

definition is_regular :: "loc \<Rightarrow> fs \<Rightarrow> bool" where
  "is_regular p f = (case lstat p f of Some (File _) \<Rightarrow> True | _ \<Rightarrow> False)"

definition is_file :: "loc \<Rightarrow> fs \<Rightarrow> bool" where
  "is_file p f = (case follow (lstat p f) of Some (File _) \<Rightarrow> True | _ \<Rightarrow> False)"

text \<open>What opening a path for reading gives; a directory cannot be read.\<close>

definition content :: "loc \<Rightarrow> fs \<Rightarrow> string option" where
  "content p f = (case follow (lstat p f) of Some (File i) \<Rightarrow> Some (f_data f i) | _ \<Rightarrow> None)"

text \<open>\<open>p.stat().st_size\<close>; a directory reports 0 here.\<close>

definition size_of :: "loc \<Rightarrow> fs \<Rightarrow> int" where
  "size_of p f = (case content p f of Some d \<Rightarrow> int (length d) | None \<Rightarrow> 0)"

definition set_node :: "loc \<Rightarrow> node option \<Rightarrow> fs \<Rightarrow> fs" where
  "set_node p n f = f\<lparr>f_node := (f_node f)(p := n)\<rparr>"

definition read_bytes :: "fault \<Rightarrow> loc \<Rightarrow> string fcall" where
  "read_bytes fault p f =
     (case fault SysOpen p of
        Some x \<Rightarrow> Inl (Os x)
      | None \<Rightarrow> (case follow (lstat p f) of
            None \<Rightarrow> Inl (Os ENOENT)
          | Some (File i) \<Rightarrow> Inr (f_data f i, f)
          | Some _ \<Rightarrow> Inl (Os EISDIR)))"

definition stat_size :: "fault \<Rightarrow> loc \<Rightarrow> int fcall" where
  "stat_size fault p f =
     (case fault SysLstat p of
        Some x \<Rightarrow> Inl (Os x)
      | None \<Rightarrow> if exists p f then Inr (size_of p f, f) else Inl (Os ENOENT))"

definition link :: "fault \<Rightarrow> loc \<Rightarrow> loc \<Rightarrow> unit fcall" where
  "link fault a b f =
     (case fault SysLink b of
        Some x \<Rightarrow> Inl (Os x)
      | None \<Rightarrow>
          if lstat a f = None then Inl (Os ENOENT)
          else if lstat a f = Some Directory then Inl (Os (EIO ''[Errno 1] Operation not permitted''))
          else if lstat b f \<noteq> None then Inl (Os EEXIST)
          else if \<not> is_dir (butlast b) f then Inl (Os ENOENT)
          else Inr ((), set_node b (lstat a f) f))"

definition unlink :: "fault \<Rightarrow> loc \<Rightarrow> unit fcall" where
  "unlink fault p f =
     (case fault SysUnlink p of
        Some x \<Rightarrow> Inl (Os x)
      | None \<Rightarrow>
          (case lstat p f of
             None \<Rightarrow> Inl (Os ENOENT)
           | Some Directory \<Rightarrow> Inl (Os EISDIR)
           | Some _ \<Rightarrow> Inr ((), set_node p None f)))"

definition replace :: "fault \<Rightarrow> loc \<Rightarrow> loc \<Rightarrow> unit fcall" where
  "replace fault a b f =
     (case fault SysReplace b of
        Some x \<Rightarrow> Inl (Os x)
      | None \<Rightarrow>
          if lstat a f = None then Inl (Os ENOENT)
          else if \<not> is_dir (butlast b) f then Inl (Os ENOENT)
          else if lstat b f = Some Directory then Inl (Os EISDIR)
          else Inr ((), set_node a None (set_node b (lstat a f) f)))"

definition mkdir :: "fault \<Rightarrow> loc \<Rightarrow> unit fcall" where
  "mkdir fault p f =
     (case fault SysMkdir p of
        Some x \<Rightarrow> Inl (Os x)
      | None \<Rightarrow>
          if lstat p f \<noteq> None then Inl (Os EEXIST)
          else if \<not> is_dir (butlast p) f then Inl (Os ENOENT)
          else Inr ((), set_node p (Some Directory) f))"

text \<open>\<open>flush_file\<close> and \<open>flush_directory\<close>: they can only fail.\<close>

definition flush :: "fault \<Rightarrow> loc \<Rightarrow> unit fcall" where
  "flush fault p f =
     (case fault SysFsync p of
        Some x \<Rightarrow> Inl (Os x)
      | None \<Rightarrow> if exists p f then Inr ((), f) else Inl (Os ENOENT))"

text \<open>\<open>p.mkdir(parents=True, exist_ok=True)\<close>: the missing directories from the top down.\<close>

fun make_dirs :: "fault \<Rightarrow> loc \<Rightarrow> string list \<Rightarrow> unit fcall" where
  "make_dirs fault done_part [] f =
     (if is_dir done_part f then Inr ((), f) else Inl (Os EEXIST))"
| "make_dirs fault done_part (n # rest) f =
     (if exists (done_part @ [n]) f then make_dirs fault (done_part @ [n]) rest f
      else case mkdir fault (done_part @ [n]) f of
        Inl x \<Rightarrow> Inl x
      | Inr (_, f) \<Rightarrow> make_dirs fault (done_part @ [n]) rest f)"

definition mkdir_parents :: "fault \<Rightarrow> loc \<Rightarrow> unit fcall" where
  "mkdir_parents fault p f = make_dirs fault [] p f"

subsection \<open>Paths as text\<close>

text \<open>\<open>str(path)\<close> of a location and \<open>Path(text)\<close>.\<close>

definition loc_text :: "loc \<Rightarrow> string" where
  "loc_text p = as_posix \<lparr>pp_absolute = True, pp_names = p\<rparr>"

definition text_loc :: "string \<Rightarrow> loc" where
  "text_loc t = pp_names (parse_path t)"

text \<open>\<open>self.destination / Path(stored)\<close> for a stored relative path.\<close>

definition target_loc :: "config \<Rightarrow> ppath \<Rightarrow> loc" where
  "target_loc g stored = (if pp_absolute stored then pp_names stored else g_destination g @ pp_names stored)"

definition incoming :: "config \<Rightarrow> loc" where
  "incoming g = g_state g @ [''incoming'']"

definition candidates :: "config \<Rightarrow> loc" where
  "candidates g = g_state g @ [''redownload-candidates'']"

definition staging_path :: "env \<Rightarrow> config \<Rightarrow> string \<Rightarrow> loc" where
  "staging_path e g url = incoming g @ [take 2 (e_sha e url), drop 2 (e_sha e url)]"

definition stored_path :: "env \<Rightarrow> config \<Rightarrow> ppath \<Rightarrow> ppath" where
  "stored_path e g rel = storage_relative (e_sha e) (g_name_max g) (length (loc_text (g_destination g))) rel"

text \<open>\<open>Path(str(staging) + ".aria2")\<close>.\<close>

definition with_suffix :: "loc \<Rightarrow> string \<Rightarrow> loc" where
  "with_suffix p t = butlast p @ [last p @ t]"

definition relative_to :: "loc \<Rightarrow> loc \<Rightarrow> string list option" where
  "relative_to p base = (if take (length base) p = base then Some (drop (length base) p) else None)"

subsection \<open>Guards of the controller\<close>

definition sha256sum :: "env \<Rightarrow> fault \<Rightarrow> loc \<Rightarrow> string fcall" where
  "sha256sum e fault p f =
     (case read_bytes fault p f of Inl x \<Rightarrow> Inl x | Inr (d, f) \<Rightarrow> Inr (e_sha e d, f))"

definition hit_failpoint :: "config \<Rightarrow> string \<Rightarrow> unit fstep" where
  "hit_failpoint g name s = (if g_failpoint g = Some name then (Inl Killed, s) else (Inr (), s))"

text \<open>\<open>ensure_safe_parent\<close>: the loop over the parents of the target.\<close>

fun safe_parents :: "fault \<Rightarrow> loc \<Rightarrow> string list \<Rightarrow> unit fcall" where
  "safe_parents fault cur [] f = Inr ((), f)"
| "safe_parents fault cur (part # rest) f =
     (let p = cur @ [part] in
      case (if fault SysLstat p = None \<and> lstat p f = None then Some ENOENT else fault SysLstat p) of
        Some ENOENT \<Rightarrow>
          (case mkdir fault p f of Inl x \<Rightarrow> Inl x | Inr (_, f) \<Rightarrow> safe_parents fault p rest f)
      | Some x \<Rightarrow> Inl (Os x)
      | None \<Rightarrow>
          if is_link p f then Inl (Raised (OtherRuntime (''unsafe symlink in destination path: '' @ part)))
          else if \<not> is_dir p f then Inl (Raised (OtherRuntime (''destination parent is not a directory: '' @ part)))
          else safe_parents fault p rest f)"

definition ensure_safe_parent :: "config \<Rightarrow> fault \<Rightarrow> loc \<Rightarrow> unit fcall" where
  "ensure_safe_parent g fault target f =
     (case relative_to target (g_destination g) of
        None \<Rightarrow> Inl (Raised (OtherRuntime ''ValueError''))
      | Some parts \<Rightarrow>
          if is_link (g_destination g) f then Inl (Raised (OtherRuntime ''destination must not be a symlink''))
          else safe_parents fault (g_destination g) (butlast parts) f)"

fun real_dirs :: "loc \<Rightarrow> string list \<Rightarrow> fs \<Rightarrow> bool" where
  "real_dirs cur [] f = True"
| "real_dirs cur (p # ps) f =
     (\<not> is_link (cur @ [p]) f \<and> is_dir (cur @ [p]) f \<and> real_dirs (cur @ [p]) ps f)"

definition is_promotable_final_path :: "config \<Rightarrow> fault \<Rightarrow> loc \<Rightarrow> fs \<Rightarrow> bool" where
  "is_promotable_final_path g fault target f =
     (case relative_to target (g_destination g) of
        None \<Rightarrow> False
      | Some parts \<Rightarrow>
          parts \<noteq> [] \<and> \<not> is_link (g_destination g) f \<and>
          real_dirs (g_destination g) (butlast parts) f \<and>
          (case fault SysLstat target of
             Some x \<Rightarrow> x = ENOENT
           | None \<Rightarrow> lstat target f = None))"

definition is_safe_final_path :: "config \<Rightarrow> fault \<Rightarrow> loc \<Rightarrow> fs \<Rightarrow> bool" where
  "is_safe_final_path g fault target f =
     (case relative_to target (g_destination g) of
        None \<Rightarrow> False
      | Some parts \<Rightarrow>
          parts \<noteq> [] \<and> \<not> is_link (g_destination g) f \<and>
          real_dirs (g_destination g) (butlast parts) f \<and>
          fault SysLstat target = None \<and> is_regular target f)"

definition is_safe_staging_path :: "config \<Rightarrow> loc \<Rightarrow> fs \<Rightarrow> bool" where
  "is_safe_staging_path g staging f =
     (case relative_to staging (incoming g) of
        None \<Rightarrow> False
      | Some parts \<Rightarrow>
          parts \<noteq> [] \<and> \<not> is_link (incoming g) f \<and> real_dirs (incoming g) (butlast parts) f)"

text \<open>
  \<open>move_candidate\<close>: \<open>hexes\<close> are the successive random names; a name that is taken is skipped.
\<close>

fun link_candidate :: "config \<Rightarrow> fault \<Rightarrow> loc \<Rightarrow> string list \<Rightarrow> loc fcall" where
  "link_candidate g fault staging [] f = Inl OutOfNames"
| "link_candidate g fault staging (h # hexes) f =
     (let candidate = candidates g @ [last staging @ ''.'' @ h] in
      case link fault staging candidate f of
        Inr (_, f) \<Rightarrow> Inr (candidate, f)
      | Inl x \<Rightarrow> if x = Os EEXIST then link_candidate g fault staging hexes f else Inl x)"

definition control_file :: "loc \<Rightarrow> loc" where
  "control_file staging = with_suffix staging ''.aria2''"

definition move_candidate :: "config \<Rightarrow> fault \<Rightarrow> string list \<Rightarrow> loc \<Rightarrow> loc fstep" where
  "move_candidate g fault hexes staging =
     andthen (sys (mkdir_parents fault (candidates g))) (\<lambda>_.
     andthen (sys (link_candidate g fault staging hexes)) (\<lambda>candidate.
     andthen (sys (unlink fault staging)) (\<lambda>_.
     andthen (look (exists (control_file staging))) (\<lambda>there.
     if there
     then andthen (sys (replace fault (control_file staging) (control_file candidate))) (\<lambda>_. ret candidate)
     else ret candidate))))"

subsection \<open>Rules for invariants\<close>

lemma keeps_ctl:
  assumes "\<And>s f. I (s, f) \<Longrightarrow> I (snd (m s), f)"
  shows "keeps I (ctl m)"
proof (rule keepsI)
  fix s assume "I s"
  with assms [of "fst s" "snd s"] have "I (snd (m (fst s)), snd s)" by simp
  then show "I (snd (ctl m s))"
    by (cases "m (fst s)") (auto simp: ctl_def split: sum.splits)
qed

lemma keeps_sys:
  assumes "\<And>s f v f'. I (s, f) \<Longrightarrow> m f = Inr (v, f') \<Longrightarrow> I (s, f')"
  shows "keeps I (sys m)"
proof (rule keepsI)
  fix s assume "I s"
  with assms [of "fst s" "snd s"] show "I (snd (sys m s))"
    by (auto simp: sys_def split: sum.splits)
qed

lemma keeps_look [pres]: "keeps I (look q)"
  by (simp add: keeps_def look_def)

lemma keeps_failpoint [pres]: "keeps I (hit_failpoint g n)"
  by (simp add: keeps_def hit_failpoint_def)

lemma reads_only:
  "read_bytes fault p f = Inr (v, f') \<Longrightarrow> f' = f"
  "stat_size fault p f = Inr (n, f') \<Longrightarrow> f' = f"
  "sha256sum e fault p f = Inr (v, f') \<Longrightarrow> f' = f"
  "flush fault p f = Inr (u, f') \<Longrightarrow> f' = f"
  by (auto simp: read_bytes_def stat_size_def sha256sum_def flush_def
      split: option.splits node.splits if_splits sum.splits)

lemma keeps_reads [pres]:
  "keeps I (sys (read_bytes fault p))" "keeps I (sys (stat_size fault p))"
  "keeps I (sys (sha256sum e fault p))" "keeps I (sys (flush fault p))"
  by (rule keeps_sys, drule reads_only, simp)+

lemma ctl_Inr: "ctl m s = (Inr x, t) \<longleftrightarrow> m (fst s) = (Inr x, fst t) \<and> snd t = snd s"
  by (cases t) (auto simp: ctl_def split: prod.splits sum.splits)

lemma sys_Inr: "sys m s = (Inr x, t) \<longleftrightarrow> m (snd s) = Inr (x, snd t) \<and> fst t = fst s"
  by (cases t) (auto simp: sys_def split: prod.splits sum.splits)

lemma look_Inr: "look q s = (Inr x, t) \<longleftrightarrow> x = q (snd s) \<and> t = s"
  by (auto simp: look_def)

lemma try_except_Inr:
  "try_except m c h s = (Inr x, t) \<longleftrightarrow>
     m s = (Inr x, t) \<or> (\<exists>e u. m s = (Inl e, u) \<and> c e \<and> h e u = (Inr x, t))"
  by (auto simp: try_except_def split: prod.splits sum.splits if_splits)

lemma failpoint_Inr [simp]: "hit_failpoint g n s = (Inr x, t) \<longleftrightarrow> g_failpoint g \<noteq> Some n \<and> t = s"
  by (auto simp: hit_failpoint_def)

subsection \<open>Names that stay\<close>

text \<open>
  Every name that exists outside \<open>A\<close> leads where it did, and every file outside \<open>D\<close> has the
  content it had.
\<close>

definition unharmed :: "loc set \<Rightarrow> nat set \<Rightarrow> fs \<Rightarrow> fs \<Rightarrow> bool" where
  "unharmed A D f f' \<longleftrightarrow> (\<forall>p. p \<notin> A \<longrightarrow> lstat p f \<noteq> None \<longrightarrow> lstat p f' = lstat p f) \<and>
     (\<forall>i. i \<notin> D \<longrightarrow> f_data f' i = f_data f i)"

lemma unharmed_refl [simp]: "unharmed A D f f"
  by (simp add: unharmed_def)

lemma unharmed_trans: "unharmed A D f f' \<Longrightarrow> unharmed A D f' f'' \<Longrightarrow> unharmed A D f f''"
  unfolding unharmed_def by metis

lemma unharmed_mono: "unharmed A D f f' \<Longrightarrow> A \<subseteq> B \<Longrightarrow> unharmed B D f f'"
  unfolding unharmed_def by blast

lemma lstat_set_node [simp]: "lstat p (set_node q n f) = (if p = q then n else lstat p f)"
  by (simp add: lstat_def set_node_def)

lemma data_set_node [simp]: "f_data (set_node q n f) = f_data f"
  by (simp add: set_node_def)

lemma link_unharmed: "link fault a b f = Inr (v, f') \<Longrightarrow> unharmed A D f f'"
  by (auto simp: link_def unharmed_def split: option.splits if_splits)

lemma unlink_unharmed: "unlink fault p f = Inr (v, f') \<Longrightarrow> p \<in> A \<Longrightarrow> unharmed A D f f'"
  by (auto simp: unlink_def unharmed_def split: option.splits node.splits)

lemma replace_unharmed: "replace fault a b f = Inr (v, f') \<Longrightarrow> a \<in> A \<Longrightarrow> b \<in> A \<Longrightarrow> unharmed A D f f'"
  by (auto simp: replace_def unharmed_def split: option.splits if_splits)

lemma mkdir_unharmed: "mkdir fault p f = Inr (v, f') \<Longrightarrow> unharmed A D f f'"
  by (auto simp: mkdir_def unharmed_def split: option.splits if_splits)

lemma make_dirs_unharmed: "make_dirs fault p ns f = Inr (v, f') \<Longrightarrow> unharmed A D f f' \<and> f_data f' = f_data f"
proof (induction fault p ns f rule: make_dirs.induct)
  case (2 fault p n rest f)
  show ?case
  proof (cases "exists (p @ [n]) f")
    case True
    with 2 show ?thesis by simp
  next
    case False
    with 2(3) obtain u f1 where m: "mkdir fault (p @ [n]) f = Inr (u, f1)"
      and r: "make_dirs fault (p @ [n]) rest f1 = Inr (v, f')"
      by (auto split: sum.splits)
    have "f_data f1 = f_data f" using m by (auto simp: mkdir_def split: option.splits if_splits)
    with 2(2) [OF False m _ r] mkdir_unharmed [OF m] show ?thesis by (auto intro: unharmed_trans)
  qed
qed (auto split: if_splits)

lemma safe_parents_unharmed: "safe_parents fault p ns f = Inr (v, f') \<Longrightarrow> unharmed A D f f' \<and> f_data f' = f_data f"
proof (induction fault p ns f arbitrary: v rule: safe_parents.induct)
  case (2 fault cur part rest f)
  let ?p = "cur @ [part]"
  let ?x = "if fault SysLstat ?p = None \<and> lstat ?p f = None then Some ENOENT else fault SysLstat ?p"
  show ?case
  proof (cases ?x)
    case None
    with 2(3) have r: "\<not> is_link ?p f" "is_dir ?p f" "safe_parents fault ?p rest f = Inr (v, f')"
      by (auto simp: Let_def split: if_splits)
    show ?thesis by (rule 2(1) [OF refl None _ _ r(3)]) (use r in auto)
  next
    case (Some x)
    with 2(3) have x: "x = ENOENT" by (cases x) (auto simp: Let_def split: if_splits)
    with 2(3) Some obtain u f1 where m: "mkdir fault ?p f = Inr (u, f1)"
      and r: "safe_parents fault ?p rest f1 = Inr (v, f')"
      by (auto simp: Let_def split: sum.splits if_splits)
    have "f_data f1 = f_data f" using m by (auto simp: mkdir_def split: option.splits if_splits)
    moreover have "unharmed A D f1 f' \<and> f_data f' = f_data f1"
      by (rule 2(2) [OF refl Some x m refl r])
    ultimately show ?thesis using mkdir_unharmed [OF m] by (auto intro: unharmed_trans)
  qed
qed simp

lemma ensure_safe_parent_unharmed:
  "ensure_safe_parent g fault target f = Inr (v, f') \<Longrightarrow> unharmed A D f f' \<and> f_data f' = f_data f"
  using safe_parents_unharmed by (auto simp: ensure_safe_parent_def split: option.splits if_splits)

lemma link_candidate_unharmed:
  "link_candidate g fault staging hs f = Inr (c, f') \<Longrightarrow>
    unharmed A D f f' \<and> f_data f' = f_data f \<and> (\<exists>n. c = candidates g @ [n]) \<and> lstat c f = None \<and> lstat c f' = lstat staging f"
proof (induction g fault staging hs f rule: link_candidate.induct)
  case (2 g fault staging h hs f)
  let ?c = "candidates g @ [last staging @ ''.'' @ h]"
  show ?case
  proof (cases "link fault staging ?c f")
    case (Inr r)
    obtain u f1 where r: "r = (u, f1)" by (cases r)
    have "f_data f1 = f_data f" "lstat ?c f = None" "lstat ?c f1 = lstat staging f"
      using Inr r by (auto simp: link_def split: option.splits if_splits)
    with 2(2) Inr link_unharmed [OF Inr [unfolded r]] show ?thesis by (auto simp: r)
  next
    case (Inl x)
    with 2(2) have "x = Os EEXIST" "link_candidate g fault staging hs f = Inr (c, f')"
      by (auto split: if_splits)
    with 2(1) [OF refl Inl] show ?thesis by blast
  qed
qed simp

text \<open>The invariant form: nothing outside \<open>A\<close> and \<open>D\<close> has been harmed since \<open>f0\<close>.\<close>

definition since :: "loc set \<Rightarrow> nat set \<Rightarrow> fs \<Rightarrow> downloader \<times> fs \<Rightarrow> bool" where
  "since A D f0 s = unharmed A D f0 (snd s)"

lemma keeps_since_ctl [pres]: "keeps (since A D f0) (ctl m)"
  by (rule keeps_ctl) (simp add: since_def)

lemma keeps_since_sys: "(\<And>f v f'. m f = Inr (v, f') \<Longrightarrow> unharmed A D f f') \<Longrightarrow> keeps (since A D f0) (sys m)"
  by (rule keeps_sys) (auto simp: since_def intro: unharmed_trans)

lemma keeps_since [pres]:
  "keeps (since A D f0) (sys (link fault a b))"
  "keeps (since A D f0) (sys (ensure_safe_parent g fault target))"
  "keeps (since A D f0) (sys (mkdir_parents fault p))"
  "keeps (since A D f0) (sys (link_candidate g fault staging hs))"
  "p \<in> A \<Longrightarrow> keeps (since A D f0) (sys (unlink fault p))"
  "a \<in> A \<Longrightarrow> b \<in> A \<Longrightarrow> keeps (since A D f0) (sys (replace fault a b))"
  using make_dirs_unharmed ensure_safe_parent_unharmed link_candidate_unharmed
  by (intro keeps_since_sys; auto simp: mkdir_parents_def intro: link_unharmed unlink_unharmed replace_unharmed; blast)+

end
