(* ===== verification/Scheduling.thy ===== *)
theory Scheduling
  imports FileSystem Queue
begin

text \<open>
  What is selected and what is admitted (\<open>src/tod-dl.py\<close>): \<open>import_queues\<close>, \<open>scope_run\<close>,
  \<open>dry_run\<close>, the admission queries \<open>next_pending\<close>, \<open>retry_wait\<close> and \<open>next_recheck\<close> with the
  clause that pauses denied origins, worker slots, start staggering and the storage reserve.
  Queue entries are what \<open>read_queues\<close> yields; a \<open>ValueError\<close> of \<open>urlsplit\<close> on a denied URL
  cannot occur, because only URLs that \<open>relative_path\<close> has split are in the table.
\<close>

subsection \<open>Denied origins\<close>

definition origin_prefix :: "string \<Rightarrow> string" where
  "origin_prefix u =
     url_scheme u @ ''://'' @ (case urlsplit u of None \<Rightarrow> [] | Some p \<Rightarrow> up_netloc p) @ ''/''"

text \<open>\<open>LIKE\<close> with an escaped prefix and a final \<open>%\<close>: ASCII letters match in either case.\<close>

definition like_prefix :: "string \<Rightarrow> string \<Rightarrow> bool" where
  "like_prefix p u = starts_with (str_lower p) (str_lower u)"

definition access_denied :: "download \<Rightarrow> bool" where
  "access_denied r = (d_status r = ReviewRequired \<and> d_review_code r = Some ''access_denied'')"

definition denied_prefixes :: "config \<Rightarrow> db \<Rightarrow> string list" where
  "denied_prefixes g d = remdups (map (\<lambda>r. origin_prefix (d_url r)) (filter access_denied (run_rows (g_run g) d)))"

definition access_denied_scope_clause :: "config \<Rightarrow> db \<Rightarrow> string \<Rightarrow> bool" where
  "access_denied_scope_clause g d url = list_all (\<lambda>p. \<not> like_prefix p url) (denied_prefixes g d)"

subsection \<open>Admission queries\<close>

definition candidate_row :: "config \<Rightarrow> db \<Rightarrow> download \<Rightarrow> bool" where
  "candidate_row g d r =
     (retryable (d_status r) \<and> (g_max_attempts g = 0 \<or> d_attempts r < g_max_attempts g) \<and>
      access_denied_scope_clause g d (d_url r))"

text \<open>\<open>ORDER BY run_items.queue_rank LIMIT 1\<close>.\<close>

definition next_pending :: "env \<Rightarrow> config \<Rightarrow> db \<Rightarrow> download option" where
  "next_pending e g d =
     find (\<lambda>r. candidate_row g d r \<and> d_next_retry_at r \<le> e_time e) (map snd (ranked_rows (g_run g) d))"

definition recheck_due :: "env \<Rightarrow> download \<Rightarrow> bool" where
  "recheck_due e r =
     (d_status r = Unavailable \<and>
      ((case d_recheck_at r of None \<Rightarrow> 0 | Some t \<Rightarrow> t) \<le> e_time e \<or> d_early_recheck r = 1))"

definition next_recheck :: "env \<Rightarrow> config \<Rightarrow> db \<Rightarrow> download option" where
  "next_recheck e g d = find (recheck_due e) (map snd (ranked_rows (g_run g) d))"

definition claim_recheck :: "env \<Rightarrow> string \<Rightarrow> db \<Rightarrow> db" where
  "claim_recheck e url d =
     update_where (\<lambda>r. d_url r = url)
       (\<lambda>r. r\<lparr>d_early_recheck :=
                (if d_early_recheck r = 1 \<and> e_time e < (case d_recheck_at r of None \<Rightarrow> 0 | Some t \<Rightarrow> t) then 2 else 0),
              d_recheck_at := Some (e_time e + UNAVAILABLE_RECHECK_INTERVAL_S), d_updated_at := e_now e\<rparr>) d"

definition retry_times :: "config \<Rightarrow> db \<Rightarrow> rat list" where
  "retry_times g d = map d_next_retry_at (filter (candidate_row g d) (run_rows (g_run g) d))"

definition retry_wait :: "env \<Rightarrow> config \<Rightarrow> db \<Rightarrow> rat option" where
  "retry_wait e g d =
     (case retry_times g d of [] \<Rightarrow> None | t # ts \<Rightarrow> Some (max 0 (fold min ts t - e_time e)))"

definition reset_retry_now :: "config \<Rightarrow> db \<Rightarrow> db" where
  "reset_retry_now g d =
     update_where (\<lambda>r. retryable (d_status r) \<and> d_url r \<in> set (run_urls (g_run g) d)) (\<lambda>r. r\<lparr>d_next_retry_at := 0\<rparr>) d"

text \<open>
  \<open>requeue_interrupted_transfers\<close>; the processes it first terminates are not part of the state.
\<close>

definition interrupted :: "status \<Rightarrow> bool" where
  "interrupted st = (st \<in> {Active, Running, Admitted})"

definition requeue_interrupted_transfers :: "env \<Rightarrow> config \<Rightarrow> db \<Rightarrow> db" where
  "requeue_interrupted_transfers e g d =
     update_where (\<lambda>r. interrupted (d_status r) \<and> d_url r \<in> set (run_urls (g_run g) d))
       (\<lambda>r. r\<lparr>d_status := Queued, d_next_retry_at := 0, d_updated_at := e_now e\<rparr>) d"

subsection \<open>Importing the queue\<close>

definition resolved_storage_target :: "env \<Rightarrow> config \<Rightarrow> ppath \<Rightarrow> string \<Rightarrow> fs \<Rightarrow> ppath \<times> loc" where
  "resolved_storage_target e g rel url f =
     (let stored = stored_path e g rel; target = target_loc g stored in
      if exists target f then (stored, target)
      else case legacy_relative_path url of
        None \<Rightarrow> (stored, target)
      | Some legacy_rel \<Rightarrow>
          if legacy_rel = rel then (stored, target)
          else
            let legacy_stored = stored_path e g legacy_rel; legacy_target = target_loc g legacy_stored in
            if exists legacy_target f then (legacy_stored, legacy_target) else (stored, target))"

definition record_source_generation :: "env \<Rightarrow> string \<Rightarrow> string option \<Rightarrow> db \<Rightarrow> db" where
  "record_source_generation e url new_generation d =
     update_where (\<lambda>r. d_url r = url)
       (\<lambda>r. (if d_status r = Unavailable \<and> d_early_recheck r \<noteq> 1 \<and> d_source_generation r \<notin> {None, Some []} \<and>
               new_generation \<notin> {None, Some []} \<and> d_source_generation r \<noteq> new_generation \<and>
               e_time e < (case d_recheck_at r of None \<Rightarrow> 0 | Some t \<Rightarrow> t)
             then r\<lparr>d_early_recheck := 1\<rparr> else r)\<lparr>d_source_generation := new_generation\<rparr>) d"

definition insert_or_ignore :: "download \<Rightarrow> db \<Rightarrow> db" where
  "insert_or_ignore r d =
     (if find_download (d_url r) d \<noteq> None then d else d\<lparr>downloads := downloads d @ [r]\<rparr>)"

definition import_entry :: "env \<Rightarrow> config \<Rightarrow> fs \<Rightarrow> queue_entry \<Rightarrow> db \<Rightarrow> db" where
  "import_entry e g f q d =
     (let url = q_url q;
          stored = as_posix (fst (resolved_storage_target e g (q_path q) url f));
          staging = loc_text (staging_path e g url);
          d = insert_or_ignore (new_download url (as_posix (q_path q)) (Some stored) (Some staging)
                (q_size q) (q_sha256 q) (e_now e)) d;
          d = update_where (\<lambda>r. d_url r = url \<and> (d_storage_path r \<noteq> Some stored \<or> d_staging_path r = None))
                (\<lambda>r. r\<lparr>d_storage_path := Some stored, d_staging_path := Some staging, d_updated_at := e_now e\<rparr>) d;
          d = update_where (\<lambda>r. d_url r = url \<and> (d_inventory_size r \<noteq> q_size q \<or> d_expected_sha256 r \<noteq> q_sha256 q))
                (\<lambda>r. r\<lparr>d_inventory_size := q_size q, d_expected_sha256 := q_sha256 q, d_updated_at := e_now e\<rparr>) d
      in record_source_generation e url (q_generation q) d)"

definition import_queues :: "env \<Rightarrow> config \<Rightarrow> fs \<Rightarrow> queue_entry list \<Rightarrow> db \<Rightarrow> nat \<times> db" where
  "import_queues e g f qs d = (length qs, fold (import_entry e g f) qs d)"

subsection \<open>Selecting the run\<close>

text \<open>
  \<open>finalized_event\<close> with \<open>PurePosixPath\<close> objects for the two paths, as \<open>reconcile_existing_file\<close>
  passes them on from \<open>scope_run\<close>: without a writer nothing is encoded; with one, the URL is
  checked, the sequence number is taken, and encoding the record raises \<open>TypeError\<close>.
\<close>

definition finalized_event_of_paths :: "env \<Rightarrow> string \<Rightarrow> unit step" where
  "finalized_event_of_paths e url s =
     (let s = s\<lparr>x_responses := AList.delete url (x_responses s),
                x_resume_confirmed := removeAll url (x_resume_confirmed s)\<rparr> in
      case x_provenance s of
        None \<Rightarrow> (Inr (), s)
      | Some w \<Rightarrow>
          (case reject_credentialed_url (JStr url) of
             Some ValueError \<Rightarrow> (Inl (OtherRuntime ''ValueError''), s)
           | Some _ \<Rightarrow> (Inl ProvenanceFailure, s\<lparr>x_stop := True, x_local_failure := Some ''record_write''\<rparr>)
           | None \<Rightarrow> (Inl (OtherRuntime ''TypeError''), s\<lparr>x_provenance := Some (w\<lparr>pw_sequence := pw_sequence w + 1\<rparr>)\<rparr>)))"

definition set_review :: "string \<Rightarrow> string option \<Rightarrow> download \<Rightarrow> download" where
  "set_review error code r = r\<lparr>d_last_error := Some error, d_review_code := code\<rparr>"

definition hash_and_size :: "env \<Rightarrow> fault \<Rightarrow> loc \<Rightarrow> (string \<times> int) fstep" where
  "hash_and_size e fault p =
     andthen (sys (sha256sum e fault p)) (\<lambda>h. andthen (sys (stat_size fault p)) (\<lambda>n. ret (h, n)))"

definition reconcile_existing_file :: "env \<Rightarrow> config \<Rightarrow> fault \<Rightarrow> string \<Rightarrow> loc \<Rightarrow> string option \<Rightarrow> unit fstep" where
  "reconcile_existing_file e g fault url target expected =
     (if expected \<in> {None, Some []}
      then andthen (sys (stat_size fault target)) (\<lambda>n.
             ctl (transition e g url ExistingUnverified (Some ''final already exists'') (\<lambda>r. r\<lparr>d_bytes := Some n\<rparr>)))
      else andthen (try_except (andthen (hash_and_size e fault target) (\<lambda>x. ret (Inr x))) os_only (\<lambda>x. ret (Inl x)))
        (\<lambda>v. case v of
           Inl x \<Rightarrow> ctl (transition e g url ReviewRequired (Some ''existing file is inaccessible'')
                     (set_review (''existing-file reconciliation failed: '' @ failure_text x) (review_code_for_error x)))
         | Inr (h, n) \<Rightarrow>
             if str_lower h \<noteq> str_lower (the expected)
             then ctl (transition e g url ReviewRequired (Some ''checksum mismatch'')
                    (\<lambda>r. set_review ''checksum mismatch'' (Some ''checksum_mismatch'') (r\<lparr>d_sha256 := Some h, d_bytes := Some n\<rparr>)))
             else andthen (ctl (finalized_event_of_paths e url)) (\<lambda>_.
                  ctl (transition e g url Complete (Some ''final already exists and verified'')
                    (\<lambda>r. r\<lparr>d_bytes := Some n, d_sha256 := Some h\<rparr>)))))"

definition insert_run_item :: "config \<Rightarrow> string \<Rightarrow> nat \<Rightarrow> db \<Rightarrow> db" where
  "insert_run_item g url rank d =
     d\<lparr>run_items := run_items d @ [\<lparr>ri_run = g_run g, ri_url = url, ri_rank = int rank\<rparr>]\<rparr>"

definition on_db :: "(db \<Rightarrow> db) \<Rightarrow> unit fstep" where
  "on_db f = ctl (modify (\<lambda>s. s\<lparr>x_db := f (x_db s)\<rparr>))"

definition read_ctl :: "(downloader \<Rightarrow> 'a) \<Rightarrow> 'a fstep" where
  "read_ctl q = ctl (gets q)"

text \<open>\<open>env k\<close> is what is read outside while the \<open>k\<close>-th entry is handled.\<close>

fun scope_loop :: "(nat \<Rightarrow> env) \<Rightarrow> config \<Rightarrow> fault \<Rightarrow> queue_entry list \<Rightarrow> nat \<Rightarrow> nat \<Rightarrow> (nat \<times> nat) fstep" where
  "scope_loop env g fault [] selected existing = ret (selected, existing)"
| "scope_loop env g fault (q # qs) selected existing =
     (if g_max_files g \<noteq> 0 \<and> g_max_files g \<le> selected then ret (selected, existing)
      else
        let e = env (selected + existing); url = q_url q in
        andthen (look (resolved_storage_target e g (q_path q) url)) (\<lambda>(stored, target).
        andthen (look (exists target)) (\<lambda>there.
        if there
        then andthen (read_ctl (\<lambda>s. map_option d_status (find_download url (x_db s)))) (\<lambda>current.
             andthen (if scope_run_tracked current then ret ()
                      else reconcile_existing_file e g fault url target (q_sha256 q)) (\<lambda>_.
             scope_loop env g fault qs selected (existing + 1)))
        else andthen (on_db (insert_run_item g url selected)) (\<lambda>_.
             scope_loop env g fault qs (selected + 1) existing))))"

definition start_revision :: "config \<Rightarrow> db \<Rightarrow> db" where
  "start_revision g d =
     (if map_of (revisions d) (g_run g) = None then d\<lparr>revisions := AList.update (g_run g) 0 (revisions d)\<rparr> else d)"

definition scope_run :: "(nat \<Rightarrow> env) \<Rightarrow> config \<Rightarrow> fault \<Rightarrow> queue_entry list \<Rightarrow> (nat \<times> nat) fstep" where
  "scope_run env g fault qs =
     andthen (on_db (start_revision g)) (\<lambda>_.
     andthen (read_ctl (\<lambda>s. length (run_urls (g_run g) (x_db s)))) (\<lambda>previous.
     if previous \<noteq> 0 then ret (previous, 0)
     else andthen (scope_loop env g fault qs 0 0) (\<lambda>r.
          andthen (on_db (\<lambda>d. snd (advance_telemetry_revision (g_run g) d))) (\<lambda>_. ret r))))"

text \<open>\<open>dry_run\<close>: the lines it prints, \<open>True\<close> for an existing target, and the two counts.\<close>

fun dry_loop :: "env \<Rightarrow> config \<Rightarrow> fs \<Rightarrow> queue_entry list \<Rightarrow> nat \<Rightarrow> (bool \<times> loc \<times> string) list" where
  "dry_loop e g f [] selected = []"
| "dry_loop e g f (q # qs) selected =
     (if g_max_files g \<noteq> 0 \<and> g_max_files g \<le> selected then []
      else let (stored, target) = resolved_storage_target e g (q_path q) (q_url q) f in
        if exists target f then (True, target, q_url q) # dry_loop e g f qs selected
        else (False, target, q_url q) # dry_loop e g f qs (selected + 1))"

definition dry_run :: "env \<Rightarrow> config \<Rightarrow> fs \<Rightarrow> queue_entry list \<Rightarrow> (bool \<times> loc \<times> string) list \<times> nat \<times> nat" where
  "dry_run e g f qs =
     (let ls = dry_loop e g f qs 0 in (ls, length (filter fst ls), length (filter (\<lambda>l. \<not> fst l) ls)))"

subsection \<open>Worker slots and waits\<close>

definition reserve_worker_id :: "config \<Rightarrow> downloader \<Rightarrow> nat option" where
  "reserve_worker_id g s =
     find (\<lambda>k. k \<notin> set (map snd (x_worker_ids s))) [1..<Suc (g_workers g)]"

text \<open>
  \<open>wait_for_start_slot\<close>: how long it sleeps, given the monotonic clock before (\<open>t0\<close>) and after
  the sleep (\<open>t1\<close>), which is the reading the next slot is counted from.
\<close>

definition wait_for_start_slot :: "config \<Rightarrow> rat \<Rightarrow> rat \<Rightarrow> downloader \<Rightarrow> rat \<times> downloader" where
  "wait_for_start_slot g t0 t1 s = (max 0 (x_next_start s - t0), s\<lparr>x_next_start := t1 + g_stagger g\<rparr>)"

definition seconds_text :: "rat \<Rightarrow> string" where
  "seconds_text r = show_int (ceiling r) @ ''s''"

definition admission_conditions :: "env \<Rightarrow> downloader \<Rightarrow> (string \<times> string) list option" where
  "admission_conditions e s =
     (let waits = [(''Global cooldown'', x_cooldown_until s - e_time e), (''Stagger'', x_next_start s - e_mono e)];
          conditions = map (\<lambda>(n, r). (n, seconds_text r @ '' remaining'')) (filter (\<lambda>(n, r). 0 < r) waits)
      in if conditions = [] then None
         else Some (conditions @ [(''Next eligible start'', ''in '' @ seconds_text (max (snd (waits ! 0)) (snd (waits ! 1))))]))"

subsection \<open>Storage reserve\<close>

definition committed_remaining_bytes :: "downloader \<Rightarrow> int" where
  "committed_remaining_bytes s =
     (case x_telemetry s of
        None \<Rightarrow> 0
      | Some p \<Rightarrow> sum_list (map (\<lambda>(_, x). case s_total x of
            None \<Rightarrow> 0
          | Some n \<Rightarrow> max 0 (n - (case s_received x of None \<Rightarrow> 0 | Some k \<Rightarrow> k))) (tp_active p)))"

definition has_storage_reserve :: "config \<Rightarrow> int \<Rightarrow> downloader \<Rightarrow> bool" where
  "has_storage_reserve g free s = (g_reserve g \<le> free - committed_remaining_bytes s)"

subsection \<open>Origins\<close>

text \<open>A URL with a scheme, an authority and an absolute path, written without stripped characters.\<close>

definition netloc_of :: "string \<Rightarrow> string" where
  "netloc_of u = (case urlsplit u of None \<Rightarrow> [] | Some p \<Rightarrow> up_netloc p)"

definition regular_url :: "string \<Rightarrow> bool" where
  "regular_url u =
     (clean_url u = u \<and> url_scheme u \<noteq> [] \<and> netloc_of u \<noteq> [] \<and>
      (case urlsplit u of None \<Rightarrow> False | Some p \<Rightarrow> starts_with ''/'' (up_path p)))"

definition origin :: "string \<Rightarrow> string \<times> string" where
  "origin u = (url_scheme u, str_lower (netloc_of u))"

lemma lower_char_sep [simp]:
  "lower_char c = CHR '':'' \<longleftrightarrow> c = CHR '':''" "lower_char c = CHR ''/'' \<longleftrightarrow> c = CHR ''/''"
  "lower_char (CHR '':'') = CHR '':''" "lower_char (CHR ''/'') = CHR ''/''"
proof -
  have "char_of (of_char c + (32::nat)) \<noteq> d" if "65 \<le> (of_char c :: nat)" "of_char c \<le> (90::nat)" "(of_char d :: nat) < 65" for d
  proof
    assume "char_of (of_char c + (32::nat)) = d"
    then have "(of_char (char_of (of_char c + (32::nat)) :: char) :: nat) = of_char d" by simp
    then show False using that by (simp add: of_char_of)
  qed
  from this [of "CHR '':''"] this [of "CHR ''/''"]
  show "lower_char c = CHR '':'' \<longleftrightarrow> c = CHR '':''" "lower_char c = CHR ''/'' \<longleftrightarrow> c = CHR ''/''"
    by (auto simp: lower_char_def Let_def)
  show "lower_char (CHR '':'') = CHR '':''" "lower_char (CHR ''/'') = CHR ''/''"
    by (simp_all add: lower_char_def)
qed

lemma lower_char_idem [simp]: "lower_char (lower_char c) = lower_char c"
proof -
  have "(of_char (char_of (of_char c + (32::nat)) :: char) :: nat) = of_char c + 32"
    if "of_char c \<le> (90::nat)" using that by (simp add: of_char_of)
  then show ?thesis by (auto simp: lower_char_def Let_def)
qed

lemma regular_url_form:
  assumes "regular_url u"
  obtains h rest where "u = h @ ''://'' @ netloc_of u @ ''/'' @ rest" and "url_scheme u = str_lower h"
    and "CHR '':'' \<notin> set h" and "CHR ''/'' \<notin> set (netloc_of u)"
proof -
  let ?h = "takeWhile (\<lambda>x. x \<noteq> CHR '':'') u" and ?t = "drop 1 (dropWhile (\<lambda>x. x \<noteq> CHR '':'') u)"
  have c: "clean_url u = u" and sch: "url_scheme u \<noteq> []" using assms by (auto simp: regular_url_def)
  have guard: "CHR '':'' \<in> set u \<and> ?h \<noteq> [] \<and> (is_lower (hd ?h) \<or> is_upper (hd ?h)) \<and> list_all scheme_char ?h"
    using sch by (auto simp: url_scheme_def c py_partition_def split: if_splits)
  then have scheme: "url_scheme u = str_lower ?h" and rest: "drop_scheme u = ?t"
    by (simp_all add: url_scheme_def drop_scheme_def c py_partition_def)
  have colon: "dropWhile (\<lambda>x. x \<noteq> CHR '':'') u = CHR '':'' # ?t"
    using guard by (cases "dropWhile (\<lambda>x. x \<noteq> CHR '':'') u")
      (auto simp: dropWhile_eq_Nil_conv dest: dropWhile_eq_Cons_conv [THEN iffD1])
  have u: "u = ?h @ '':'' @ ?t"
    using takeWhile_dropWhile_id [of "\<lambda>x. x \<noteq> CHR '':''" u] colon by (metis append_Cons append_Nil)
  obtain p where p: "urlsplit u = Some p" "starts_with ''/'' (up_path p)" "up_netloc p \<noteq> []"
    using assms by (auto simp: regular_url_def netloc_of_def split: option.splits)
  have n: "up_netloc p = fst (split_netloc ?t)" and pth: "up_path p =
      fst (py_partition (CHR ''?'') (fst (py_partition (CHR ''#'') (snd (split_netloc ?t)))))"
    using p(1) by (auto simp: urlsplit_def urlsplit_netloc_def c rest Let_def py_partition_def split: if_splits)
  have dd: "starts_with ''//'' ?t" using p(3) n by (auto simp: split_netloc_def split: if_splits)
  then have t: "?t = ''//'' @ drop 2 ?t"
    unfolding starts_with_def by (metis append_take_drop_id list.size(3) list.size(4) One_nat_def Suc_1 add.commute plus_1_eq_Suc)
  have split: "drop 2 ?t = fst (split_netloc ?t) @ snd (split_netloc ?t)"
    using dd by (simp add: split_netloc_def)
  have "\<exists>q. up_path p = CHR ''/'' # q" using p(2) by (auto simp: starts_with_iff)
  then obtain q where q: "snd (split_netloc ?t) = CHR ''/'' # q"
    unfolding pth py_partition_def
    by (cases "snd (split_netloc ?t)") (auto split: if_splits)
  have "CHR ''/'' \<notin> set (up_netloc p)"
    unfolding n using dd by (auto simp: split_netloc_def dest!: set_takeWhileD)
  moreover have "CHR '':'' \<notin> set ?h" by (auto dest: set_takeWhileD)
  moreover have "u = ?h @ ''://'' @ netloc_of u @ ''/'' @ q"
    using u t split n q p(1) by (metis append.assoc append_Cons append_Nil netloc_of_def option.simps(5))
  ultimately show ?thesis using scheme p(1) by (intro that) (simp_all add: netloc_of_def)
qed

lemma split_at_unique:
  assumes "a @ c # b = a' @ c # b'" and "c \<notin> set a" and "c \<notin> set a'"
  shows "a = a' \<and> b = b'"
proof -
  have "takeWhile (\<lambda>x. x \<noteq> c) (a @ c # b) = a" "takeWhile (\<lambda>x. x \<noteq> c) (a' @ c # b') = a'"
    using assms(2,3) by (auto simp: takeWhile_append)
  with assms(1) show ?thesis by auto
qed

lemma like_prefix_origin:
  assumes "regular_url u" and "regular_url v"
  shows "like_prefix (origin_prefix u) v \<longleftrightarrow> origin u = origin v"
proof -
  obtain h r where u: "u = h @ ''://'' @ netloc_of u @ ''/'' @ r" "url_scheme u = str_lower h"
    "CHR '':'' \<notin> set h" "CHR ''/'' \<notin> set (netloc_of u)" using assms(1) by (rule regular_url_form)
  obtain k q where v: "v = k @ ''://'' @ netloc_of v @ ''/'' @ q" "url_scheme v = str_lower k"
    "CHR '':'' \<notin> set k" "CHR ''/'' \<notin> set (netloc_of v)" using assms(2) by (rule regular_url_form)
  let ?n = "str_lower (netloc_of u)" and ?m = "str_lower (netloc_of v)"
  have pre: "str_lower (origin_prefix u) = str_lower h @ ''://'' @ ?n @ ''/''"
    by (simp add: origin_prefix_def u(2) netloc_of_def comp_def)
  have lv: "str_lower v = str_lower k @ ''://'' @ ?m @ ''/'' @ str_lower q"
    by (subst v(1)) simp
  have nocolon: "CHR '':'' \<notin> set (str_lower h)" "CHR '':'' \<notin> set (str_lower k)"
    using u(3) v(3) by (auto simp: image_iff dest: sym)
  have noslash: "CHR ''/'' \<notin> set ?n" "CHR ''/'' \<notin> set ?m"
    using u(4) v(4) by (auto simp: image_iff dest: sym)
  show ?thesis
  proof
    assume "like_prefix (origin_prefix u) v"
    then obtain t where "str_lower k @ ''://'' @ ?m @ ''/'' @ str_lower q = str_lower h @ ''://'' @ ?n @ ''/'' @ t"
      unfolding like_prefix_def pre lv by (auto simp: starts_with_iff)
    then have e: "str_lower k @ CHR '':'' # (''//'' @ ?m @ ''/'' @ str_lower q) = str_lower h @ CHR '':'' # (''//'' @ ?n @ ''/'' @ t)"
      by simp
    from split_at_unique [OF e nocolon(2,1)]
    have hk: "str_lower k = str_lower h" and "?m @ CHR ''/'' # str_lower q = ?n @ CHR ''/'' # t" by simp_all
    from split_at_unique [OF this(2) noslash(2,1)] have "?m = ?n" by blast
    with hk show "origin u = origin v" by (simp add: origin_def u(2) v(2))
  next
    assume "origin u = origin v"
    then show "like_prefix (origin_prefix u) v"
      unfolding like_prefix_def pre lv starts_with_iff by (auto simp: origin_def u(2) v(2))
  qed
qed

text \<open>
  A denied source pauses its own origin and nothing else.  For regular URLs, the clause of
  the admission query lets a URL through exactly when no item of the run is in review for a
  denied access with the same scheme and authority (letters compared without case).
\<close>
theorem denied_origins_exactly:
  assumes "regular_url v" and "\<And>r. r \<in> set (run_rows (g_run g) d) \<Longrightarrow> access_denied r \<Longrightarrow> regular_url (d_url r)"
  shows "access_denied_scope_clause g d v \<longleftrightarrow>
    \<not> (\<exists>r \<in> set (run_rows (g_run g) d). access_denied r \<and> origin (d_url r) = origin v)"
  using assms like_prefix_origin
  by (auto simp: access_denied_scope_clause_def denied_prefixes_def list_all_iff)

definition example_denied :: db where
  "example_denied = example_db\<lparr>downloads :=
     [(example_row ''http://a.onion/f/1'' ReviewRequired)\<lparr>d_review_code := Some ''access_denied''\<rparr>,
      example_row ''http://A.onion/f/2'' Queued, example_row ''http://b.onion/f/3'' Queued],
     run_items := [\<lparr>ri_run = ''r'', ri_url = ''http://a.onion/f/1'', ri_rank = 0\<rparr>,
       \<lparr>ri_run = ''r'', ri_url = ''http://A.onion/f/2'', ri_rank = 1\<rparr>,
       \<lparr>ri_run = ''r'', ri_url = ''http://b.onion/f/3'', ri_rank = 2\<rparr>]\<rparr>"

lemma example_denied_rows:
  "run_rows ''r'' example_denied =
     [(example_row ''http://a.onion/f/1'' ReviewRequired)\<lparr>d_review_code := Some ''access_denied''\<rparr>,
      example_row ''http://A.onion/f/2'' Queued, example_row ''http://b.onion/f/3'' Queued]"
  by (simp add: run_rows_def example_denied_def example_row_def new_download_def)

theorem denied_origins_exactly_witness:
  "\<not> access_denied_scope_clause example_config example_denied ''http://A.onion/f/2'' \<and>
   access_denied_scope_clause example_config example_denied ''http://b.onion/f/3''"
proof -
  have reg: "regular_url ''http://a.onion/f/1''" "regular_url ''http://A.onion/f/2''" "regular_url ''http://b.onion/f/3''"
    by code_simp+
  have o: "origin ''http://a.onion/f/1'' = origin ''http://A.onion/f/2''"
    "origin ''http://a.onion/f/1'' \<noteq> origin ''http://b.onion/f/3''"
    by code_simp+
  have rows: "r \<in> set (run_rows (g_run example_config) example_denied) \<and> access_denied r \<longleftrightarrow>
      r = (example_row ''http://a.onion/f/1'' ReviewRequired)\<lparr>d_review_code := Some ''access_denied''\<rparr>" for r
    by (auto simp: example_denied_rows access_denied_def example_row_def new_download_def)
  have all: "regular_url (d_url r)" if "r \<in> set (run_rows (g_run example_config) example_denied)" "access_denied r" for r
    using rows [of r] that reg(1) by (auto simp: example_row_def new_download_def)
  have url: "d_url ((example_row ''http://a.onion/f/1'' ReviewRequired)\<lparr>d_review_code := Some ''access_denied''\<rparr>) = ''http://a.onion/f/1''"
    by (simp add: example_row_def new_download_def)
  have ex: "(\<exists>r \<in> set (run_rows (g_run example_config) example_denied). access_denied r \<and> origin (d_url r) = origin v) \<longleftrightarrow>
      origin ''http://a.onion/f/1'' = origin v" for v
    unfolding Bex_def conj_assoc [symmetric] rows by (simp only: simp_thms url)
  note paused = denied_origins_exactly [where g = example_config and d = example_denied, OF _ all, unfolded ex]
  show ?thesis using paused [OF reg(2)] paused [OF reg(3)] o by simp
qed

subsection \<open>Admission and waiting\<close>

lemma set_ranked_rows: "set (map snd (ranked_rows rid d)) = set (run_rows rid d)"
  using mset_ranked_rows by (metis set_mset_mset)

lemma sorted_ranked_rows: "sorted (map fst (ranked_rows rid d))"
  by (simp add: ranked_rows_def)

lemma find_least:
  assumes "find P (map snd xs) = Some r" and "sorted (map fst xs)"
  shows "\<exists>k. (k, r) \<in> set xs \<and> P r \<and> (\<forall>(j, q) \<in> set xs. P q \<longrightarrow> k \<le> j)"
  using assms
proof (induction xs)
  case (Cons x xs)
  obtain k q where x: "x = (k, q)" by (cases x)
  show ?case
  proof (cases "P q")
    case True
    with Cons.prems show ?thesis unfolding x by (intro exI [of _ k]) auto
  next
    case False
    with Cons.prems have "find P (map snd xs) = Some r" "sorted (map fst xs)" by (simp_all add: x)
    from Cons.IH [OF this] False show ?thesis by (auto simp: x)
  qed
qed simp

lemma fold_min:
  fixes t :: "'a :: linorder"
  shows "fold min ts t = Min (set (t # ts))"
  by (simp only: Min.set_eq_fold)

lemma next_pending_None:
  "next_pending e g d = None \<longleftrightarrow> (\<forall>t \<in> set (retry_times g d). e_time e < t)"
  unfolding next_pending_def find_None_iff set_ranked_rows retry_times_def by (auto simp: not_le)

lemma retry_wait_None: "retry_wait e g d = None \<longleftrightarrow> retry_times g d = []"
  by (simp add: retry_wait_def split: list.splits)

lemma retry_wait_Some:
  "retry_wait e g d = Some w \<longleftrightarrow> retry_times g d \<noteq> [] \<and> w = max 0 (Min (set (retry_times g d)) - e_time e)"
  by (auto simp: retry_wait_def fold_min split: list.splits)

text \<open>
  C13: admission and waiting agree.  What \<open>next_pending\<close> admits is a due candidate of the run with
  the least queue rank among the due ones; when it admits nothing, the wait computed at the same
  instant is positive, no candidate becomes due before it has passed, and one is due when it has;
  and there is nothing to wait for exactly when the run has no candidate.
\<close>
theorem admission_agrees_with_waiting:
  "(case next_pending e g d of
      Some r \<Rightarrow> \<exists>k. (k, r) \<in> set (ranked_rows (g_run g) d) \<and> candidate_row g d r \<and> d_next_retry_at r \<le> e_time e \<and>
        (\<forall>(j, q) \<in> set (ranked_rows (g_run g) d). candidate_row g d q \<and> d_next_retry_at q \<le> e_time e \<longrightarrow> k \<le> j)
    | None \<Rightarrow>
        (case retry_wait e g d of
           None \<Rightarrow> \<forall>q \<in> set (run_rows (g_run g) d). \<not> candidate_row g d q
         | Some w \<Rightarrow> 0 < w \<and>
             (\<forall>q \<in> set (run_rows (g_run g) d). candidate_row g d q \<longrightarrow> e_time e + w \<le> d_next_retry_at q) \<and>
             next_pending (e\<lparr>e_time := e_time e + w\<rparr>) g d \<noteq> None))"
proof (cases "next_pending e g d")
  case (Some r)
  from find_least [OF Some [unfolded next_pending_def] sorted_ranked_rows]
  show ?thesis unfolding Some option.case by blast
next
  case None
  show ?thesis
  proof (cases "retry_wait e g d")
    case none: None
    then have "filter (candidate_row g d) (run_rows (g_run g) d) = []"
      by (simp add: retry_wait_None retry_times_def)
    with none None show ?thesis by (simp add: filter_empty_conv)
  next
    case (Some w)
    let ?ts = "retry_times g d"
    have ne: "?ts \<noteq> []" and w: "w = max 0 (Min (set ?ts) - e_time e)" using Some by (simp_all add: retry_wait_Some)
    have m: "Min (set ?ts) \<in> set ?ts" using ne by (intro Min_in) auto
    then have "e_time e < Min (set ?ts)" using None by (simp add: next_pending_None)
    then have sum: "e_time e + w = Min (set ?ts)" and pos: "0 < w" by (simp_all add: w)
    have le: "e_time e + w \<le> d_next_retry_at q" if "q \<in> set (run_rows (g_run g) d)" "candidate_row g d q" for q
      unfolding sum using that by (intro Min_le) (auto simp: retry_times_def)
    have "next_pending (e\<lparr>e_time := e_time e + w\<rparr>) g d \<noteq> None"
      using m sum by (auto simp: next_pending_None)
    with pos le show ?thesis by (simp add: None Some)
  qed
qed

definition example_waiting :: db where
  "example_waiting = example_db\<lparr>downloads :=
     [(example_row ''u1'' RetryWait)\<lparr>d_next_retry_at := 160\<rparr>, (example_row ''u2'' RetryWait)\<lparr>d_next_retry_at := 130\<rparr>]\<rparr>"

theorem admission_agrees_with_waiting_witness:
  "next_pending example_env example_config example_waiting = None \<and>
   retry_wait example_env example_config example_waiting = Some 30 \<and>
   next_pending (example_env\<lparr>e_time := e_time example_env + 30\<rparr>) example_config example_waiting \<noteq> None"
proof -
  have rows: "run_rows ''r'' example_waiting =
      [(example_row ''u1'' RetryWait)\<lparr>d_next_retry_at := 160\<rparr>, (example_row ''u2'' RetryWait)\<lparr>d_next_retry_at := 130\<rparr>]"
    by (simp add: run_rows_def example_waiting_def example_db_def example_row_def new_download_def empty_db_def)
  have times: "retry_times example_config example_waiting = [160, 130]"
    by (simp add: retry_times_def rows candidate_row_def access_denied_scope_clause_def denied_prefixes_def access_denied_def
        example_row_def new_download_def example_config_def)
  then have "next_pending example_env example_config example_waiting = None"
    and "retry_wait example_env example_config example_waiting = Some 30"
    by (simp_all add: next_pending_None retry_wait_def example_env_def)
  with admission_agrees_with_waiting
    [where e = example_env and g = example_config and d = example_waiting] show ?thesis by simp
qed

subsection \<open>The selection of a run\<close>

text \<open>The specification: the first \<open>max_files\<close> entries, in queue order, with no existing final.\<close>

definition missing_final :: "env \<Rightarrow> config \<Rightarrow> fs \<Rightarrow> queue_entry \<Rightarrow> bool" where
  "missing_final e g f q = (\<not> exists (snd (resolved_storage_target e g (q_path q) (q_url q) f)) f)"

definition selection :: "env \<Rightarrow> config \<Rightarrow> fs \<Rightarrow> nat \<Rightarrow> queue_entry list \<Rightarrow> string list" where
  "selection e g f n qs =
     map q_url ((if g_max_files g = 0 then id else take (g_max_files g - n)) (filter (missing_final e g f) qs))"

definition ranked :: "config \<Rightarrow> nat \<Rightarrow> string list \<Rightarrow> run_item list" where
  "ranked g n us = map (\<lambda>(k, u). \<lparr>ri_run = g_run g, ri_url = u, ri_rank = int k\<rparr>) (enumerate n us)"

lemma resolved_cong: "e_sha e = e_sha e' \<Longrightarrow> resolved_storage_target e g rel url f = resolved_storage_target e' g rel url f"
proof -
  assume "e_sha e = e_sha e'"
  then have "stored_path e = stored_path e'" by (intro ext) (simp add: stored_path_def)
  then show ?thesis by (simp only: resolved_storage_target_def)
qed

definition same_selection :: "run_item list \<Rightarrow> fs \<Rightarrow> downloader \<times> fs \<Rightarrow> bool" where
  "same_selection is f s = (run_items (x_db (fst s)) = is \<and> snd s = f)"

lemma finalized_event_of_paths_frames [simp]: "x_db (snd (finalized_event_of_paths e url s)) = x_db s"
  by (auto simp: finalized_event_of_paths_def Let_def split: option.splits writer_error.splits)

lemma reconcile_existing_keeps: "keeps (same_selection is f) (reconcile_existing_file e g fault url target expected)"
proof -
  have tr: "keeps (same_selection is f) (ctl (transition e g url st dt h))" for st dt h
    by (rule keeps_ctl) (simp add: same_selection_def)
  have fin: "keeps (same_selection is f) (ctl (finalized_event_of_paths e url))"
    by (rule keeps_ctl) (simp add: same_selection_def)
  show ?thesis
    unfolding reconcile_existing_file_def hash_and_size_def
    by (intro keeps_if keeps_andthen keeps_try pres tr fin)
qed

lemma scope_loop_selects:
  assumes "scope_loop env g fault qs sel ex s = (Inr (n, k), t)" and "\<And>j. e_sha (env j) = e_sha e"
    and "g_max_files g = 0 \<or> sel \<le> g_max_files g"
  shows "snd t = snd s \<and> n = sel + length (selection e g (snd s) sel qs) \<and>
    k = ex + length (filter fst (dry_loop e g (snd s) qs sel)) \<and>
    run_items (x_db (fst t)) = run_items (x_db (fst s)) @ ranked g sel (selection e g (snd s) sel qs)"
  using assms(1,3)
proof (induction qs arbitrary: sel ex s)
  case Nil
  then show ?case by (simp add: ret_def selection_def ranked_def)
next
  case (Cons q qs)
  show ?case
  proof (cases "g_max_files g \<noteq> 0 \<and> g_max_files g \<le> sel")
    case True
    with Cons.prems show ?thesis by (simp add: ret_def selection_def ranked_def)
  next
    case go: False
    let ?e = "env (sel + ex)"
    let ?target = "snd (resolved_storage_target ?e g (q_path q) (q_url q) (snd s))"
    have miss: "missing_final e g (snd s) q \<longleftrightarrow> \<not> exists ?target (snd s)"
      using resolved_cong [of ?e e] assms(2) by (simp add: missing_final_def)
    show ?thesis
    proof (cases "exists ?target (snd s)")
      case True
      let ?cur = "map_option d_status (find_download (q_url q) (x_db (fst s)))"
      let ?m = "if scope_run_tracked ?cur then ret () else reconcile_existing_file ?e g fault (q_url q) ?target (q_sha256 q)"
      have k: "keeps (same_selection (run_items (x_db (fst s))) (snd s)) ?m"
        by (intro pres reconcile_existing_keeps)
      obtain r u where mu: "?m s = (r, u)" by (cases "?m s")
      have u: "run_items (x_db (fst u)) = run_items (x_db (fst s))" "snd u = snd s"
        using keepsD [OF k _ mu] by (simp_all add: same_selection_def)
      have "scope_loop env g fault qs sel (ex + 1) u = (Inr (n, k), t)"
        using Cons.prems(1) [unfolded scope_loop.simps(2) if_not_P [OF go]] True mu
        by (cases r) (simp_all add: andthen_def look_def read_ctl_def ctl_def gets_def Let_def split_beta)
      from Cons.IH [OF this Cons.prems(2)] u True miss show ?thesis
        unfolding dry_loop.simps if_not_P [OF go] by (simp add: selection_def missing_final_def Let_def split_beta)
    next
      case False
      let ?u = "((fst s)\<lparr>x_db := insert_run_item g (q_url q) sel (x_db (fst s))\<rparr>, snd s)"
      have "scope_loop env g fault qs (sel + 1) ex ?u = (Inr (n, k), t)"
        using Cons.prems(1) [unfolded scope_loop.simps(2) if_not_P [OF go]] False
        by (simp add: andthen_def look_def on_db_def ctl_def modify_def Let_def split_beta)
      from Cons.IH [OF this] go
      have ih: "snd t = snd s" "k = ex + length (filter fst (dry_loop e g (snd s) qs (sel + 1)))"
        "n = sel + 1 + length (selection e g (snd s) (sel + 1) qs)"
        "run_items (x_db (fst t)) = run_items (x_db (fst s)) @ ranked g sel [q_url q] @
           ranked g (sel + 1) (selection e g (snd s) (sel + 1) qs)"
        by (auto simp: insert_run_item_def ranked_def)
      have "selection e g (snd s) sel (q # qs) = q_url q # selection e g (snd s) (sel + 1) qs"
      proof (cases "g_max_files g = 0")
        case True
        then show ?thesis using miss False by (simp add: selection_def)
      next
        case nz: False
        then have "g_max_files g - sel = Suc (g_max_files g - (sel + 1))" using go by simp
        then show ?thesis using nz miss False by (simp add: selection_def)
      qed
      with ih miss False show ?thesis
        unfolding dry_loop.simps if_not_P [OF go] by (simp add: ranked_def missing_final_def Let_def split_beta)
    qed
  qed
qed

lemma dry_loop_selection:
  assumes "g_max_files g = 0 \<or> sel \<le> g_max_files g"
  shows "map (\<lambda>l. snd (snd l)) (filter (\<lambda>l. \<not> fst l) (dry_loop e g f qs sel)) = selection e g f sel qs"
  using assms
proof (induction qs arbitrary: sel)
  case (Cons q qs)
  show ?case
  proof (cases "g_max_files g \<noteq> 0 \<and> g_max_files g \<le> sel")
    case True
    then show ?thesis by (simp add: selection_def)
  next
    case go: False
    have step: "g_max_files g - sel = Suc (g_max_files g - (sel + 1))" if "g_max_files g \<noteq> 0" using go that by simp
    have "g_max_files g = 0 \<or> sel + 1 \<le> g_max_files g" using go by auto
    from Cons.IH [OF this] Cons.IH [OF Cons.prems] step show ?thesis
      unfolding dry_loop.simps if_not_P [OF go]
      by (auto simp: selection_def missing_final_def Let_def split_beta)
  qed
qed (simp add: selection_def)

lemma run_urls_append:
  "run_urls rid (d\<lparr>run_items := is @ js\<rparr>) = run_urls rid (d\<lparr>run_items := is\<rparr>) @ run_urls rid (d\<lparr>run_items := js\<rparr>)"
  by (simp add: run_urls_def)

lemma ranked_urls: "filter (\<lambda>i. ri_run i = g_run g) (ranked g n us) = ranked g n us" "map ri_url (ranked g n us) = us"
  "map ri_rank (ranked g n us) = map int [n..<n + length us]"
proof -
  show "filter (\<lambda>i. ri_run i = g_run g) (ranked g n us) = ranked g n us"
    by (auto simp: ranked_def filter_id_conv)
  show "map ri_url (ranked g n us) = us" "map ri_rank (ranked g n us) = map int [n..<n + length us]"
    by (induction us arbitrary: n) (auto simp: ranked_def upt_conv_Cons simp del: upt_Suc)
qed


lemma start_revision_frames [simp]:
  "run_items (start_revision g d) = run_items d" "downloads (start_revision g d) = downloads d"
  by (simp_all add: start_revision_def)

text \<open>The first start of a run, as one run of the loop.\<close>

lemma scope_run_fresh:
  assumes "scope_run env g fault qs s = (Inr (n, k), t)" and "run_urls (g_run g) (x_db (fst s)) = []"
    and "\<And>j. e_sha (env j) = e_sha e"
  shows "snd t = snd s" and "run_urls (g_run g) (x_db (fst t)) = selection e g (snd s) 0 qs"
    and "n = length (selection e g (snd s) 0 qs)" and "k = length (filter fst (dry_loop e g (snd s) qs 0))"
    and "ranks_ok (g_run g) (x_db (fst t))" and "map_of (revisions (x_db (fst t))) (g_run g) \<noteq> None"
proof -
  let ?s = "((fst s)\<lparr>x_db := start_revision g (x_db (fst s))\<rparr>, snd s)"
  have none: "run_urls (g_run g) (x_db (fst ?s)) = []" using assms(2) by (simp add: run_urls_def)
  obtain r u where loop: "scope_loop env g fault qs 0 0 ?s = (r, u)" by (cases "scope_loop env g fault qs 0 0 ?s")
  from assms(1) loop none
  have r: "r = Inr (n, k)" and t: "t = ((fst u)\<lparr>x_db := snd (advance_telemetry_revision (g_run g) (x_db (fst u)))\<rparr>, snd u)"
    by (auto simp: scope_run_def andthen_def on_db_def read_ctl_def ctl_def modify_def gets_def ret_def split: sum.splits)
  from scope_loop_selects [OF loop [unfolded r] assms(3)]
  have u: "snd u = snd s" "n = length (selection e g (snd s) 0 qs)" "k = length (filter fst (dry_loop e g (snd s) qs 0))"
    "run_items (x_db (fst u)) = run_items (x_db (fst s)) @ ranked g 0 (selection e g (snd s) 0 qs)"
    by simp_all
  have own: "filter (\<lambda>i. ri_run i = g_run g) (run_items (x_db (fst s))) = []"
    using assms(2) by (simp add: run_urls_def)
  show "snd t = snd s" "n = length (selection e g (snd s) 0 qs)" "k = length (filter fst (dry_loop e g (snd s) qs 0))"
    using u t by simp_all
  show "run_urls (g_run g) (x_db (fst t)) = selection e g (snd s) 0 qs"
    by (simp add: t u(4) run_urls_def own ranked_urls)
  have "distinct (map ri_rank (ranked g 0 us))" for us
    by (simp only: ranked_urls) (simp add: distinct_map)
  moreover have "0 \<le> ri_rank i" if "i \<in> set (ranked g 0 us)" for us i
    using that by (auto simp: ranked_def)
  ultimately show "ranks_ok (g_run g) (x_db (fst t))"
    using own by (auto simp: t u(4) ranks_ok_def ranked_urls(1) filter_empty_conv)
  show "map_of (revisions (x_db (fst t))) (g_run g) \<noteq> None"
    by (simp add: t advance_telemetry_revision_def Let_def update_conv)
qed


definition example_entry :: "string \<Rightarrow> string list \<Rightarrow> queue_entry" where
  "example_entry url names = \<lparr>q_url = url, q_path = \<lparr>pp_absolute = False, pp_names = names\<rparr>, q_size = None,
     q_sha256 = None, q_generation = None\<rparr>"

definition example_entries :: "queue_entry list" where
  "example_entries = [example_entry ''u3'' [''f'', ''c''], example_entry ''u1'' [''f'', ''a''], example_entry ''u2'' [''f'', ''b'']]"

definition example_fs :: fs where
  "example_fs = \<lparr>f_node = [[] \<mapsto> Directory, [''d''] \<mapsto> Directory, [''s''] \<mapsto> Directory, [''d'', ''f''] \<mapsto> Directory,
       [''d'', ''f'', ''c''] \<mapsto> File 0], f_data = (\<lambda>_. ''content'')\<rparr>"

definition no_fault :: fault where
  "no_fault call p = None"

definition example_new_run :: config where
  "example_new_run = example_config\<lparr>g_run := ''new'', g_max_files := 1\<rparr>"

lemma example_scope:
  "fst (scope_run (\<lambda>_. example_env) example_new_run no_fault example_entries (example_state, example_fs)) = Inr (1, 1)"
  "selection example_env example_new_run example_fs 0 example_entries = [''u1'']"
  "run_urls ''new'' (x_db example_state) = []"
  by code_simp+


text \<open>
  A dry run predicts the real one.  Over the same queue and file system, the counts
  \<open>dry_run\<close> prints are the ones \<open>scope_run\<close> returns at the first start, and the entries it lists
  as missing are the selected ones, in order.
\<close>
theorem dry_run_predicts_scope_run:
  assumes "scope_run env g fault qs s = (Inr (n, k), t)" and "run_urls (g_run g) (x_db (fst s)) = []"
    and "\<And>j. e_sha (env j) = e_sha e"
  shows "snd (dry_run e g (snd s) qs) = (k, n) \<and>
    map (\<lambda>l. snd (snd l)) (filter (\<lambda>l. \<not> fst l) (fst (dry_run e g (snd s) qs))) = run_urls (g_run g) (x_db (fst t))"
proof -
  note fresh = scope_run_fresh [OF assms]
  have sel: "map (\<lambda>l. snd (snd l)) (filter (\<lambda>l. \<not> fst l) (dry_loop e g (snd s) qs 0)) = selection e g (snd s) 0 qs"
    by (rule dry_loop_selection) simp
  then have "length (filter (\<lambda>l. \<not> fst l) (dry_loop e g (snd s) qs 0)) = n"
    using fresh(3) by (metis length_map)
  then show ?thesis using fresh sel by (simp add: dry_run_def Let_def)
qed

theorem dry_run_predicts_scope_run_witness:
  "snd (dry_run example_env example_new_run example_fs example_entries) = (1, 1)"
proof -
  let ?r = "scope_run (\<lambda>_. example_env) example_new_run no_fault example_entries (example_state, example_fs)"
  have r: "?r = (Inr (1, 1), snd ?r)" using example_scope(1) by (metis prod.collapse)
  have run: "run_urls (g_run example_new_run) (x_db (fst (example_state, example_fs))) = []"
    using example_scope(3) by (simp add: example_new_run_def)
  from dry_run_predicts_scope_run [OF r run, of example_env] show ?thesis by simp
qed

subsection \<open>A verified existing file stops the selection\<close>

lemma reconcile_verified:
  assumes "x_provenance (fst s) = Some w" and "reject_credentialed_url (JStr url) = None"
    and "content target (snd s) = Some data" and "str_lower (e_sha e data) = str_lower expected" and "expected \<noteq> []"
    and "fault SysOpen target = None" and "fault SysLstat target = None"
  shows "\<exists>x. reconcile_existing_file e g fault url target (Some expected) s =
    (Inl (Raised (OtherRuntime ''TypeError'')), (x, snd s)) \<and> x_db x = x_db (fst s) \<and>
    x_provenance x = Some (w\<lparr>pw_sequence := pw_sequence w + 1\<rparr>)"
proof -
  have "\<exists>i. follow (lstat target (snd s)) = Some (File i) \<and> f_data (snd s) i = data"
    using assms(3) by (auto simp: content_def split: option.splits node.splits)
  then have hs: "hash_and_size e fault target s = (Inr (e_sha e data, int (length data)), s)"
    using assms(6,7)
    by (auto simp: hash_and_size_def andthen_def sys_def sha256sum_def read_bytes_def stat_size_def exists_def
        size_of_def content_def ret_def)
  show ?thesis
    using assms(1,2,4,5)
    by (simp add: reconcile_existing_file_def andthen_def try_except_def hs ret_def ctl_def
        finalized_event_of_paths_def Let_def)
qed

text \<open>
  A final file that is already there with the digest the queue announces stops the program.
  When the first entry of the queue has such a file and its row is not yet in a settled state,
  \<open>scope_run\<close> ends in a \<open>TypeError\<close> (it hands path objects to the JSON encoder of the
  provenance writer), selects nothing, leaves the row as it was and takes a sequence number
  without an event.
\<close>
theorem verified_final_stops_selection:
  assumes "run_urls (g_run g) (x_db (fst s)) = []" and "x_provenance (fst s) = Some w"
    and "target = snd (resolved_storage_target (env 0) g (q_path q) (q_url q) (snd s))"
    and "content target (snd s) = Some data" and "q_sha256 q = Some expected" and "expected \<noteq> []"
    and "str_lower (e_sha (env 0) data) = str_lower expected" and "reject_credentialed_url (JStr (q_url q)) = None"
    and "fault SysOpen target = None" and "fault SysLstat target = None"
    and "\<not> scope_run_tracked (map_option d_status (find_download (q_url q) (x_db (fst s))))"
  shows "\<exists>t. scope_run env g fault (q # qs) s = (Inl (Raised (OtherRuntime ''TypeError'')), t) \<and>
    downloads (x_db (fst t)) = downloads (x_db (fst s)) \<and> run_urls (g_run g) (x_db (fst t)) = [] \<and>
    x_provenance (fst t) = Some (w\<lparr>pw_sequence := pw_sequence w + 1\<rparr>)"
proof -
  let ?s = "((fst s)\<lparr>x_db := start_revision g (x_db (fst s))\<rparr>, snd s)"
  have there: "exists target (snd s)"
    using assms(4) by (auto simp: content_def exists_def split: option.splits)
  have "find_download (q_url q) (start_revision g (x_db (fst s))) = find_download (q_url q) (x_db (fst s))"
    by (simp add: find_download_def)
  note tracked = assms(11) [folded this]
  have w: "x_provenance (fst ?s) = Some w" and c: "content target (snd ?s) = Some data"
    using assms(2,4) by simp_all
  obtain x where x: "reconcile_existing_file (env 0) g fault (q_url q) target (q_sha256 q) ?s =
      (Inl (Raised (OtherRuntime ''TypeError'')), (x, snd ?s))" "x_db x = x_db (fst ?s)"
      "x_provenance x = Some (w\<lparr>pw_sequence := pw_sequence w + 1\<rparr>)"
    using reconcile_verified [where s = ?s and fault = fault and target = target, OF w assms(8) c assms(7,6,9,10)] assms(5) by metis
  have urls: "run_urls (g_run g) (start_revision g (x_db (fst s))) = []"
    using assms(1) by (simp add: run_urls_def)
  have "scope_run env g fault (q # qs) s = (Inl (Raised (OtherRuntime ''TypeError'')), (x, snd s))"
    using x(1) tracked there urls
    by (auto simp: scope_run_def andthen_def on_db_def read_ctl_def ctl_def modify_def gets_def look_def Let_def
        split_beta assms(3) [symmetric])
  then show ?thesis using x(2,3) urls by simp
qed

definition example_verified :: "downloader \<times> fs" where
  "example_verified = (example_state\<lparr>x_provenance := Some (new_writer ''r'' ''s'')\<rparr>, example_fs)"

theorem verified_final_stops_selection_witness:
  "\<exists>t. scope_run (\<lambda>_. example_env) example_new_run no_fault
     [(example_entry ''u1'' [''f'', ''c''])\<lparr>q_sha256 := Some ''content''\<rparr>] example_verified =
       (Inl (Raised (OtherRuntime ''TypeError'')), t) \<and> run_urls ''new'' (x_db (fst t)) = []"
proof -
  let ?q = "(example_entry ''u1'' [''f'', ''c''])\<lparr>q_sha256 := Some ''content''\<rparr>"
  have run: "g_run example_new_run = ''new''" by (simp add: example_new_run_def)
  have f: "run_urls (g_run example_new_run) (x_db (fst example_verified)) = []"
      "content (snd (resolved_storage_target example_env example_new_run (q_path ?q) (q_url ?q) (snd example_verified)))
         (snd example_verified) = Some ''content''"
      "str_lower (e_sha example_env ''content'') = str_lower ''content''"
      "reject_credentialed_url (JStr (q_url ?q)) = None"
      "\<not> scope_run_tracked (map_option d_status (find_download (q_url ?q) (x_db (fst example_verified))))"
    by code_simp+
  have w: "x_provenance (fst example_verified) = Some (new_writer ''r'' ''s'')"
    by (simp add: example_verified_def)
  have n: "no_fault c p = None" for c p by (simp add: no_fault_def)
  from verified_final_stops_selection [where env = "\<lambda>_. example_env" and qs = "[]" and fault = no_fault,
      OF f(1) w refl f(2) _ _ f(3,4) n n f(5)]
  show ?thesis unfolding run by (auto simp: example_entry_def)
qed

subsection \<open>Imports keep what is known\<close>

definition progress :: "download \<Rightarrow> _" where
  "progress r = (d_status r, d_attempts r, d_bytes r, d_sha256 r, d_last_error r, d_next_retry_at r, d_review_code r,
     d_etag r, d_last_modified r, d_staging_generation r, d_recheck_at r, d_cleanup_completed_at r)"

lemma progress_update_where:
  assumes "\<And>r. progress (h r) = progress r" and "\<And>r. d_url (h r) = d_url r"
  shows "map (\<lambda>r. (d_url r, progress r)) (downloads (update_where p h d)) = map (\<lambda>r. (d_url r, progress r)) (downloads d)"
  using assms by (auto simp: comp_def)

definition known :: "db \<Rightarrow> (string \<times> _) list" where
  "known d = map (\<lambda>r. (d_url r, progress r)) (downloads d)"

lemma import_entry_known:
  "known (import_entry e g f q d) = known (insert_or_ignore
     (new_download (q_url q) (as_posix (q_path q)) (Some (as_posix (fst (resolved_storage_target e g (q_path q) (q_url q) f))))
        (Some (loc_text (staging_path e g (q_url q)))) (q_size q) (q_sha256 q) (e_now e)) d)"
  unfolding import_entry_def record_source_generation_def Let_def known_def
  by (subst progress_update_where, simp add: progress_def, simp)+ simp

lemma import_entry_wf: "wf_db d \<Longrightarrow> wf_db (import_entry e g f q d) \<and> run_items (import_entry e g f q d) = run_items d"
proof -
  have "wf_db (insert_or_ignore r d)" if "wf_db d" for r d
    using that by (auto simp: insert_or_ignore_def wf_db_def find_download_None)
  moreover have "run_items (insert_or_ignore r d) = run_items d" for r d
    by (simp add: insert_or_ignore_def)
  ultimately show "wf_db d \<Longrightarrow> ?thesis"
    by (auto simp: import_entry_def record_source_generation_def Let_def intro!: wf_db_update_where)
qed

lemma import_entry_urls: "map fst (known (import_entry e g f q d)) =
    map fst (known d) @ (if q_url q \<in> set (map fst (known d)) then [] else [q_url q])"
  unfolding import_entry_known
  by (auto simp: insert_or_ignore_def known_def comp_def find_download_None new_download_def)

lemma import_entry_grows: "\<exists>xs. known (import_entry e g f q d) = known d @ xs \<and> (\<forall>x \<in> set xs. fst (snd x) = Queued)"
  unfolding import_entry_known
  by (auto simp: insert_or_ignore_def known_def progress_def new_download_def)

text \<open>
  Importing the queue loses nothing.  Over any queue, every known URL keeps its state, its
  attempts, its byte count, its validators and its retry time; every queue URL is in the table
  afterwards, a new one in state \<open>queued\<close>; the table keeps its key and the selections of runs
  stay.
\<close>
theorem import_keeps_progress:
  assumes "wf_db d" and "(n, d') = import_queues e g f qs d"
  shows "n = length qs \<and> wf_db d' \<and> run_items d' = run_items d \<and>
    (\<exists>xs. known d' = known d @ xs \<and> (\<forall>x \<in> set xs. fst (snd x) = Queued)) \<and>
    set (map fst (known d')) = set (map fst (known d)) \<union> set (map q_url qs)"
proof -
  have "wf_db (fold (import_entry e g f) qs d) \<and> run_items (fold (import_entry e g f) qs d) = run_items d \<and>
    (\<exists>xs. known (fold (import_entry e g f) qs d) = known d @ xs \<and> (\<forall>x \<in> set xs. fst (snd x) = Queued)) \<and>
    set (map fst (known (fold (import_entry e g f) qs d))) = set (map fst (known d)) \<union> set (map q_url qs)"
    using assms(1)
  proof (induction qs arbitrary: d)
    case (Cons q qs)
    let ?d = "import_entry e g f q d"
    have w: "wf_db ?d" "run_items ?d = run_items d" using import_entry_wf [OF Cons.prems] by simp_all
    obtain xs where xs: "known ?d = known d @ xs" "\<forall>x \<in> set xs. fst (snd x) = Queued"
      using import_entry_grows by blast
    have u: "set (map fst (known ?d)) = set (map fst (known d)) \<union> {q_url q}"
      unfolding import_entry_urls by auto
    from Cons.IH [OF w(1)] w(2) xs u show ?case by auto
  qed simp
  then show ?thesis using assms(2) by (simp add: import_queues_def)
qed

theorem import_keeps_progress_witness:
  "wf_db example_db \<and> set (map fst (known (snd (import_queues example_env example_new_run example_fs example_entries example_db)))) =
     {''u1'', ''u2'', ''u3''}"
proof -
  have d: "known example_db = map (\<lambda>u. (u, progress (example_row u (if u = ''u1'' then Queued else if u = ''u2'' then RetryWait else ReviewRequired))))
      [''u1'', ''u2'', ''u3'']"
    by (simp add: known_def example_db_def empty_db_def example_row_def new_download_def)
  obtain n d' where n: "import_queues example_env example_new_run example_fs example_entries example_db = (n, d')"
    by fastforce
  have m: "map q_url example_entries = [''u3'', ''u1'', ''u2'']"
    by (simp add: example_entries_def example_entry_def)
  from import_keeps_progress [OF example_ok(1) n [symmetric]] example_ok(1) show ?thesis
    unfolding n m d by auto
qed

subsection \<open>Slots and starts\<close>

text \<open>
  An admitted transfer always finds a worker slot.  While fewer transfers than workers hold
  a slot, \<open>reserve_worker_id\<close> does not raise: it returns the least number from 1 to the number
  of workers that no transfer holds.
\<close>
theorem worker_slot_available:
  assumes "length (x_worker_ids s) < g_workers g"
  shows "\<exists>k. reserve_worker_id g s = Some k \<and> 1 \<le> k \<and> k \<le> g_workers g \<and> k \<notin> set (map snd (x_worker_ids s)) \<and>
    {1..<k} \<subseteq> set (map snd (x_worker_ids s))"
proof -
  let ?used = "set (map snd (x_worker_ids s))"
  have "card ?used \<le> length (x_worker_ids s)" using card_length [of "map snd (x_worker_ids s)"] by simp
  with assms have "card ?used < card {1..g_workers g}" by simp
  then have "\<not> {1..g_workers g} \<subseteq> ?used"
    using card_mono [of ?used "{1..g_workers g}"] by auto
  then have "reserve_worker_id g s \<noteq> None"
    by (auto simp: reserve_worker_id_def find_None_iff)
  then obtain k where k: "reserve_worker_id g s = Some k" by blast
  then obtain i where i: "i < length [1..<Suc (g_workers g)]" "k = [1..<Suc (g_workers g)] ! i" "k \<notin> ?used"
    "\<forall>j < i. [1..<Suc (g_workers g)] ! j \<in> ?used"
    unfolding reserve_worker_id_def find_Some_iff by auto
  have "{1..<k} \<subseteq> ?used"
  proof
    fix x assume x: "x \<in> {1..<k}"
    with i(1,2) have "x - 1 < i" "[1..<Suc (g_workers g)] ! (x - 1) = x" by (auto simp del: upt_Suc)
    with i(4) show "x \<in> ?used" by metis
  qed
  with k i show ?thesis by (auto simp del: upt_Suc)
qed

theorem worker_slot_available_witness:
  "reserve_worker_id example_config (example_state\<lparr>x_worker_ids := [(''u1'', 1)]\<rparr>) = Some 2"
proof -
  let ?s = "example_state\<lparr>x_worker_ids := [(''u1'', 1)]\<rparr>"
  have "length (x_worker_ids ?s) < g_workers example_config" by (simp add: example_config_def)
  from worker_slot_available [OF this] obtain k where k: "reserve_worker_id example_config ?s = Some k"
    "1 \<le> k" "k \<le> g_workers example_config" "k \<notin> set (map snd (x_worker_ids ?s))" by blast
  then have "k = 2" by (auto simp: example_config_def)
  with k show ?thesis by simp
qed

text \<open>Successive starts, each sleeping at least as long as it was told to.\<close>

fun starts :: "config \<Rightarrow> (rat \<times> rat) list \<Rightarrow> downloader \<Rightarrow> bool" where
  "starts g [] s = True"
| "starts g ((t0, t1) # ts) s =
     (t0 + fst (wait_for_start_slot g t0 t1 s) \<le> t1 \<and> starts g ts (snd (wait_for_start_slot g t0 t1 s)))"

lemma starts_after: "starts g ts s \<Longrightarrow> 0 \<le> g_stagger g \<Longrightarrow> \<forall>t \<in> set (map snd ts). x_next_start s \<le> t"
  by (induction g ts s rule: starts.induct) (fastforce simp: wait_for_start_slot_def max_def split: if_splits)+

text \<open>
  Worker starts are staggered.  Whatever the clock reads, any two of the successive starts
  that went through \<open>wait_for_start_slot\<close> are at least the stagger interval apart.
\<close>
theorem starts_are_staggered:
  assumes "starts g ts s" and "0 \<le> g_stagger g"
  shows "sorted_wrt (\<lambda>a b. a + g_stagger g \<le> b) (map snd ts)"
  using assms
proof (induction g ts s rule: starts.induct)
  case (2 g t0 t1 ts s)
  have "starts g ts (snd (wait_for_start_slot g t0 t1 s))" using 2(2) by simp
  from starts_after [OF this 2(3)] 2 show ?case
    by (auto simp: wait_for_start_slot_def)
qed simp

theorem starts_are_staggered_witness:
  "starts example_config [(0, 0), (1 / 2, 1), (5, 5)] example_state \<and>
   sorted_wrt (\<lambda>a b. a + 1 \<le> b) (map snd [(0, 0), (1 / 2, 1), (5 :: rat, 5 :: rat)])"
proof -
  have s: "starts example_config [(0, 0), (1 / 2, 1), (5, 5)] example_state"
    by (simp add: wait_for_start_slot_def example_config_def example_state_def init_downloader_def)
  from starts_are_staggered [OF s] s show ?thesis by (simp add: example_config_def)
qed

end
