(* ===== verification/Transfers.thy ===== *)
theory Transfers
  imports Scheduling Control
begin

text \<open>
  One admitted transfer (\<open>src/tod-dl.py\<close>): \<open>transfer\<close> with its helpers \<open>probe_representation\<close>,
  \<open>check_representation\<close>, \<open>classify_representation\<close>, \<open>enter_representation_review\<close>,
  \<open>run_aria2\<close>, \<open>capture_response\<close>, \<open>recheck_unavailable\<close> and \<open>clear_transfer_telemetry\<close>.

  The external engine (aria2 under torsocks), the HEAD request and the other processes of the
  machine are the argument \<open>world\<close>: what each system call would fail with, the answer to a HEAD
  request, the polls the controller makes while the engine runs, what the engine leaves in the
  file system, its exit code and its two logs, and what happens to the file system just before
  the final name is created.  \<open>env k\<close> holds the readings taken at the \<open>k\<close>-th stage, so that every
  provenance event has its own identifier.  A transfer runs alone here; the waits for a cooldown
  change nothing and are left out.
\<close>

subsection \<open>The world\<close>

text \<open>One turn of the polling loop of \<open>run_aria2\<close>.\<close>

record poll =
  po_due :: bool
  po_sample :: "jobject option"
  po_job :: "jobject option"
  po_log :: "string option"
  po_deadline :: bool
  po_stop :: bool

record engine =
  en_spawn :: "os_error option"
  en_pid :: int
  en_polls :: "poll list"
  en_code :: int
  en_log :: string
  en_response_log :: "string option"
  en_files :: "fs \<Rightarrow> fs"

record world =
  w_fault :: fault
  w_rpc :: bool
  w_head :: "string \<Rightarrow> jobject option"
  w_engine :: engine
  w_hexes :: "string list"
  w_race :: "fs \<Rightarrow> fs"

subsection \<open>Telemetry of a transfer\<close>

definition tell :: "(publisher \<Rightarrow> publisher) \<Rightarrow> unit fstep" where
  "tell f = ctl (modify (\<lambda>s. s\<lparr>x_telemetry := map_option f (x_telemetry s)\<rparr>))"

definition announce :: "env \<Rightarrow> string \<Rightarrow> string \<Rightarrow> string \<Rightarrow> string \<Rightarrow> nat option \<Rightarrow> unit fstep" where
  "announce e severity category message url worker =
     tell (tp_event (e_now e) severity category message (Some url) worker)"

definition clear_transfer_telemetry :: "string \<Rightarrow> unit fstep" where
  "clear_transfer_telemetry url =
     andthen (ctl (modify (\<lambda>s. s\<lparr>x_active := AList.delete url (x_active s),
         x_worker_ids := AList.delete url (x_worker_ids s),
         x_active_attempts := AList.delete url (x_active_attempts s)\<rparr>)))
       (\<lambda>_. tell (\<lambda>p. tp_clear_active url (tp_clear_validation url p)))"

subsection \<open>Representation checks\<close>

text \<open>A pair of validators, the entity tag and the modification date.\<close>

type_synonym validators = "string option \<times> string option"

definition given :: "string option \<Rightarrow> bool" where
  "given v = (v \<notin> {None, Some []})"

definition json_text :: "json \<Rightarrow> string option" where
  "json_text v = (case v of JStr t \<Rightarrow> Some t | _ \<Rightarrow> None)"

definition success_status :: "json \<Rightarrow> bool" where
  "success_status v = (eq_int v 200 \<or> eq_int v 206)"

definition probe_representation :: "world \<Rightarrow> string \<Rightarrow> validators option" where
  "probe_representation w url =
     (case w_head w url of
        None \<Rightarrow> None
      | Some payload \<Rightarrow>
          if success_status (jget payload ''status'')
          then Some (json_text (jget payload ''etag''), json_text (jget payload ''last_modified'')) else None)"

datatype decision = ConfirmedUnchanged | Changed | Unconfirmed

definition classify_representation :: "string option \<Rightarrow> string option \<Rightarrow> validators \<Rightarrow> decision" where
  "classify_representation recorded_etag recorded_last_modified observed =
     (let fresh_etag = fst observed in
      if given recorded_etag \<and> given fresh_etag \<and> recorded_etag = fresh_etag then ConfirmedUnchanged
      else if given recorded_etag \<and> given fresh_etag \<and> recorded_etag \<noteq> fresh_etag then Changed
      else if \<not> given recorded_etag \<and> given recorded_last_modified \<and> given (snd observed) \<and>
        recorded_last_modified \<noteq> snd observed then Changed
      else Unconfirmed)"

definition check_representation :: "world \<Rightarrow> string \<Rightarrow> string option \<Rightarrow> string option \<Rightarrow> decision \<times> validators" where
  "check_representation w url recorded_etag recorded_last_modified =
     (case probe_representation w url of
        None \<Rightarrow> (Unconfirmed, (None, None))
      | Some observed \<Rightarrow> (classify_representation recorded_etag recorded_last_modified observed, observed))"

text \<open>\<open>candidate_event\<close> with locations: the paths below the state and the candidate directory.\<close>

definition relative_text_to :: "loc \<Rightarrow> loc \<Rightarrow> string option" where
  "relative_text_to p base = map_option (\<lambda>ns. as_posix \<lparr>pp_absolute = False, pp_names = ns\<rparr>) (relative_to p base)"

definition candidate_made :: "env \<Rightarrow> config \<Rightarrow> string \<Rightarrow> loc \<Rightarrow> loc \<Rightarrow> string option \<Rightarrow> string \<Rightarrow> unit fstep" where
  "candidate_made e g url staging candidate sha256 reason =
     (case (relative_text_to staging (g_state g), relative_text_to candidate (candidates g)) of
        (Some st, Some ca) \<Rightarrow> ctl (candidate_event e url st (Some ca) sha256 reason)
      | _ \<Rightarrow> raise (Raised (OtherRuntime ''ValueError'')))"

definition enter_representation_review :: "env \<Rightarrow> config \<Rightarrow> world \<Rightarrow> string \<Rightarrow> loc \<Rightarrow> decision \<Rightarrow> validators \<Rightarrow> unit fstep" where
  "enter_representation_review e g w url staging decision observed =
     (let cause = (if decision = Changed then ''changed_remote_representation'' else ''no_reliable_version_protection'');
          detail = (if decision = Changed then ''changed remote representation detected on resume''
                    else ''no reliable version protection or expected checksum on resume'')
      in andthen (move_candidate g (w_fault w) (w_hexes w) staging) (\<lambda>candidate.
         andthen (candidate_made e g url staging candidate None cause) (\<lambda>_.
         andthen (ctl (transition e g url ReviewRequired (Some detail)
           (\<lambda>r. (set_review detail (Some cause) r)\<lparr>d_bytes := None, d_etag := fst observed,
                  d_last_modified := snd observed, d_recheck_at := None\<rparr>))) (\<lambda>_.
         clear_transfer_telemetry url))))"

subsection \<open>The daily recheck\<close>

definition staging_of :: "env \<Rightarrow> config \<Rightarrow> download \<Rightarrow> loc" where
  "staging_of e g r =
     (if given (d_staging_path r) then text_loc (the (d_staging_path r)) else staging_path e g (d_url r))"

definition staged :: "loc \<Rightarrow> fs \<Rightarrow> bool" where
  "staged p f = (exists p f \<and> 0 < size_of p f)"

definition recheck_unavailable :: "env \<Rightarrow> config \<Rightarrow> world \<Rightarrow> download \<Rightarrow> string fstep" where
  "recheck_unavailable e g w r =
     (let url = d_url r; staging = staging_of e g r in
      case w_head w url of
        None \<Rightarrow> ret ''still_unavailable''
      | Some payload \<Rightarrow>
          if \<not> success_status (jget payload ''status'') then ret ''still_unavailable''
          else
            let observed = (json_text (jget payload ''etag''), json_text (jget payload ''last_modified''));
                again = (\<lambda>detail. andthen (ctl (transition e g url Queued (Some detail)
                     (\<lambda>r. r\<lparr>d_next_retry_at := 0, d_recheck_at := None\<rparr>))) (\<lambda>_. ret ''recheck_available''))
            in andthen (look (staged staging)) (\<lambda>partial.
               if d_staging_generation r = None \<or> \<not> partial
               then again ''recheck: available again; admitted as fresh work''
               else if given (d_expected_sha256 r)
               then again ''recheck: available again; expected checksum protects the resume''
               else
                 let decision = classify_representation (d_etag r) (d_last_modified r) observed in
                 if decision \<noteq> ConfirmedUnchanged
                 then andthen (enter_representation_review e g w url staging decision observed) (\<lambda>_. ret ''recheck_review'')
                 else again ''recheck: available again; representation confirmed unchanged''))"

subsection \<open>The engine\<close>

definition counter :: "jobject \<Rightarrow> string \<Rightarrow> int option" where
  "counter sample name =
     (case jget sample name of JStr t \<Rightarrow> if is_decimal t then Some (int (parse_nat t)) else None | _ \<Rightarrow> None)"

datatype engine_end = Exited | Outcome bool | Stopped

text \<open>\<open>while process.poll() is None\<close>: a turn per poll; the list ends when the process has.\<close>

fun poll_loop :: "env \<Rightarrow> string \<Rightarrow> bool \<Rightarrow> poll list \<Rightarrow> bool \<Rightarrow> downloader \<Rightarrow> engine_end \<times> downloader" where
  "poll_loop e url rpc [] gid s = (Exited, s)"
| "poll_loop e url rpc (p # ps) gid s =
     (let sample = (case po_sample p of Some (x # xs) \<Rightarrow> Some (x # xs) | _ \<Rightarrow> None);
          (terminal, gid, s) =
            (if rpc \<and> po_due p
             then
               let s = (case sample of None \<Rightarrow> s
                     | Some kvs \<Rightarrow> s\<lparr>x_telemetry := map_option (tp_update_sample (e_mono e) (e_now e) url
                         (counter kvs ''completedLength'') (counter kvs ''totalLength'')
                         (counter kvs ''downloadSpeed'') (counter kvs ''connections'')) (x_telemetry s)\<rparr>);
                   gid = (case sample of None \<Rightarrow> gid | Some kvs \<Rightarrow> (case jget kvs ''gid'' of JStr t \<Rightarrow> t \<noteq> [] | _ \<Rightarrow> gid));
                   job = (if sample \<noteq> None \<or> gid then aria2_rpc_job_status gid (po_job p) else None)
               in (case job of Some t \<Rightarrow> Some t | None \<Rightarrow> aria2_log_terminal_status (po_log p), gid, s)
             else (None, gid, s))
      in case terminal of
           Some t \<Rightarrow> (Outcome (t = ''complete''), s)
         | None \<Rightarrow>
             if po_stop p \<or> x_stop s \<or> po_deadline p then (Stopped, s\<lparr>x_stop := True\<rparr>)
             else poll_loop e url rpc ps gid s)"

text \<open>\<open>capture_response\<close>; a URL in the log that \<open>urlsplit\<close> refuses makes it raise \<open>ValueError\<close>.\<close>

definition capture_response :: "world \<Rightarrow> string \<Rightarrow> unit fstep" where
  "capture_response w url =
     (case parse_aria2_response_log (case en_response_log (w_engine w) of None \<Rightarrow> [] | Some t \<Rightarrow> t) url of
        None \<Rightarrow> raise (Raised (OtherRuntime ''ValueError''))
      | Some r \<Rightarrow> ctl (modify (\<lambda>s. s\<lparr>x_responses := AList.update url r (x_responses s)\<rparr>)))"

definition diagnostic :: "string list \<Rightarrow> string option" where
  "diagnostic ls = find (contains ''errorCode='') (rev ls)"

definition engine_report :: "engine \<Rightarrow> engine_end \<Rightarrow> bool \<times> string" where
  "engine_report en result =
     (let ls = splitlines (en_log en); dg = diagnostic ls in
      case result of
        Outcome ok \<Rightarrow> (ok, case dg of Some l \<Rightarrow> l | None \<Rightarrow> ''aria2 RPC job '' @ (if ok then ''complete'' else ''failed''))
      | _ \<Rightarrow> (en_code en = 0,
          if ls = [] then ''aria2 exited '' @ show_int (en_code en) else case dg of Some l \<Rightarrow> l | None \<Rightarrow> last ls))"

definition record_worker :: "env \<Rightarrow> string \<Rightarrow> int \<Rightarrow> unit fstep" where
  "record_worker e url pid =
     ctl (\<lambda>s. case (map_of (x_worker_ids s) url, map_of (x_active_attempts s) url, x_telemetry s) of
         (_, _, None) \<Rightarrow> (Inr (), s)
       | (Some k, Some n, Some p) \<Rightarrow>
           (Inr (), s\<lparr>x_telemetry := Some (tp_set_active (e_mono e) url k n ''downloading'' (Some pid) p)\<rparr>)
       | _ \<Rightarrow> (Inl KeyError, s))"

definition run_aria2 :: "env \<Rightarrow> world \<Rightarrow> string \<Rightarrow> loc \<Rightarrow> (bool \<times> string) fstep" where
  "run_aria2 e w url staging =
     andthen (sys (mkdir_parents (w_fault w) (butlast staging))) (\<lambda>_.
     andthen (case en_spawn (w_engine w) of None \<Rightarrow> ret () | Some x \<Rightarrow> raise (Os x)) (\<lambda>_.
     andthen (record_worker e url (en_pid (w_engine w))) (\<lambda>_.
     andthen (ctl (\<lambda>s. let (r, s) = poll_loop e url (w_rpc w) (en_polls (w_engine w)) False s in (Inr r, s))) (\<lambda>result.
     andthen (sys (\<lambda>f. Inr ((), en_files (w_engine w) f))) (\<lambda>_.
     andthen (capture_response w url) (\<lambda>_.
     ret (if result = Stopped then (False, ''run time limit or stop requested'')
          else engine_report (w_engine w) result)))))))"

subsection \<open>The transfer\<close>

text \<open>What \<open>transfer\<close> binds before it does anything.\<close>

definition target_of :: "env \<Rightarrow> config \<Rightarrow> download \<Rightarrow> loc" where
  "target_of e g r =
     target_loc g (if given (d_storage_path r) then parse_path (the (d_storage_path r))
                   else stored_path e g (parse_path (d_relative_path r)))"

definition stored_text_of :: "env \<Rightarrow> config \<Rightarrow> download \<Rightarrow> string" where
  "stored_text_of e g r =
     (if given (d_storage_path r) then the (d_storage_path r)
      else as_posix (stored_path e g (parse_path (d_relative_path r))))"

definition take_slot :: "env \<Rightarrow> config \<Rightarrow> download \<Rightarrow> loc \<Rightarrow> nat fstep" where
  "take_slot e g r staging =
     ctl (\<lambda>s. let url = d_url r; s = s\<lparr>x_active := AList.update url (loc_text staging) (x_active s)\<rparr> in
       case reserve_worker_id g s of
         None \<Rightarrow> (Inl (OtherRuntime ''no worker slot available for admitted transfer''), s)
       | Some k \<Rightarrow> (Inr k, s\<lparr>x_worker_ids := AList.update url k (x_worker_ids s),
             x_active_attempts := AList.update url (d_attempts r + 1) (x_active_attempts s)\<rparr>))"

text \<open>
  The protection of a resume: \<open>None\<close> when the transfer ends in review here, otherwise the columns
  the transition to \<open>active\<close> sets besides the attempt count.
\<close>

definition protect_resume :: "env \<Rightarrow> config \<Rightarrow> world \<Rightarrow> download \<Rightarrow> loc \<Rightarrow> (download \<Rightarrow> download) option fstep" where
  "protect_resume e g w r staging =
     (let url = d_url r; fresh = (\<lambda>q. if d_staging_generation r = None then q\<lparr>d_staging_generation := Some 1\<rparr> else q) in
      andthen (look (staged staging)) (\<lambda>partial.
      if \<not> partial
      then ret (Some (case (if given (d_expected_sha256 r) then None else probe_representation w url) of
              None \<Rightarrow> fresh
            | Some observed \<Rightarrow> (\<lambda>q. (fresh q)\<lparr>d_etag := fst observed, d_last_modified := snd observed\<rparr>)))
      else if \<not> given (d_expected_sha256 r) \<and> (given (d_etag r) \<or> given (d_last_modified r))
      then
        let (decision, observed) = check_representation w url (d_etag r) (d_last_modified r) in
        if decision \<noteq> ConfirmedUnchanged
        then andthen (enter_representation_review e g w url staging decision observed) (\<lambda>_. ret None)
        else andthen (ctl (modify (\<lambda>s. s\<lparr>x_resume_confirmed := List.insert url (x_resume_confirmed s)\<rparr>)))
               (\<lambda>_. ret (Some fresh))
      else ret (Some fresh)))"

definition reviewed :: "string \<Rightarrow> unit fstep \<Rightarrow> string fstep" where
  "reviewed url m = andthen m (\<lambda>_. andthen (clear_transfer_telemetry url) (\<lambda>_. ret ''review''))"

text \<open>Two incomplete bodies in a row without a byte of progress.\<close>

definition stalled :: "string \<Rightarrow> int \<Rightarrow> string \<Rightarrow> downloader \<Rightarrow> bool" where
  "stalled url n error s =
     (0 < n \<and> is_incomplete_body_failure error \<and>
      (case find_download url (x_db s) of
         None \<Rightarrow> False
       | Some p \<Rightarrow>
           (case (d_last_error p, d_bytes p) of
              (Some prior_error, Some prior_bytes) \<Rightarrow> is_incomplete_body_failure prior_error \<and> n \<le> prior_bytes
            | _ \<Rightarrow> False)))"

text \<open>What follows when the engine failed, left no file, or left its control file.\<close>

definition retry_delay :: "nat \<Rightarrow> rat" where
  "retry_delay attempts = RETRY_DELAYS ! (min attempts (length RETRY_DELAYS - 1))"

definition cool_down :: "env \<Rightarrow> config \<Rightarrow> string \<Rightarrow> nat \<Rightarrow> unit fstep" where
  "cool_down e g url worker =
     andthen (ctl (\<lambda>s.
       let s = s\<lparr>x_cooldown_until := max (x_cooldown_until s) (e_time e + g_socks_backoff g)\<rparr>;
           sid = (case x_telemetry s of None \<Rightarrow> ''automatic'' | Some p \<Rightarrow> tp_session p);
           (renewal, s) = request_newnym e g (e_uuid e) sid s
       in (Inr (fst renewal = ''completed''), s)))
     (\<lambda>renewed. if renewed then announce e ''info'' ''tor'' ''requested fresh Tor circuits'' url (Some worker) else ret ())"

definition failed_transfer :: "(nat \<Rightarrow> env) \<Rightarrow> config \<Rightarrow> world \<Rightarrow> download \<Rightarrow> loc \<Rightarrow> nat \<Rightarrow> string \<Rightarrow> string \<Rightarrow> string fstep" where
  "failed_transfer env g w r staging worker started error =
     (let url = d_url r; n = d_attempts r + 1;
          finish = (\<lambda>outcome. ctl (attempt_event (env 3) g url n started outcome))
      in
      andthen (look (\<lambda>f. if exists staging f then size_of staging f else 0)) (\<lambda>size_now.
      andthen (read_ctl (stalled url size_now error)) (\<lambda>no_progress.
      if no_progress
      then reviewed url
        (andthen (finish ''validation_failed'') (\<lambda>_.
         andthen (move_candidate g (w_fault w) (w_hexes w) staging) (\<lambda>candidate.
         andthen (candidate_made (env 4) g url staging candidate None ''incomplete_body'') (\<lambda>_.
         andthen (sys (stat_size (w_fault w) candidate)) (\<lambda>n.
         ctl (transition (env 5) g url ReviewRequired (Some error)
                (\<lambda>q. q\<lparr>d_bytes := Some n, d_last_error := Some error\<rparr>)))))))
      else if is_disk_full_failure error
      then andthen (ctl (modify (\<lambda>s. s\<lparr>x_paused := True\<rparr>))) (\<lambda>_.
           andthen (finish ''stopped'') (\<lambda>_.
           andthen (ctl (modify (record_local_failure (env 4) ''storage'' ''free space exhausted while writing staging''))) (\<lambda>_.
           andthen (ctl (transition (env 5) g url Queued (Some error)
             (\<lambda>q. q\<lparr>d_attempts := d_attempts r, d_bytes := Some size_now, d_last_error := Some error, d_next_retry_at := 0\<rparr>))) (\<lambda>_.
           andthen (announce (env 5) ''error'' ''local_failure'' error url (Some worker)) (\<lambda>_.
           andthen (clear_transfer_telemetry url) (\<lambda>_. ret ''local_failure''))))))
      else if is_access_denied_failure error
      then reviewed url
        (andthen (finish ''access_denied'') (\<lambda>_.
         andthen (ctl (transition (env 5) g url ReviewRequired (Some error)
           (\<lambda>q. q\<lparr>d_bytes := Some size_now, d_last_error := Some error, d_review_code := Some ''access_denied''\<rparr>))) (\<lambda>_.
         announce (env 5) ''warning'' ''access_denied'' error url (Some worker))))
      else if is_unavailable_failure error
      then andthen (finish ''unavailable'') (\<lambda>_.
           andthen (ctl (transition (env 5) g url Unavailable (Some error)
             (\<lambda>q. q\<lparr>d_bytes := Some size_now, d_last_error := Some error,
                d_recheck_at := Some (e_time (env 5) + UNAVAILABLE_RECHECK_INTERVAL_S), d_early_recheck := 0\<rparr>))) (\<lambda>_.
           andthen (announce (env 5) ''warning'' ''unavailable'' error url (Some worker)) (\<lambda>_.
           andthen (clear_transfer_telemetry url) (\<lambda>_. ret ''unavailable''))))
      else
        andthen (if is_connectivity_failure error then cool_down (env 3) g url worker else ret ()) (\<lambda>_.
        andthen (read_ctl x_stop) (\<lambda>stopped.
        andthen (finish (if stopped then ''stopped'' else ''retryable_failure'')) (\<lambda>_.
        andthen (ctl (transition (env 5) g url RetryWait (Some error)
          (\<lambda>q. q\<lparr>d_bytes := Some size_now, d_last_error := Some error,
             d_next_retry_at := e_time (env 5) + (if stopped then 0 else retry_delay (d_attempts r))\<rparr>))) (\<lambda>_.
        andthen (announce (env 5) ''warning'' ''retry'' error url (Some worker)) (\<lambda>_.
        andthen (clear_transfer_telemetry url) (\<lambda>_. ret ''failed'')))))))))"

text \<open>A staged file that fails validation becomes a candidate under review.\<close>

definition rejected_candidate :: "(nat \<Rightarrow> env) \<Rightarrow> config \<Rightarrow> world \<Rightarrow> download \<Rightarrow> loc \<Rightarrow> string \<Rightarrow> string \<Rightarrow>
    string \<Rightarrow> string \<Rightarrow> string fstep" where
  "rejected_candidate env g w r staging started sha256 detail code =
     (let url = d_url r in
      reviewed url
        (andthen (ctl (attempt_event (env 3) g url (d_attempts r + 1) started ''validation_failed'')) (\<lambda>_.
         andthen (move_candidate g (w_fault w) (w_hexes w) staging) (\<lambda>candidate.
         andthen (candidate_made (env 4) g url staging candidate (Some sha256) code) (\<lambda>_.
         andthen (sys (stat_size (w_fault w) candidate)) (\<lambda>n.
         ctl (transition (env 5) g url ReviewRequired (Some detail)
                (\<lambda>q. (set_review detail (Some code) q)\<lparr>d_sha256 := Some sha256, d_bytes := Some n\<rparr>))))))))"

definition regular_now :: "fault \<Rightarrow> loc \<Rightarrow> bool fcall" where
  "regular_now fault p f =
     (case fault SysLstat p of
        None \<Rightarrow> Inr (is_regular p f, f)
      | Some ENOENT \<Rightarrow> Inr (False, f)
      | Some x \<Rightarrow> Inl (Os x))"

text \<open>
  From a validated file to a finished one.  Everything up to the durable intent is one \<open>try\<close>;
  the \<open>link\<close> is another.
\<close>

definition promotion_intent :: "(nat \<Rightarrow> env) \<Rightarrow> config \<Rightarrow> world \<Rightarrow> download \<Rightarrow> loc \<Rightarrow> loc \<Rightarrow> string \<Rightarrow> unit fstep" where
  "promotion_intent env g w r staging target sha256 =
     andthen (sys (ensure_safe_parent g (w_fault w) target)) (\<lambda>_.
     andthen (sys (flush (w_fault w) staging)) (\<lambda>_.
     andthen (sys (stat_size (w_fault w) staging)) (\<lambda>n.
     andthen (ctl (transition (env 5) g (d_url r) Promoting None
       (\<lambda>q. q\<lparr>d_sha256 := Some sha256, d_bytes := Some n, d_promotion_target := Some (loc_text target),
              d_promotion_intent_at := Some (e_now (env 5))\<rparr>))) (\<lambda>_.
     hit_failpoint g ''post_validation_intent''))))"

definition finish_promotion :: "(nat \<Rightarrow> env) \<Rightarrow> config \<Rightarrow> world \<Rightarrow> download \<Rightarrow> loc \<Rightarrow> loc \<Rightarrow> nat \<Rightarrow> string \<Rightarrow> bool \<Rightarrow> string fstep" where
  "finish_promotion env g w r staging target worker sha256 size_compared =
     (let url = d_url r; fault = w_fault w in
      andthen (hit_failpoint g ''post_final_file_creation'') (\<lambda>_.
      andthen (sys (flush fault (butlast target))) (\<lambda>_.
      andthen (sys (stat_size fault target)) (\<lambda>n.
      andthen (ctl (finalized_event (env 6) url (as_posix (parse_path (d_relative_path r))) (stored_text_of (env 0) g r) n
                 sha256 (d_expected_sha256 r) size_compared)) (\<lambda>_.
      andthen (clear_transfer_telemetry url) (\<lambda>_.
      andthen (ctl (transition (env 7) g url Complete None (\<lambda>q. q\<lparr>d_bytes := Some n, d_sha256 := Some sha256\<rparr>))) (\<lambda>_.
      andthen (hit_failpoint g ''post_completion_commit'') (\<lambda>_.
      andthen (sys (unlink fault staging)) (\<lambda>_.
      andthen (ctl (transition (env 8) g url Complete (Some ''staging cleanup complete'')
                 (\<lambda>q. q\<lparr>d_cleanup_completed_at := Some (e_now (env 8))\<rparr>))) (\<lambda>_.
      andthen (announce (env 8) ''info'' ''complete'' ''transfer complete'' url (Some worker)) (\<lambda>_.
      ret ''complete'')))))))))))"

datatype linked = Linked | Collided | NotLinked failure

definition try_link :: "fault \<Rightarrow> loc \<Rightarrow> loc \<Rightarrow> linked fstep" where
  "try_link fault staging target =
     try_except (andthen (sys (link fault staging target)) (\<lambda>_. ret Linked)) os_only
       (\<lambda>x. ret (if x = Os EEXIST then Collided else NotLinked x))"

definition promote :: "(nat \<Rightarrow> env) \<Rightarrow> config \<Rightarrow> world \<Rightarrow> download \<Rightarrow> loc \<Rightarrow> loc \<Rightarrow> nat \<Rightarrow> string \<Rightarrow> bool \<Rightarrow> string fstep" where
  "promote env g w r staging target worker sha256 size_compared =
     (let url = d_url r; fault = w_fault w in
      andthen (try_except (andthen (promotion_intent env g w r staging target sha256) (\<lambda>_. ret None)) runtime_or_os
                 (\<lambda>x. ret (Some x))) (\<lambda>refused.
      case refused of
        Some x \<Rightarrow>
          reviewed url
            (andthen (sys (stat_size fault staging)) (\<lambda>n.
             ctl (transition (env 7) g url ReviewRequired (Some (failure_text x))
                    (\<lambda>q. (set_review (failure_text x) (review_code_for_error x) q)\<lparr>d_sha256 := Some sha256, d_bytes := Some n\<rparr>))))
      | None \<Rightarrow>
          andthen (sys (\<lambda>f. Inr ((), w_race w f))) (\<lambda>_.
          andthen (try_link fault staging target) (\<lambda>result.
          case result of
            Linked \<Rightarrow> finish_promotion env g w r staging target worker sha256 size_compared
          | Collided \<Rightarrow>
              andthen (move_candidate g fault (w_hexes w) staging) (\<lambda>candidate.
              andthen (candidate_made (env 6) g url staging candidate (Some sha256) ''destination_collision'') (\<lambda>_.
              andthen (sys (stat_size fault candidate)) (\<lambda>n.
              andthen (ctl (transition (env 7) g url ReviewRequired (Some ''destination appeared during promotion'')
                (\<lambda>q. q\<lparr>d_bytes := Some n, d_promotion_target := Some (loc_text target)\<rparr>))) (\<lambda>_.
              andthen (clear_transfer_telemetry url) (\<lambda>_. ret ''candidate'')))))
          | NotLinked x \<Rightarrow>
              reviewed url
                (andthen (sys (stat_size fault staging)) (\<lambda>n.
                 ctl (transition (env 7) g url ReviewRequired (Some (failure_text x))
                   (\<lambda>q. (set_review (failure_text x) (review_code_for_error x) q)\<lparr>d_sha256 := Some sha256,
                      d_bytes := Some n, d_promotion_target := Some (loc_text target)\<rparr>))))))))"

text \<open>Hashing and comparing what the engine has staged.\<close>

definition validate :: "(nat \<Rightarrow> env) \<Rightarrow> config \<Rightarrow> world \<Rightarrow> download \<Rightarrow> loc \<Rightarrow> loc \<Rightarrow> nat \<Rightarrow> string \<Rightarrow> string fstep" where
  "validate env g w r staging target worker started =
     (let url = d_url r; fault = w_fault w; n = d_attempts r + 1 in
      andthen (sys (regular_now fault staging)) (\<lambda>is_regular_staging.
      if \<not> is_regular_staging
      then reviewed url
        (andthen (ctl (attempt_event (env 3) g url n started ''validation_failed'')) (\<lambda>_.
         ctl (transition (env 5) g url ReviewRequired (Some ''staging is not a regular file'')
           (\<lambda>q. q\<lparr>d_bytes := Some 0, d_last_error := Some ''non-regular staging file''\<rparr>))))
      else
        andthen (look (size_of staging)) (\<lambda>total_now.
        andthen (tell (\<lambda>p. tp_set_validation url 0 total_now
          (tp_set_active (e_mono (env 3)) url worker n ''hashing'' None p))) (\<lambda>_.
        andthen (try_except (sys (sha256sum (env 3) fault staging)) (\<lambda>_. True)
          (\<lambda>x. andthen (clear_transfer_telemetry url) (\<lambda>_. raise x))) (\<lambda>sha256.
        andthen (tell (tp_clear_validation url)) (\<lambda>_.
        if given (d_expected_sha256 r) \<and> str_lower sha256 \<noteq> str_lower (the (d_expected_sha256 r))
        then rejected_candidate env g w r staging started sha256 ''checksum mismatch'' ''checksum_mismatch''
        else
          andthen (sys (stat_size fault staging)) (\<lambda>staged_size.
          andthen (read_ctl (\<lambda>s. expected_size_from_response (responses_of s url))) (\<lambda>expected_size.
          if expected_size \<noteq> None \<and> expected_size \<noteq> Some staged_size
          then rejected_candidate env g w r staging started sha256
                 (''size mismatch: expected '' @ show_int (the expected_size) @ '' bytes, staged '' @ show_int staged_size)
                 ''size_mismatch''
          else
            andthen (ctl (attempt_event (env 3) g url n started ''success'')) (\<lambda>_.
            promote env g w r staging target worker sha256 (expected_size \<noteq> None))))))))))"

definition transfer :: "(nat \<Rightarrow> env) \<Rightarrow> config \<Rightarrow> world \<Rightarrow> download \<Rightarrow> string fstep" where
  "transfer env g w r =
     (let url = d_url r; n = d_attempts r + 1; e = env 0;
          target = target_of e g r; staging = staging_of e g r; fault = w_fault w in
      andthen (look (exists target)) (\<lambda>there.
      if there
      then andthen (sys (stat_size fault target)) (\<lambda>size_now.
           andthen (ctl (transition e g url ExistingUnverified (Some ''final already exists'')
             (\<lambda>q. q\<lparr>d_bytes := Some size_now\<rparr>))) (\<lambda>_. ret ''existing''))
      else
        andthen (ctl (modify (\<lambda>s. s\<lparr>x_resume_confirmed := removeAll url (x_resume_confirmed s)\<rparr>))) (\<lambda>_.
        andthen (take_slot e g r staging) (\<lambda>worker.
        andthen (tell (\<lambda>p. tp_event (e_now e) ''info'' ''attempt'' ''transfer admitted'' (Some url) (Some worker)
          (tp_set_active (e_mono e) url worker n ''cooldown'' None p))) (\<lambda>_.
        andthen (ctl (modify (\<lambda>s. snd (wait_for_start_slot g (e_mono e) (e_mono (env 1)) s)))) (\<lambda>_.
        andthen (protect_resume (env 1) g w r staging) (\<lambda>protection.
        case protection of
          None \<Rightarrow> ret ''review''
        | Some columns \<Rightarrow>
            let started = e_utc (env 2) in
            andthen (ctl (transition (env 2) g url Active None (\<lambda>q. columns (q\<lparr>d_attempts := n\<rparr>)))) (\<lambda>_.
            andthen (ctl (record_attempt_start (env 2) g url n started)) (\<lambda>_.
            andthen (tell (tp_update_phase (e_mono (env 2)) url ''connecting'')) (\<lambda>_.
            andthen (try_except (run_aria2 (env 2) w url staging) (\<lambda>_. True)
              (\<lambda>x. andthen (clear_transfer_telemetry url) (\<lambda>_. raise x))) (\<lambda>(ok, error).
            andthen (look (\<lambda>f. ok \<and> exists staging f \<and> \<not> exists (control_file staging) f)) (\<lambda>arrived.
            if \<not> arrived then failed_transfer env g w r staging worker started error
            else validate env g w r staging target worker started))))))))))))"

subsection \<open>What a transfer touches\<close>

text \<open>
  The names a transfer may remove or replace: its staging file, the engine's control file, and
  the control file of a candidate.
\<close>

definition transfer_footprint :: "config \<Rightarrow> loc \<Rightarrow> loc set" where
  "transfer_footprint g staging =
     {staging, control_file staging} \<union> range (\<lambda>n. control_file (candidates g @ [n]))"

lemma keeps_andthen_post:
  assumes "keeps I m" and "\<And>s x t. m s = (Inr x, t) \<Longrightarrow> Q x" and "\<And>x. Q x \<Longrightarrow> keeps I (f x)"
  shows "keeps I (andthen m f)"
proof (rule keepsI)
  fix s assume "I s"
  obtain x t where mt: "m s = (x, t)" by (cases "m s")
  with assms(1) \<open>I s\<close> have "I t" by (rule keepsD)
  with mt assms(2,3) show "I (snd (andthen m f s))"
    by (cases x) (auto simp: andthen_def keeps_def)
qed

lemma keeps_move_candidate [pres]:
  assumes "transfer_footprint g staging \<subseteq> A"
  shows "keeps (since A D f0) (move_candidate g fault hexes staging)"
proof -
  have A: "staging \<in> A" "control_file staging \<in> A" "\<And>n. control_file (candidates g @ [n]) \<in> A"
    using assms by (auto simp: transfer_footprint_def)
  have rest: "keeps (since A D f0) (andthen (sys (unlink fault staging)) (\<lambda>_.
      andthen (look (exists (control_file staging))) (\<lambda>there.
      if there then andthen (sys (replace fault (control_file staging) (control_file c))) (\<lambda>_. ret c) else ret c)))"
    if "\<exists>n. c = candidates g @ [n]" for c
    using that A by (auto intro!: pres)
  show ?thesis
    unfolding move_candidate_def
    by (rule keeps_andthen [OF keeps_since(3)],
        rule keeps_andthen_post [where Q = "\<lambda>c. \<exists>n. c = candidates g @ [n]", OF keeps_since(4) _ rest])
       (auto simp: sys_Inr dest: link_candidate_unharmed)
qed

lemma keeps_linked [pres]:
  "keeps I m \<Longrightarrow> keeps I n \<Longrightarrow> (\<And>x. keeps I (h x)) \<Longrightarrow>
    keeps I (case l of Linked \<Rightarrow> m | Collided \<Rightarrow> n | NotLinked x \<Rightarrow> h x)"
  by (cases l) auto

lemma keeps_tell [pres]: "keeps (since A D f0) (tell h)"
  unfolding tell_def by (rule keeps_since_ctl)

lemma keeps_small [pres]:
  "keeps (since A D f0) (announce e sv c m u k)" "keeps (since A D f0) (clear_transfer_telemetry url)"
  "keeps (since A D f0) (read_ctl q)" "keeps (since A D f0) (take_slot e g r st)" "keeps (since A D f0) (record_worker e url pid)"
  unfolding announce_def clear_transfer_telemetry_def read_ctl_def take_slot_def record_worker_def
  by (intro keeps_tell keeps_since_ctl keeps_andthen)+

lemma keeps_cool_down [pres]: "keeps (since A D f0) (cool_down e g url j)"
  unfolding cool_down_def by (intro keeps_andthen keeps_since_ctl keeps_if keeps_small keeps_ret)

lemma keeps_capture [pres]: "keeps (since A D f0) (capture_response w url)"
  unfolding capture_response_def by (intro keeps_option keeps_raise keeps_since_ctl)

lemma keeps_candidate_made [pres]: "keeps (since A D f0) (candidate_made e g url st ca sh rs)"
  unfolding candidate_made_def by (auto split: option.splits intro: keeps_raise keeps_since_ctl)

lemma regular_now_reads: "regular_now fault p f = Inr (v, f') \<Longrightarrow> f' = f"
  by (auto simp: regular_now_def split: option.splits os_error.splits)

lemma keeps_regular_now [pres]: "keeps (since A D f0) (sys (regular_now fault p))"
  by (rule keeps_sys) (auto dest: regular_now_reads)

lemma transfer_since:
  assumes "transfer_footprint g (staging_of (env 0) g r) \<subseteq> A"
    and "\<And>f. unharmed A D f (en_files (w_engine w) f)" and "\<And>f. unharmed A D f (w_race w f)"
  shows "keeps (since A D f0) (transfer env g w r)"
proof -
  let ?st = "staging_of (env 0) g r"
  have st: "?st \<in> A" using assms(1) by (simp add: transfer_footprint_def)
  have en: "keeps (since A D f0) (sys (\<lambda>f. Inr ((), en_files (w_engine w) f)))"
    by (rule keeps_since_sys) (use assms(2) in auto)
  have ra: "keeps (since A D f0) (sys (\<lambda>f. Inr ((), w_race w f)))"
    by (rule keeps_since_sys) (use assms(3) in auto)
  have "keeps (since A D f0) (enter_representation_review e g w url ?st d ob)" for e url d ob
    unfolding enter_representation_review_def Let_def by (intro pres assms(1))
  then have protect: "keeps (since A D f0) (protect_resume (env 1) g w r ?st)"
    unfolding protect_resume_def Let_def by (intro pres)
  have run: "keeps (since A D f0) (run_aria2 (env 2) w url ?st)" for url
    unfolding run_aria2_def by (intro pres en)
  have fail: "keeps (since A D f0) (failed_transfer env g w r ?st k b x)" for k b x
    unfolding failed_transfer_def reviewed_def Let_def by (intro pres assms(1))
  have fin: "keeps (since A D f0) (finish_promotion env g w r ?st target k sh sc)" for target k sh sc
    unfolding finish_promotion_def Let_def by (intro pres st)
  have pro: "keeps (since A D f0) (promote env g w r ?st target k sh sc)" for target k sh sc
    unfolding promote_def promotion_intent_def try_link_def reviewed_def Let_def by (intro pres assms(1) ra fin)
  have val: "keeps (since A D f0) (validate env g w r ?st target k b)" for target k b
    unfolding validate_def rejected_candidate_def reviewed_def Let_def by (intro pres assms(1) pro)
  show ?thesis
    unfolding transfer_def Let_def by (intro pres protect run fail val)
qed


subsection \<open>Rows after transitions\<close>

lemma find_download_update:
  assumes "\<And>q. d_url (h q) = d_url q"
  shows "find_download u (update_where (\<lambda>q. d_url q = u) h d) = map_option h (find_download u d)"
proof -
  have "find (\<lambda>q. d_url q = u) (map (\<lambda>q. if d_url q = u then h q else q) xs) =
      map_option h (find (\<lambda>q. d_url q = u) xs)" for xs
    by (induction xs) (auto simp: assms)
  then show ?thesis by (simp add: find_download_def)
qed

lemma find_download_cong: "downloads d = downloads d' \<Longrightarrow> find_download u d = find_download u d'"
  by (simp add: find_download_def)

lemma transition_row:
  assumes "transition e g url st dt h s = (Inr u, s')" and "\<And>q. d_url (h q) = d_url q"
  obtains old where "find_download url (x_db s) = Some old"
    and "find_download url (x_db s') = Some (transition_row_update st (e_now e) h old)"
proof -
  obtain old where old: "find_download url (x_db s) = Some old"
    using assms(1) by (auto simp: transition_def split: option.splits)
  obtain n d where d: "transition_db (g_run g) (e_now e) url st dt h old (x_db s) = (n, d)"
    by (cases "transition_db (g_run g) (e_now e) url st dt h old (x_db s)")
  have "x_db s' = d"
    using assms(1) by (auto simp: transition_def old d apply_projection_change_def split: commit.splits option.splits)
  moreover have "downloads d = downloads (update_where (\<lambda>q. d_url q = url) (transition_row_update st (e_now e) h) (x_db s))"
    using d by (auto simp: transition_db_def dest!: arg_cong [of _ _ "\<lambda>x. downloads (snd x)"])
  moreover have "d_url (transition_row_update st (e_now e) h q) = d_url q" for q
    by (simp add: transition_row_update_def assms(2))
  note find_download_update [OF this, of url "x_db s"]
  ultimately have "find_download url (x_db s') = map_option (transition_row_update st (e_now e) h) (find_download url (x_db s))"
    using find_download_cong by metis
  with old show ?thesis by (intro that) simp_all
qed

lemma tell_Inr: "tell h s = (Inr u, t) \<longleftrightarrow> fst t = (fst s)\<lparr>x_telemetry := map_option h (x_telemetry (fst s))\<rparr> \<and> snd t = snd s"
  by (auto simp: tell_def ctl_Inr)

lemma clear_Inr:
  "clear_transfer_telemetry url s = (Inr u, t) \<Longrightarrow>
     snd t = snd s \<and> x_db (fst t) = x_db (fst s) \<and> x_responses (fst t) = x_responses (fst s) \<and>
     x_worker_ids (fst t) = AList.delete url (x_worker_ids (fst s))"
  by (auto simp: clear_transfer_telemetry_def andthen_Inr ctl_Inr tell_Inr)

lemma finalized_event_db [simp]: "x_db (snd (finalized_event e url lo st n h ex sc s)) = x_db s"
  by (simp add: finalized_event_def Let_def)

subsection \<open>A complete transfer is a verified one\<close>

lemma staged_data:
  assumes "lstat p f = Some (File i)"
  shows "content p f = Some (f_data f i)" and "size_of p f = int (length (f_data f i))" and "exists p f"
  using assms by (simp_all add: content_def size_of_def exists_def)

lemma finish_promotion_complete:
  assumes "finish_promotion env g w r staging target k sh sc s = (Inr res, t)"
    and "lstat staging (snd s) = Some (File i)" and "lstat target (snd s) = Some (File i)" and "staging \<noteq> target"
  obtains q where "find_download (d_url r) (x_db (fst t)) = Some q" and "d_status q = Complete" and "d_sha256 q = Some sh"
    and "d_bytes q = Some (int (length (f_data (snd s) i)))" and "d_cleanup_completed_at q = Some (e_now (env 8))"
    and "lstat target (snd t) = Some (File i)" and "f_data (snd t) = f_data (snd s)" and "lstat staging (snd t) = None"
proof -
  let ?url = "d_url r"
  from assms(1) obtain u1 u2 n u3 u4 u5 u6 u7 u8 u9 where
    fl: "sys (flush (w_fault w) (butlast target)) s = (Inr (), u1)"
    and n: "sys (stat_size (w_fault w) target) u1 = (Inr n, u2)"
    and fe: "ctl (finalized_event (env 6) ?url (as_posix (parse_path (d_relative_path r))) (stored_text_of (env 0) g r) n
                 sh (d_expected_sha256 r) sc) u2 = (Inr (), u3)"
    and cl: "clear_transfer_telemetry ?url u3 = (Inr (), u4)"
    and t1: "ctl (transition (env 7) g ?url Complete None (\<lambda>q. q\<lparr>d_bytes := Some n, d_sha256 := Some sh\<rparr>)) u4 = (Inr (), u5)"
    and ul: "sys (unlink (w_fault w) staging) u5 = (Inr (), u6)"
    and t2: "ctl (transition (env 8) g ?url Complete (Some ''staging cleanup complete'')
                 (\<lambda>q. q\<lparr>d_cleanup_completed_at := Some (e_now (env 8))\<rparr>)) u6 = (Inr (), u7)"
    and an: "announce (env 8) ''info'' ''complete'' ''transfer complete'' ?url (Some k) u7 = (Inr (), t)"
    by (auto simp: finish_promotion_def Let_def andthen_Inr)
  have f1: "snd u1 = snd s" "snd u2 = snd u1" "n = size_of target (snd u1)"
    using fl n by (auto simp: sys_Inr dest: reads_only) (auto simp: stat_size_def split: option.splits if_splits)
  have f2: "snd u3 = snd s" "snd u4 = snd s" "snd u5 = snd s"
    using fe cl t1 f1 by (auto simp: ctl_Inr dest: clear_Inr)
  have f3: "snd u6 = set_node staging None (snd s)" "snd t = snd u6" "fst u6 = fst u5"
    using ul t2 an f2 by (auto simp: sys_Inr ctl_Inr announce_def tell_Inr unlink_def split: option.splits node.splits)
  from t1 obtain q1 where q1: "find_download ?url (x_db (fst u5)) =
      Some (transition_row_update Complete (e_now (env 7)) (\<lambda>q. q\<lparr>d_bytes := Some n, d_sha256 := Some sh\<rparr>) q1)"
    by (auto simp: ctl_Inr elim!: transition_row)
  from t2 obtain q2 where q2: "find_download ?url (x_db (fst u6)) = Some q2" "find_download ?url (x_db (fst u7)) =
      Some (transition_row_update Complete (e_now (env 8)) (\<lambda>q. q\<lparr>d_cleanup_completed_at := Some (e_now (env 8))\<rparr>) q2)"
    by (auto simp: ctl_Inr elim!: transition_row)
  have "x_db (fst t) = x_db (fst u7)" using an by (simp add: announce_def tell_Inr)
  with q1 q2 f1 f3 assms(2-4) show ?thesis
    by (intro that [of "transition_row_update Complete (e_now (env 8)) (\<lambda>q. q\<lparr>d_cleanup_completed_at := Some (e_now (env 8))\<rparr>) q2"])
       (auto simp: transition_row_update_def staged_data)
qed

lemma reviewed_Inr: "reviewed url m s = (Inr x, t) \<Longrightarrow> x = ''review''"
  by (auto simp: reviewed_def andthen_Inr)

lemma reviewed_complete [simp]: "reviewed url m s \<noteq> (Inr ''complete'', t)"
  using reviewed_Inr by fastforce

text \<open>Other processes may create names, but they leave the staging file and all contents alone.\<close>

definition fair_race :: "world \<Rightarrow> loc \<Rightarrow> bool" where
  "fair_race w staging \<longleftrightarrow> (\<forall>f. lstat staging (w_race w f) = lstat staging f \<and> f_data (w_race w f) = f_data f)"

lemma promotion_intent_files:
  assumes "promotion_intent env g w r staging target sh s = (Inr u, t)" and "lstat staging (snd s) = Some x"
  shows "lstat staging (snd t) = Some x \<and> f_data (snd t) = f_data (snd s)"
proof -
  from assms(1) obtain a b n c where "sys (ensure_safe_parent g (w_fault w) target) s = (Inr (), a)"
    and "sys (flush (w_fault w) staging) a = (Inr (), b)" and "sys (stat_size (w_fault w) staging) b = (Inr n, c)"
    and "snd t = snd c"
    by (auto simp: promotion_intent_def andthen_Inr ctl_Inr)
  then have "unharmed {} {} (snd s) (snd t)" "f_data (snd t) = f_data (snd s)"
    using ensure_safe_parent_unharmed by (auto simp: sys_Inr dest!: reads_only)
  with assms(2) show ?thesis by (auto simp: unharmed_def)
qed

lemma promote_complete:
  assumes "promote env g w r staging target k sh sc s = (Inr ''complete'', t)"
    and "lstat staging (snd s) = Some (File i)" and "fair_race w staging"
  obtains q where "find_download (d_url r) (x_db (fst t)) = Some q" and "d_status q = Complete" and "d_sha256 q = Some sh"
    and "d_bytes q = Some (int (length (f_data (snd s) i)))" and "d_cleanup_completed_at q = Some (e_now (env 8))"
    and "lstat target (snd t) = Some (File i)" and "f_data (snd t) i = f_data (snd s) i" and "lstat staging (snd t) = None"
proof -
  let ?attempt = "try_except (andthen (promotion_intent env g w r staging target sh) (\<lambda>_. ret None)) runtime_or_os (\<lambda>x. ret (Some x))"
  from assms(1) obtain refused u where tr: "?attempt s = (Inr refused, u)"
    and go: "refused = None"
    by (auto simp: promote_def Let_def andthen_Inr split: option.splits)
  from tr go have "promotion_intent env g w r staging target sh s = (Inr (), u)"
    by (auto simp: try_except_Inr andthen_Inr)
  note u = promotion_intent_files [OF this assms(2)]
  let ?v = "(fst u, w_race w (snd u))"
  have v: "lstat staging (snd ?v) = Some (File i)" "f_data (snd ?v) = f_data (snd s)"
    using u assms(3) by (auto simp: fair_race_def)
  from assms(1) tr go obtain result x where li: "try_link (w_fault w) staging target ?v = (Inr result, x)"
    and fin: "result = Linked" "finish_promotion env g w r staging target k sh sc x = (Inr ''complete'', t)"
    by (auto simp: promote_def Let_def andthen_Inr sys_Inr split: linked.splits) (meson linked.exhaust)
  from li fin(1) have "link (w_fault w) staging target (snd ?v) = Inr ((), snd x)"
    by (auto simp: try_link_def try_except_Inr andthen_Inr sys_Inr split: if_splits)
  then have x: "lstat target (snd ?v) = None" "snd x = set_node target (Some (File i)) (snd ?v)"
    using v(1) by (auto simp: link_def split: option.splits if_splits)
  then have "staging \<noteq> target" using v(1) by auto
  with x v have s2: "lstat staging (snd x) = Some (File i)" "lstat target (snd x) = Some (File i)" "f_data (snd x) = f_data (snd s)"
    by simp_all
  show ?thesis
    by (rule finish_promotion_complete [OF fin(2) s2(1,2) \<open>staging \<noteq> target\<close>]) (rule that; use s2 in simp)
qed

lemma rejected_complete [simp]: "rejected_candidate env g w r staging b sh dt code s \<noteq> (Inr ''complete'', t)"
  by (simp add: rejected_candidate_def Let_def)

lemma validate_complete:
  assumes "validate env g w r staging target k b s = (Inr ''complete'', t)" and "fair_race w staging"
  obtains q i where "find_download (d_url r) (x_db (fst t)) = Some q" and "d_status q = Complete"
    and "d_sha256 q = Some (e_sha (env 3) (f_data (snd t) i))"
    and "d_bytes q = Some (int (length (f_data (snd t) i)))" and "d_cleanup_completed_at q = Some (e_now (env 8))"
    and "lstat target (snd t) = Some (File i)" and "lstat staging (snd t) = None"
    and "given (d_expected_sha256 r) \<Longrightarrow> str_lower (e_sha (env 3) (f_data (snd t) i)) = str_lower (the (d_expected_sha256 r))"
    and "expected_size_from_response (responses_of (fst s) (d_url r)) \<in> {None, Some (int (length (f_data (snd t) i)))}"
proof -
  let ?url = "d_url r"
  let ?hash = "try_except (sys (sha256sum (env 3) (w_fault w) staging)) (\<lambda>_. True)
          (\<lambda>x. andthen (clear_transfer_telemetry ?url) (\<lambda>_. raise x))"
  have hash_only: "?hash a = (Inr sh, c) \<longleftrightarrow> sys (sha256sum (env 3) (w_fault w) staging) a = (Inr sh, c)" for a sh c
    by (auto simp: try_except_Inr andthen_Inr)
  from assms(1) obtain u1 u2 sh u3 u4 n u5 u6 where
    reg: "sys (regular_now (w_fault w) staging) s = (Inr True, u1)"
    and te: "tell (\<lambda>p. tp_set_validation ?url 0 (size_of staging (snd u1))
          (tp_set_active (e_mono (env 3)) ?url k (d_attempts r + 1) ''hashing'' None p)) u1 = (Inr (), u2)"
    and sh: "sys (sha256sum (env 3) (w_fault w) staging) u2 = (Inr sh, u3)"
    and cl: "tell (tp_clear_validation ?url) u3 = (Inr (), u4)"
    and ok: "given (d_expected_sha256 r) \<Longrightarrow> str_lower sh = str_lower (the (d_expected_sha256 r))"
    and si: "sys (stat_size (w_fault w) staging) u4 = (Inr n, u5)"
    and ex: "expected_size_from_response (responses_of (fst u5) ?url) \<in> {None, Some n}"
    and at: "ctl (attempt_event (env 3) g ?url (d_attempts r + 1) b ''success'') u5 = (Inr (), u6)"
    and pr: "promote env g w r staging target k sh (expected_size_from_response (responses_of (fst u5) ?url) \<noteq> None) u6 =
      (Inr ''complete'', t)"
    by (auto simp: validate_def Let_def andthen_Inr look_Inr read_ctl_def ctl_Inr gets_def hash_only split: if_splits)
  have same: "snd u1 = snd s" "snd u2 = snd s" "snd u3 = snd s" "snd u4 = snd s" "snd u5 = snd s" "snd u6 = snd s"
  proof -
    show "snd u1 = snd s" using reg regular_now_reads by (metis sys_Inr)
    then show "snd u2 = snd s" using te by (simp add: tell_Inr)
    then show "snd u3 = snd s" using sh reads_only(3) by (metis sys_Inr)
    then show "snd u4 = snd s" using cl by (simp add: tell_Inr)
    then show "snd u5 = snd s" using si reads_only(2) by (metis sys_Inr)
    then show "snd u6 = snd s" using at by (simp add: ctl_Inr)
  qed
  from reg obtain i where i: "lstat staging (snd s) = Some (File i)"
    by (auto simp: sys_Inr regular_now_def is_regular_def split: option.splits os_error.splits node.splits)
  have h: "sh = e_sha (env 3) (f_data (snd s) i)"
    using sh i same by (auto simp: sys_Inr sha256sum_def read_bytes_def split: option.splits sum.splits)
  have nn: "n = int (length (f_data (snd s) i))"
    using si i same by (auto simp: sys_Inr stat_size_def staged_data split: option.splits if_splits)
  have resp: "responses_of (fst u5) ?url = responses_of (fst s) ?url"
    using reg te sh cl si by (simp add: sys_Inr tell_Inr responses_of_def)
  from promote_complete [OF pr _ assms(2), of i] i same obtain q where
    q: "find_download ?url (x_db (fst t)) = Some q" "d_status q = Complete" "d_sha256 q = Some sh"
    "d_bytes q = Some (int (length (f_data (snd s) i)))" "d_cleanup_completed_at q = Some (e_now (env 8))"
    "lstat target (snd t) = Some (File i)" "f_data (snd t) i = f_data (snd s) i" "lstat staging (snd t) = None"
    by metis
  show ?thesis by (rule that [of q i]) (use q h nn ok ex resp in simp_all)
qed

text \<open>
  C15: a transfer that reports \<open>complete\<close> has delivered a verified file.  Whatever the engine did,
  the final name now is a regular file whose digest and size are the ones recorded in the row,
  with state \<open>complete\<close> and the cleanup noted; it agrees with the digest the queue announced, if
  any, and with the size the server announced, if any; there was no such final before, and the
  staging file is gone.
\<close>
theorem complete_is_verified:
  assumes "transfer env g w r s = (Inr ''complete'', t)" and "fair_race w (staging_of (env 0) g r)"
  shows "\<exists>q i data. find_download (d_url r) (x_db (fst t)) = Some q \<and> d_status q = Complete \<and>
    d_sha256 q = Some (e_sha (env 3) data) \<and> d_bytes q = Some (int (length data)) \<and> d_cleanup_completed_at q \<noteq> None \<and>
    lstat (target_of (env 0) g r) (snd t) = Some (File i) \<and> f_data (snd t) i = data \<and>
    lstat (staging_of (env 0) g r) (snd t) = None \<and> \<not> exists (target_of (env 0) g r) (snd s) \<and>
    (given (d_expected_sha256 r) \<longrightarrow> str_lower (e_sha (env 3) data) = str_lower (the (d_expected_sha256 r))) \<and>
    (\<exists>resp. parse_aria2_response_log (case en_response_log (w_engine w) of None \<Rightarrow> [] | Some l \<Rightarrow> l) (d_url r) = Some resp \<and>
       expected_size_from_response resp \<in> {None, Some (int (length data))})"
proof -
  let ?url = "d_url r" and ?target = "target_of (env 0) g r" and ?staging = "staging_of (env 0) g r"
  let ?run = "try_except (run_aria2 (env 2) w ?url ?staging) (\<lambda>_. True)
              (\<lambda>x. andthen (clear_transfer_telemetry ?url) (\<lambda>_. raise x))"
  have run_only: "?run a = (Inr x, c) \<longleftrightarrow> run_aria2 (env 2) w ?url ?staging a = (Inr x, c)" for a x c
    by (auto simp: try_except_Inr andthen_Inr)
  have fail: "failed_transfer env g w r ?staging k b x a \<noteq> (Inr ''complete'', t)" for k b x a
    by (auto simp: failed_transfer_def Let_def andthen_Inr look_Inr)
  from assms(1) obtain a ok x b k st where new: "\<not> exists ?target (snd s)"
    and run: "run_aria2 (env 2) w ?url ?staging a = (Inr (ok, x), b)"
    and val: "validate env g w r ?staging ?target k st b = (Inr ''complete'', t)"
    by (auto simp: transfer_def Let_def andthen_Inr look_Inr run_only fail split: if_splits option.splits)
  from run obtain c where "capture_response w ?url c = (Inr (), b)"
    by (auto simp: run_aria2_def andthen_Inr)
  then obtain resp where resp: "parse_aria2_response_log (case en_response_log (w_engine w) of None \<Rightarrow> [] | Some l \<Rightarrow> l) ?url = Some resp"
    "responses_of (fst b) ?url = resp"
    by (auto simp: capture_response_def ctl_Inr responses_of_def update_conv split: option.splits)
  show ?thesis
    by (rule validate_complete [OF val assms(2)]) (use new resp in \<open>auto intro!: exI\<close>)
qed

subsection \<open>Slots\<close>

text \<open>Operations that leave the worker slots alone.\<close>

definition slots :: "(string \<times> nat) list \<Rightarrow> downloader \<times> fs \<Rightarrow> bool" where
  "slots W s = (x_worker_ids (fst s) = W)"

lemma slots_frames [simp]:
  "x_worker_ids (snd (provenance_event e ty kw d)) = x_worker_ids d"
  "x_worker_ids (record_local_failure e c dt d) = x_worker_ids d"
  "x_worker_ids (snd (transition e g url st ds h d)) = x_worker_ids d"
  "x_worker_ids (snd (finalized_event e url lo sd n h' ex sc d)) = x_worker_ids d"
  "x_worker_ids (snd (candidate_event e url a b cs rs d)) = x_worker_ids d"
  "x_worker_ids (snd (record_attempt_start e g url k b' d)) = x_worker_ids d"
  "x_worker_ids (snd (attempt_event e g url k b' oc d)) = x_worker_ids d"
proof -
  show p: "x_worker_ids (snd (provenance_event e ty kw d)) = x_worker_ids d" for e ty kw d
    by (auto simp: provenance_event_def split: option.splits prod.splits sum.splits writer_error.splits)
  show l: "x_worker_ids (record_local_failure e c dt d) = x_worker_ids d" for e c dt d
    by (simp add: record_local_failure_def p)
  show "x_worker_ids (snd (transition e g url st ds h d)) = x_worker_ids d"
    by (auto simp: transition_def Let_def l apply_projection_change_def split: option.splits prod.splits commit.splits)
  show "x_worker_ids (snd (finalized_event e url lo sd n h' ex sc d)) = x_worker_ids d"
    "x_worker_ids (snd (candidate_event e url a b cs rs d)) = x_worker_ids d"
    by (simp_all add: finalized_event_def candidate_event_def Let_def p)
  show "x_worker_ids (snd (record_attempt_start e g url k b' d)) = x_worker_ids d"
    by (simp add: record_attempt_start_def modify_def)
  have "provenance_event e ty kw d = (y, u) \<Longrightarrow> x_worker_ids u = x_worker_ids d" for ty kw y u
    using p [of e ty kw d] by simp
  then show "x_worker_ids (snd (attempt_event e g url k b' oc d)) = x_worker_ids d"
    by (auto simp: attempt_event_def andthen_def modify_def Let_def split: sum.splits prod.splits)
qed

lemma keeps_slots [pres]:
  "keeps (slots W) (ctl (transition e g url st ds h))" "keeps (slots W) (ctl (finalized_event e url lo sd n h' ex sc))"
  "keeps (slots W) (ctl (candidate_event e url a b cs rs))" "keeps (slots W) (ctl (attempt_event e g url k b' oc))"
  "keeps (slots W) (ctl (record_attempt_start e g url k b'))" "keeps (slots W) (ctl (modify (record_local_failure e c' dt)))"
  "keeps (slots W) (tell pf)" "keeps (slots W) (announce e sv ct m u kk)" "keeps (slots W) (read_ctl q)"
  unfolding tell_def announce_def read_ctl_def
  by (auto intro!: keeps_ctl simp: slots_def modify_def gets_def)

lemma keeps_slots_sys [pres]: "keeps (slots W) (sys m)"
  by (rule keeps_sys) (simp add: slots_def)

lemma keeps_slots_misc [pres]:
  "keeps (slots W) (candidate_made e g url st ca hs rs)" "keeps (slots W) (move_candidate g fault hexes st)"
  "keeps (slots W) (promotion_intent env g w r st target sh)" "keeps (slots W) (try_link fault st target)"
  "keeps (slots W) (capture_response w url)"
proof -
  show "keeps (slots W) (candidate_made e g url st ca hs rs)"
    unfolding candidate_made_def by (auto split: option.splits intro: pres)
  show "keeps (slots W) (move_candidate g fault hexes st)" "keeps (slots W) (promotion_intent env g w r st target sh)"
    "keeps (slots W) (try_link fault st target)"
    unfolding move_candidate_def promotion_intent_def try_link_def by (intro pres)+
  show "keeps (slots W) (capture_response w url)"
    unfolding capture_response_def by (intro pres keeps_ctl) (simp add: slots_def modify_def)
qed

text \<open>\<open>frees url m\<close>: when \<open>m\<close> returns, the slot of \<open>url\<close> has been given back and no other changed.\<close>

definition frees :: "string \<Rightarrow> 'a fstep \<Rightarrow> bool" where
  "frees url m \<longleftrightarrow> (\<forall>s x t. m s = (Inr x, t) \<longrightarrow> x_worker_ids (fst t) = AList.delete url (x_worker_ids (fst s)))"

lemma frees_clear: "frees url (clear_transfer_telemetry url)"
  by (auto simp: frees_def dest: clear_Inr)

lemma frees_first:
  assumes "frees url m" and "\<And>x W. keeps (slots W) (f x)"
  shows "frees url (andthen m f)"
  unfolding frees_def
proof (intro allI impI)
  fix s y t assume "andthen m f s = (Inr y, t)"
  then obtain x u where m: "m s = (Inr x, u)" and f: "f x u = (Inr y, t)" by (rule andthenE)
  from keepsD [OF assms(2) [of "x_worker_ids (fst u)"] _ f] have "x_worker_ids (fst t) = x_worker_ids (fst u)"
    by (simp add: slots_def)
  moreover from m assms(1) have "x_worker_ids (fst u) = AList.delete url (x_worker_ids (fst s))"
    unfolding frees_def by blast
  ultimately show "x_worker_ids (fst t) = AList.delete url (x_worker_ids (fst s))" by simp
qed

definition calm :: "'a fstep \<Rightarrow> bool" where
  "calm m \<longleftrightarrow> (\<forall>s x t. m s = (Inr x, t) \<longrightarrow> x_worker_ids (fst t) = x_worker_ids (fst s))"

lemma calm_keeps: "(\<And>W. keeps (slots W) m) \<Longrightarrow> calm m"
  unfolding calm_def by (metis keepsD slots_def)

lemma calm_reraise: "calm m \<Longrightarrow> calm (try_except m c (\<lambda>x. andthen n (\<lambda>_. raise x)))"
  by (auto simp: calm_def try_except_Inr andthen_Inr)

lemma frees_later:
  assumes "calm m" and "\<And>x. frees url (f x)"
  shows "frees url (andthen m f)"
  unfolding frees_def
proof (intro allI impI)
  fix s y t assume "andthen m f s = (Inr y, t)"
  then obtain x u where m: "m s = (Inr x, u)" and f: "f x u = (Inr y, t)" by (rule andthenE)
  with assms(1) have "x_worker_ids (fst u) = x_worker_ids (fst s)" unfolding calm_def by blast
  moreover from f assms(2) have "x_worker_ids (fst t) = AList.delete url (x_worker_ids (fst u))"
    unfolding frees_def by blast
  ultimately show "x_worker_ids (fst t) = AList.delete url (x_worker_ids (fst s))" by simp
qed

lemma frees_if: "(b \<Longrightarrow> frees url m) \<Longrightarrow> (\<not> b \<Longrightarrow> frees url n) \<Longrightarrow> frees url (if b then m else n)"
  by simp

lemma frees_option:
  "frees url m \<Longrightarrow> (\<And>y. frees url (f y)) \<Longrightarrow> frees url (case x of None \<Rightarrow> m | Some y \<Rightarrow> f y)"
  by (cases x) auto

lemma frees_linked:
  "frees url m \<Longrightarrow> frees url n \<Longrightarrow> (\<And>x. frees url (h x)) \<Longrightarrow>
    frees url (case l of Linked \<Rightarrow> m | Collided \<Rightarrow> n | NotLinked x \<Rightarrow> h x)"
  by (cases l) auto

lemma frees_reviewed: "calm m \<Longrightarrow> frees url (reviewed url m)"
  unfolding reviewed_def by (intro frees_later frees_first frees_clear pres)

lemma keeps_slots_cool_down [pres]: "keeps (slots W) (cool_down e g url j)"
proof -
  have "x_worker_ids (snd (request_newnym e g q sid d)) = x_worker_ids d" for q sid d
    by (auto simp: request_newnym_def Let_def split: option.splits)
  then have "keeps (slots W) (ctl (\<lambda>s. let s = s\<lparr>x_cooldown_until := max (x_cooldown_until s) (e_time e + g_socks_backoff g)\<rparr>;
           sid = (case x_telemetry s of None \<Rightarrow> ''automatic'' | Some p \<Rightarrow> tp_session p);
           (renewal, s) = request_newnym e g (e_uuid e) sid s
       in (Inr (fst renewal = ''completed''), s)))"
    by (intro keeps_ctl) (simp add: slots_def Let_def split_beta)
  then show ?thesis unfolding cool_down_def by (intro pres)
qed

lemma keeps_slots_pause [pres]:
  "keeps (slots W) (ctl (modify (\<lambda>s. s\<lparr>x_paused := True\<rparr>)))"
  "keeps (slots W) (ctl (modify (\<lambda>s. s\<lparr>x_resume_confirmed := List.insert url (x_resume_confirmed s)\<rparr>)))"
  by (rule keeps_ctl; simp add: slots_def modify_def)+

lemmas frees_rules = frees_first [OF frees_clear] frees_option frees_linked frees_if frees_reviewed frees_later

lemma frees_promote: "frees (d_url r) (promote env g w r staging target k sh sc)"
proof -
  have "frees (d_url r) (finish_promotion env g w r staging target k sh sc)"
    unfolding finish_promotion_def Let_def
    by (rule frees_later, rule calm_keeps, rule pres)+ (rule frees_first [OF frees_clear], intro pres)
  then show ?thesis
    unfolding promote_def Let_def by (intro frees_rules calm_keeps pres)
qed

lemma frees_validate: "frees (d_url r) (validate env g w r staging target k b)"
  unfolding validate_def rejected_candidate_def Let_def
  by (intro frees_rules frees_promote calm_reraise calm_keeps pres)

lemma frees_failed: "frees (d_url r) (failed_transfer env g w r staging k b x)"
  unfolding failed_transfer_def Let_def
  by (intro frees_rules calm_keeps pres)

lemma poll_loop_slots [simp]: "x_worker_ids (snd (poll_loop e url rpc ps gid s)) = x_worker_ids s"
  by (induction ps arbitrary: rpc gid s) (auto simp: Let_def split: option.splits prod.splits list.splits)

lemma keeps_slots_run [pres]: "keeps (slots W) (run_aria2 e w url staging)"
proof -
  have "keeps (slots W) (ctl (\<lambda>s. let (r, s) = poll_loop e url (w_rpc w) (en_polls (w_engine w)) False s in (Inr r, s)))"
    by (rule keeps_ctl) (simp add: slots_def split_beta)
  moreover have "keeps (slots W) (record_worker e url pid)" for pid
    unfolding record_worker_def by (rule keeps_ctl) (auto simp: slots_def split: option.splits)
  ultimately show ?thesis
    unfolding run_aria2_def by (intro pres)
qed

lemma frees_review: "frees url (enter_representation_review e g w url staging decision observed)"
  unfolding enter_representation_review_def Let_def
  by (rule frees_later, rule calm_keeps, rule pres)+ (rule frees_clear)

lemma protect_slots:
  assumes "protect_resume e g w r staging s = (Inr v, t)"
  shows "x_worker_ids (fst t) = (case v of None \<Rightarrow> AList.delete (d_url r) (x_worker_ids (fst s)) | Some _ \<Rightarrow> x_worker_ids (fst s))"
proof -
  have "enter_representation_review e g w (d_url r) staging d ob s = (Inr x, u) \<Longrightarrow>
      x_worker_ids (fst u) = AList.delete (d_url r) (x_worker_ids (fst s))" for d ob x u
    using frees_review [of "d_url r" e g w staging d ob] unfolding frees_def by blast
  with assms show ?thesis
    unfolding protect_resume_def Let_def
    by (auto simp: andthen_Inr look_Inr ctl_Inr modify_def split: if_splits prod.splits option.splits)
qed

text \<open>After the slot has been taken, every way \<open>transfer\<close> can return gives it back.\<close>

lemma take_slot_Inr:
  assumes "take_slot e g r staging s = (Inr k, t)"
  shows "x_worker_ids (fst t) = AList.update (d_url r) k (x_worker_ids (fst s))"
  using assms by (cases t) (auto simp: take_slot_def ctl_Inr Let_def split: option.splits)

lemma calm_run: "calm (try_except (run_aria2 e w url staging) c (\<lambda>x. andthen n (\<lambda>_. raise x)))"
  by (rule calm_reraise, rule calm_keeps, rule pres)

lemma frees_protected:
  assumes "\<And>v. frees (d_url r) (f v)"
  shows "frees (d_url r) (andthen (protect_resume e g w r staging) (\<lambda>v. case v of None \<Rightarrow> ret y | Some c \<Rightarrow> f c))"
  unfolding frees_def
proof (intro allI impI)
  fix s x t assume "andthen (protect_resume e g w r staging) (\<lambda>v. case v of None \<Rightarrow> ret y | Some c \<Rightarrow> f c) s = (Inr x, t)"
  then obtain v u where p: "protect_resume e g w r staging s = (Inr v, u)"
    and q: "(case v of None \<Rightarrow> ret y | Some c \<Rightarrow> f c) u = (Inr x, t)" by (rule andthenE)
  show "x_worker_ids (fst t) = AList.delete (d_url r) (x_worker_ids (fst s))"
  proof (cases v)
    case None
    with protect_slots [OF p] q show ?thesis by (simp add: ret_Inr)
  next
    case (Some c)
    with q assms have "x_worker_ids (fst t) = AList.delete (d_url r) (x_worker_ids (fst u))"
      unfolding frees_def by fastforce
    with protect_slots [OF p] Some show ?thesis by simp
  qed
qed

lemma keeps_slots_start [pres]: "keeps (slots W) (ctl (modify (\<lambda>s. snd (wait_for_start_slot g a b s))))"
  by (rule keeps_ctl) (simp add: slots_def modify_def wait_for_start_slot_def Let_def)

text \<open>
  A transfer that returns, with whatever verdict, has given its worker slot back, and the
  slots of the other transfers are as they were.  A slot that leaked would make the next
  admitted transfer fail with ``no worker slot available''.
\<close>

theorem transfer_releases_slot:
  assumes "transfer env g w r s = (Inr x, t)" and "d_url r \<notin> fst ` set (x_worker_ids (fst s))"
  shows "x_worker_ids (fst t) = x_worker_ids (fst s)"
proof (cases "exists (target_of (env 0) g r) (snd s)")
  case True
  with assms(1) show ?thesis
    by (auto simp: transfer_def Let_def andthen_Inr look_Inr sys_Inr ctl_Inr ret_Inr) (metis slots_frames(3) snd_conv)
next
  case False
  let ?start = "ctl (modify (\<lambda>s. s\<lparr>x_resume_confirmed := removeAll (d_url r) (x_resume_confirmed s)\<rparr>))"
  define rest where "rest worker =
      andthen (tell (\<lambda>p. tp_event (e_now (env 0)) ''info'' ''attempt'' ''transfer admitted'' (Some (d_url r)) (Some worker)
          (tp_set_active (e_mono (env 0)) (d_url r) worker (d_attempts r + 1) ''cooldown'' None p))) (\<lambda>_.
      andthen (ctl (modify (\<lambda>s. snd (wait_for_start_slot g (e_mono (env 0)) (e_mono (env 1)) s)))) (\<lambda>_.
      andthen (protect_resume (env 1) g w r (staging_of (env 0) g r)) (\<lambda>v. case v of None \<Rightarrow> ret ''review'' | Some c \<Rightarrow>
      andthen (ctl (transition (env 2) g (d_url r) Active None (\<lambda>q. c (q\<lparr>d_attempts := d_attempts r + 1\<rparr>)))) (\<lambda>_.
      andthen (ctl (record_attempt_start (env 2) g (d_url r) (d_attempts r + 1) (e_utc (env 2)))) (\<lambda>_.
      andthen (tell (tp_update_phase (e_mono (env 2)) (d_url r) ''connecting'')) (\<lambda>_.
      andthen (try_except (run_aria2 (env 2) w (d_url r) (staging_of (env 0) g r)) (\<lambda>_. True)
        (\<lambda>x. andthen (clear_transfer_telemetry (d_url r)) (\<lambda>_. raise x))) (\<lambda>(ok, error).
      andthen (look (\<lambda>f. ok \<and> exists (staging_of (env 0) g r) f \<and> \<not> exists (control_file (staging_of (env 0) g r)) f)) (\<lambda>arrived.
      if \<not> arrived then failed_transfer env g w r (staging_of (env 0) g r) worker (e_utc (env 2)) error
      else validate env g w r (staging_of (env 0) g r) (target_of (env 0) g r) worker (e_utc (env 2))))))))))" for worker
  have after: "frees (d_url r) (andthen (look h) (\<lambda>arrived. if \<not> arrived then failed_transfer env g w r st k b error
      else validate env g w r st ta k b))" for h st k b error ta
    by (intro frees_later frees_if frees_failed frees_validate calm_keeps pres)
  have frees: "frees (d_url r) (rest worker)" for worker
    unfolding rest_def
    by (intro frees_later frees_protected calm_run calm_keeps pres) (simp add: split_beta after)
  have "andthen (look q) f s = f (q (snd s)) s" for q :: "fs \<Rightarrow> bool" and f :: "bool \<Rightarrow> string fstep"
    by (simp add: andthen_def look_def split_beta)
  then have "transfer env g w r s = andthen ?start (\<lambda>_. andthen (take_slot (env 0) g r (staging_of (env 0) g r)) rest) s"
    unfolding transfer_def rest_def Let_def by (simp only: if_not_P [OF False])
  then have tail: "andthen ?start (\<lambda>_. andthen (take_slot (env 0) g r (staging_of (env 0) g r)) rest) s = (Inr x, t)"
    using assms(1) by simp
  then obtain y v where first: "?start s = (Inr y, v)"
    and "andthen (take_slot (env 0) g r (staging_of (env 0) g r)) rest v = (Inr x, t)" by (rule andthenE)
  then obtain k u where take: "take_slot (env 0) g r (staging_of (env 0) g r) v = (Inr k, u)" and last: "rest k u = (Inr x, t)"
    by - (rule andthenE)
  from first have "x_worker_ids (fst v) = x_worker_ids (fst s)" by (cases v) (auto simp: ctl_Inr modify_def)
  with take_slot_Inr [OF take] have "x_worker_ids (fst u) = AList.update (d_url r) k (x_worker_ids (fst s))" by simp
  moreover from last frees have "x_worker_ids (fst t) = AList.delete (d_url r) (x_worker_ids (fst u))"
    unfolding frees_def by blast
  ultimately show ?thesis using assms(2) by (simp add: delete_update_fresh)
qed

subsection \<open>A concrete transfer\<close>

definition example_engine :: engine where
  "example_engine = \<lparr>en_spawn = None, en_pid = 7, en_polls = [], en_code = 0, en_log = '''', en_response_log = None,
     en_files = (\<lambda>f. f\<lparr>f_node := (f_node f)([''s'', ''incoming'', ''u1'', ''''] \<mapsto> File 9),
                          f_data := (f_data f)(9 := ''hello'')\<rparr>)\<rparr>"

definition example_world :: world where
  "example_world = \<lparr>w_fault = no_fault, w_rpc = False, w_head = (\<lambda>_. None), w_engine = example_engine,
     w_hexes = [''h''], w_race = (\<lambda>f. f)\<rparr>"

definition example_protected :: download where
  "example_protected = (example_row ''u1'' Queued)\<lparr>d_expected_sha256 := Some ''HELLO''\<rparr>"

definition example_transfer :: "(failure + string) \<times> downloader \<times> fs" where
  "example_transfer = transfer (\<lambda>_. example_env) example_config example_world example_protected (example_state, example_fs)"

lemma example_transfer_ends: "fst example_transfer = Inr ''complete''"
  by code_simp

lemma example_transfer_run:
  "transfer (\<lambda>_. example_env) example_config example_world example_protected (example_state, example_fs) =
     (Inr ''complete'', snd example_transfer)"
  using example_transfer_ends unfolding example_transfer_def by (metis prod.collapse)

lemma example_transfer_places:
  "staging_of example_env example_config example_protected = [''s'', ''incoming'', ''u1'', '''']"
  "target_of example_env example_config example_protected = [''d'', ''files'', ''u1'']"
  by code_simp+

lemma example_url [simp]: "d_url example_protected = ''u1''" "d_expected_sha256 example_protected = Some ''HELLO''"
  by (simp_all add: example_protected_def example_row_def new_download_def)


theorem complete_is_verified_witness:
  "\<exists>q i. find_download ''u1'' (x_db (fst (snd example_transfer))) = Some q \<and> d_status q = Complete \<and>
     lstat [''d'', ''files'', ''u1''] (snd (snd example_transfer)) = Some (File i) \<and>
     lstat [''s'', ''incoming'', ''u1'', ''''] (snd (snd example_transfer)) = None \<and>
     str_lower (f_data (snd (snd example_transfer)) i) = ''hello''"
proof -
  have "fair_race example_world (staging_of example_env example_config example_protected)"
    by (simp add: fair_race_def example_world_def)
  moreover have "e_sha example_env data = data" "str_lower ''HELLO'' = ''hello''" "given (Some ''HELLO'')" for data
    by (simp add: example_env_def, code_simp, simp add: given_def)
  ultimately show ?thesis
    using complete_is_verified [OF example_transfer_run] unfolding example_transfer_places example_url by auto
qed

theorem transfer_releases_slot_witness:
  "x_worker_ids (fst (snd example_transfer)) = [] \<and> reserve_worker_id example_config (fst (snd example_transfer)) = Some 1"
proof -
  have "x_worker_ids (fst (example_state, example_fs)) = []"
    by (simp add: example_state_def init_downloader_def)
  with transfer_releases_slot [OF example_transfer_run] have "x_worker_ids (fst (snd example_transfer)) = []" by simp
  then show ?thesis by (simp add: reserve_worker_id_def example_config_def upt_rec)
qed

end
