(* ===== verification/Recovery.thy ===== *)
theory Recovery
  imports Transfers
begin

text \<open>
  What a start repairs before it admits anything (\<open>src/tod-dl.py\<close>): \<open>reconcile_promotions\<close>,
  \<open>cleanup_completed_staging\<close>, \<open>remediate_safe_paths\<close> with \<open>safe_remediation_target\<close> and
  \<open>remediation_event\<close>, and the search for a writer process that survived its controller
  (\<open>surviving_writer_pid\<close>, \<open>terminate_surviving_writer\<close>, \<open>process_start_ticks\<close>).

  \<open>env k j\<close> holds the readings of the \<open>j\<close>-th stage of the \<open>k\<close>-th row.
\<close>

subsection \<open>Loops over rows\<close>

fun each :: "(nat \<Rightarrow> 'a \<Rightarrow> unit fstep) \<Rightarrow> nat \<Rightarrow> 'a list \<Rightarrow> unit fstep" where
  "each h k [] = ret ()"
| "each h k (x # xs) = andthen (h k x) (\<lambda>_. each h (Suc k) xs)"

definition attempt_os :: "'a fstep \<Rightarrow> (failure + 'a) fstep" where
  "attempt_os m = try_except (andthen m (\<lambda>v. ret (Inr v))) os_only (\<lambda>x. ret (Inl x))"

definition text_path :: "string option \<Rightarrow> loc option" where
  "text_path t = (if given t then Some (text_loc (the t)) else None)"

subsection \<open>Promotion intents\<close>

definition target_matches :: "env \<Rightarrow> config \<Rightarrow> fault \<Rightarrow> loc option \<Rightarrow> string option \<Rightarrow> bool fcall" where
  "target_matches e g fault target sha256 f =
     (case target of
        None \<Rightarrow> Inr (False, f)
      | Some p \<Rightarrow>
          if is_safe_final_path g fault p f \<and> given sha256
          then (case sha256sum e fault p f of Inl x \<Rightarrow> Inl x | Inr (h, f) \<Rightarrow> Inr (Some h = sha256, f))
          else Inr (False, f))"

text \<open>\<open>stored_text or Path(target).relative_to(self.destination).as_posix()\<close>.\<close>

definition stored_or_relative :: "config \<Rightarrow> download \<Rightarrow> loc \<Rightarrow> string fstep" where
  "stored_or_relative g r target =
     (if given (d_storage_path r) then ret (the (d_storage_path r))
      else case relative_text_to target (g_destination g) of
        Some t \<Rightarrow> ret t
      | None \<Rightarrow> raise (Raised (OtherRuntime ''ValueError'')))"

definition reconciled :: "(nat \<Rightarrow> env) \<Rightarrow> config \<Rightarrow> fault \<Rightarrow> download \<Rightarrow> loc \<Rightarrow> unit fstep" where
  "reconciled env g fault r target =
     andthen (stored_or_relative g r target) (\<lambda>stored.
     andthen (sys (stat_size fault target)) (\<lambda>n.
     andthen (ctl (finalized_event (env 1) (d_url r) (d_relative_path r) stored n (the (d_sha256 r)) (d_expected_sha256 r) False)) (\<lambda>_.
     andthen (sys (stat_size fault target)) (\<lambda>n.
     ctl (transition (env 2) g (d_url r) Complete (Some ''reconciled promotion intent'')
       (\<lambda>q. q\<lparr>d_bytes := Some n, d_sha256 := d_sha256 r\<rparr>))))))"

definition staging_removed :: "(nat \<Rightarrow> env) \<Rightarrow> config \<Rightarrow> fault \<Rightarrow> string \<Rightarrow> loc \<Rightarrow> unit fstep" where
  "staging_removed env g fault url staging =
     andthen (sys (unlink fault staging)) (\<lambda>_.
     ctl (transition (env 3) g url Complete (Some ''reconciled staging cleanup'')
       (\<lambda>q. q\<lparr>d_cleanup_completed_at := Some (e_now (env 3))\<rparr>)))"

definition promotion_refused :: "(nat \<Rightarrow> env) \<Rightarrow> config \<Rightarrow> string \<Rightarrow> string \<Rightarrow> failure \<Rightarrow> unit fstep" where
  "promotion_refused env g url detail x =
     ctl (transition (env 1) g url ReviewRequired (Some detail)
       (set_review (''promotion reconciliation failed: '' @ failure_text x) (review_code_for_error x)))"

definition promotable :: "config \<Rightarrow> fault \<Rightarrow> download \<Rightarrow> loc \<Rightarrow> loc \<Rightarrow> fs \<Rightarrow> bool" where
  "promotable g fault r target staging f =
     (given (d_sha256 r) \<and> is_safe_staging_path g staging f \<and> is_promotable_final_path g fault target f \<and>
      fault SysLstat staging = None \<and> is_regular staging f)"

definition inconsistent_promotion :: "(nat \<Rightarrow> env) \<Rightarrow> config \<Rightarrow> string \<Rightarrow> unit fstep" where
  "inconsistent_promotion env g url =
     ctl (transition (env 1) g url ReviewRequired (Some ''incomplete or inconsistent promotion'')
       (\<lambda>q. q\<lparr>d_last_error := Some ''promotion reconciliation requires review''\<rparr>))"

text \<open>The final is not the recorded one: link what is staged, or ask for review.\<close>

definition reconcile_unmatched :: "(nat \<Rightarrow> env) \<Rightarrow> config \<Rightarrow> fault \<Rightarrow> download \<Rightarrow> unit fstep" where
  "reconcile_unmatched env g fault r =
     (let url = d_url r in
      case (text_path (d_promotion_target r), text_path (d_staging_path r)) of
        (Some target, Some staging) \<Rightarrow>
          andthen (look (promotable g fault r target staging)) (\<lambda>ready.
          if \<not> ready then inconsistent_promotion env g url
          else
            andthen (attempt_os (sys (link fault staging target))) (\<lambda>linked.
            case linked of
              Inl x \<Rightarrow> promotion_refused env g url ''promotion target could not be recreated'' x
            | Inr _ \<Rightarrow>
                andthen (sys (flush fault (butlast target))) (\<lambda>_.
                andthen (reconciled env g fault r target) (\<lambda>_.
                staging_removed env g fault url staging))))
      | _ \<Rightarrow> inconsistent_promotion env g url)"

definition reconcile_row :: "(nat \<Rightarrow> env) \<Rightarrow> config \<Rightarrow> fault \<Rightarrow> download \<Rightarrow> unit fstep" where
  "reconcile_row env g fault r =
     (let url = d_url r; target = text_path (d_promotion_target r) in
      andthen (attempt_os (sys (target_matches (env 0) g fault target (d_sha256 r)))) (\<lambda>found.
      case found of
        Inl x \<Rightarrow> promotion_refused env g url ''promotion target is inaccessible'' x
      | Inr True \<Rightarrow>
          andthen (reconciled env g fault r (the target)) (\<lambda>_.
          case text_path (d_staging_path r) of
            None \<Rightarrow> ret ()
          | Some p \<Rightarrow>
              andthen (look (\<lambda>f. exists p f \<and> is_file p f)) (\<lambda>there.
              if there then staging_removed env g fault url p else ret ()))
      | Inr False \<Rightarrow> reconcile_unmatched env g fault r))"

definition reconcile_promotions :: "(nat \<Rightarrow> nat \<Rightarrow> env) \<Rightarrow> config \<Rightarrow> fault \<Rightarrow> unit fstep" where
  "reconcile_promotions env g fault =
     andthen (read_ctl (\<lambda>s. filter (\<lambda>r. d_status r = Promoting) (downloads (x_db s))))
       (each (\<lambda>k. reconcile_row (env k) g fault) 0)"

subsection \<open>Staging left behind a completed file\<close>

definition cleanup_row :: "(nat \<Rightarrow> env) \<Rightarrow> config \<Rightarrow> fault \<Rightarrow> download \<Rightarrow> unit fstep" where
  "cleanup_row env g fault r =
     (let url = d_url r; staging = staging_of (env 0) g r;
          requires_review = (\<lambda>detail. ctl (transition (env 1) g url ReviewRequired (Some detail)
            (\<lambda>q. q\<lparr>d_last_error := Some ''completed staging cleanup requires review''\<rparr>)));
          cleaned = ctl (transition (env 1) g url Complete (Some ''reconciled staging cleanup'')
            (\<lambda>q. q\<lparr>d_cleanup_completed_at := Some (e_now (env 1))\<rparr>))
      in
      try_except
        (andthen (look (is_safe_staging_path g staging)) (\<lambda>safe.
         if \<not> safe then requires_review ''completed staging path is unsafe''
         else
           andthen (look (lstat staging)) (\<lambda>node.
           case (fault SysLstat staging, node) of
             (Some ENOENT, _) \<Rightarrow> cleaned
           | (Some x, _) \<Rightarrow> raise (Os x)
           | (None, None) \<Rightarrow> cleaned
           | (None, Some (File _)) \<Rightarrow> andthen (sys (unlink fault staging)) (\<lambda>_. cleaned)
           | (None, Some _) \<Rightarrow> requires_review ''completed staging is not a regular file'')))
        os_only
        (\<lambda>x. ctl (transition (env 2) g url Complete
           (Some (''completed staging cleanup failed; will repeat: '' @ failure_text x)) (\<lambda>q. q))))"

definition cleanup_completed_staging :: "(nat \<Rightarrow> nat \<Rightarrow> env) \<Rightarrow> config \<Rightarrow> fault \<Rightarrow> unit fstep" where
  "cleanup_completed_staging env g fault =
     andthen (read_ctl (\<lambda>s. filter (\<lambda>r. d_status r = Complete \<and> d_cleanup_completed_at r = None) (run_rows (g_run g) (x_db s))))
       (each (\<lambda>k. cleanup_row (env k) g fault) 0)"

subsection \<open>Safe-path remediation\<close>

definition SAFE_PATH_MAPPING_VERSION :: string where
  "SAFE_PATH_MAPPING_VERSION = ''v1''"

definition remediation_event :: "env \<Rightarrow> string \<Rightarrow> string \<Rightarrow> string \<Rightarrow> unit step" where
  "remediation_event e severity message url s =
     (Inr (), case x_telemetry s of
        Some p \<Rightarrow> s\<lparr>x_telemetry := Some (tp_event (e_now e) severity ''safe_path'' message (Some url) None p)\<rparr>
      | None \<Rightarrow> s\<lparr>x_pending_events := x_pending_events s @ [(severity, message, url)]\<rparr>)"

text \<open>\<open>target.relative_to(self.destination)\<close> cannot fail for a joined relative path.\<close>

definition safe_remediation_target :: "env \<Rightarrow> config \<Rightarrow> string \<Rightarrow> failure + ppath \<times> loc" where
  "safe_remediation_target e g logical_text =
     (let logical = parse_path logical_text in
      if pp_absolute logical \<or> pp_names logical = [] \<or> list_ex (\<lambda>part. part \<in> {[], ''.'', ''..''}) (pp_names logical)
      then Inl (Raised (OtherRuntime ''unsafe logical path for safe-path remediation''))
      else
        let stored = stored_path e g logical; target = target_loc g stored in
        if relative_to target (g_destination g) = None
        then Inl (Raised (OtherRuntime ''mapped path escapes destination''))
        else Inr (stored, target))"

definition require :: "bool \<Rightarrow> string \<Rightarrow> unit fstep" where
  "require b message = (if b then ret () else raise (Raised (OtherRuntime message)))"

text \<open>The first \<open>try\<close>: the staged artifact is the approved, unchanged one and its parent is safe.\<close>

definition remediation_checks :: "env \<Rightarrow> config \<Rightarrow> fault \<Rightarrow> download \<Rightarrow> loc \<Rightarrow> (ppath \<times> loc) fstep" where
  "remediation_checks e g fault r staging =
     andthen (require (text_path (d_staging_path r) = Some (staging_path e g (d_url r)))
        ''staging path is outside the approved incoming tree'') (\<lambda>_.
     andthen (sys (\<lambda>f. case fault SysLstat staging of
          Some x \<Rightarrow> Inl (Os x)
        | None \<Rightarrow> if lstat staging f = None then Inl (Os ENOENT) else Inr (is_regular staging f, f))) (\<lambda>regular.
     andthen (require regular ''staging is not a regular file'') (\<lambda>_.
     andthen (require (given (d_sha256 r)) ''recorded staging digest is absent'') (\<lambda>_.
     andthen (sys (sha256sum e fault staging)) (\<lambda>sha256.
     andthen (require (Some sha256 = d_sha256 r) ''staging digest does not match recorded digest'') (\<lambda>_.
     andthen (case safe_remediation_target e g (d_relative_path r) of Inl x \<Rightarrow> raise x | Inr v \<Rightarrow> ret v) (\<lambda>(stored, target).
     andthen (sys (ensure_safe_parent g fault target)) (\<lambda>_.
     andthen (sys (flush fault staging)) (\<lambda>_.
     ret (stored, target))))))))))"

definition remediation_failed :: "(nat \<Rightarrow> env) \<Rightarrow> config \<Rightarrow> string \<Rightarrow> string \<Rightarrow> string \<Rightarrow> string \<Rightarrow>
    (download \<Rightarrow> download) \<Rightarrow> bool fstep" where
  "remediation_failed env g url error outcome message columns =
     andthen (ctl (transition (env 3) g url ReviewRequired (Some error)
        (\<lambda>q. columns (q\<lparr>d_last_error := Some error, d_remediation_outcome := Some outcome\<rparr>)))) (\<lambda>_.
     andthen (ctl (remediation_event (env 3) ''warning'' message url)) (\<lambda>_. ret False))"

text \<open>After the \<open>link\<close>: the durable completion, then the staging name goes.\<close>

definition remediation_complete :: "(nat \<Rightarrow> env) \<Rightarrow> config \<Rightarrow> fault \<Rightarrow> download \<Rightarrow> loc \<Rightarrow> ppath \<Rightarrow> loc \<Rightarrow> bool fstep" where
  "remediation_complete env g fault r staging stored target =
     (let url = d_url r in
      andthen (sys (stat_size fault target)) (\<lambda>n.
      andthen (ctl (finalized_event (env 2) url (d_relative_path r) (as_posix stored) n (the (d_sha256 r)) None False)) (\<lambda>_.
      andthen (sys (stat_size fault target)) (\<lambda>n.
      andthen (ctl (transition (env 3) g url Complete (Some ''automatic safe-path remediation complete'')
        (\<lambda>q. q\<lparr>d_bytes := Some n, d_sha256 := d_sha256 r, d_remediation_outcome := Some ''complete'',
           d_remediation_completed_at := Some (e_now (env 3))\<rparr>))) (\<lambda>_.
      andthen (sys (unlink fault staging)) (\<lambda>_.
      andthen (ctl (transition (env 4) g url Complete (Some ''staging cleanup complete'')
        (\<lambda>q. q\<lparr>d_cleanup_completed_at := Some (e_now (env 4))\<rparr>))) (\<lambda>_.
      andthen (ctl (remediation_event (env 4) ''info'' ''safe-path remediation complete'' url)) (\<lambda>_.
      ret True))))))))"

definition remediation_promote :: "(nat \<Rightarrow> env) \<Rightarrow> config \<Rightarrow> fault \<Rightarrow> download \<Rightarrow> loc \<Rightarrow> ppath \<Rightarrow> loc \<Rightarrow> bool fstep" where
  "remediation_promote env g fault r staging stored target =
     (let url = d_url r in
      andthen (ctl (transition (env 1) g url Promoting (Some ''automatic safe-path remediation intent'')
        (\<lambda>q. q\<lparr>d_storage_path := Some (as_posix stored), d_promotion_target := Some (loc_text target),
           d_promotion_intent_at := Some (e_now (env 1)), d_remediation_reason := Some ''automatic safe-path remediation'',
           d_remediation_mapping_version := Some SAFE_PATH_MAPPING_VERSION, d_review_code := Some ''ENAMETOOLONG'',
           d_remediation_started_at := Some (e_now (env 1))\<rparr>))) (\<lambda>_.
      andthen (attempt_os (andthen (sys (link fault staging target)) (\<lambda>_. sys (flush fault (butlast target))))) (\<lambda>linked.
      case linked of
        Inl x \<Rightarrow>
          if x = Os EEXIST
          then remediation_failed env g url ''mapped destination already exists'' ''manual_collision''
            ''safe-path remediation found an existing final'' (\<lambda>q. q)
          else remediation_failed env g url (failure_text x) ''manual_error''
            ''safe-path remediation requires manual review'' (\<lambda>q. q)
      | Inr _ \<Rightarrow> remediation_complete env g fault r staging stored target)))"

definition remediate_row :: "(nat \<Rightarrow> env) \<Rightarrow> config \<Rightarrow> fault \<Rightarrow> download \<Rightarrow> bool fstep" where
  "remediate_row env g fault r =
     (let url = d_url r; staging = staging_path (env 0) g url in
      andthen (try_except (andthen (remediation_checks (env 0) g fault r staging) (\<lambda>v. ret (Inr v))) runtime_or_os (\<lambda>x. ret (Inl x))) (\<lambda>checked.
      case checked of
        Inl x \<Rightarrow> remediation_failed env g url (failure_text x) ''manual_error'' ''safe-path remediation requires manual review''
          (\<lambda>q. q\<lparr>d_remediation_reason := Some ''automatic safe-path remediation'',
             d_remediation_mapping_version := Some SAFE_PATH_MAPPING_VERSION\<rparr>)
      | Inr (stored, target) \<Rightarrow> remediation_promote env g fault r staging stored target))"

definition remediable :: "download \<Rightarrow> bool" where
  "remediable r = (d_review_code r = Some ''ENAMETOOLONG'' \<or> legacy_name_too_long_error (d_last_error r))"

fun remediate_rows :: "(nat \<Rightarrow> nat \<Rightarrow> env) \<Rightarrow> config \<Rightarrow> fault \<Rightarrow> nat \<Rightarrow> download list \<Rightarrow> nat \<Rightarrow> nat fstep" where
  "remediate_rows env g fault k [] resolved = ret resolved"
| "remediate_rows env g fault k (r # rs) resolved =
     (if \<not> remediable r then remediate_rows env g fault (Suc k) rs resolved
      else andthen (remediate_row (env k) g fault r) (\<lambda>ok.
        remediate_rows env g fault (Suc k) rs (if ok then Suc resolved else resolved)))"

definition remediate_safe_paths :: "(nat \<Rightarrow> nat \<Rightarrow> env) \<Rightarrow> config \<Rightarrow> fault \<Rightarrow> nat fstep" where
  "remediate_safe_paths env g fault =
     andthen (read_ctl (\<lambda>s. filter (\<lambda>r. d_status r = ReviewRequired \<and> d_remediation_outcome r = None)
         (run_rows (g_run g) (x_db s))))
       (\<lambda>rows. remediate_rows env g fault 0 rows 0)"

subsection \<open>What a step leaves in the other rows\<close>

lemma each_Inr:
  "each h k (x # xs) s = (Inr v, t) \<longleftrightarrow> (\<exists>u. h k x s = (Inr (), u) \<and> each h (Suc k) xs u = (Inr v, t))"
  by (auto simp: andthen_Inr)

lemma attempt_os_Inr:
  "attempt_os m s = (Inr (Inr v), t) \<longleftrightarrow> m s = (Inr v, t)"
  "attempt_os m s = (Inr (Inl x), t) \<longleftrightarrow> m s = (Inl x, t) \<and> os_only x"
  by (auto simp: attempt_os_def try_except_def andthen_def ret_def split: sum.splits prod.splits)

definition rows_at :: "string \<Rightarrow> db \<Rightarrow> download list" where
  "rows_at v d = filter (\<lambda>r. d_url r = v) (downloads d)"

lemma find_rows_at: "find_download v d = (case rows_at v d of [] \<Rightarrow> None | r # _ \<Rightarrow> Some r)"
proof -
  have "find P xs = (case filter P xs of [] \<Rightarrow> None | r # _ \<Rightarrow> Some r)" for P and xs :: "download list"
    by (induction xs) auto
  then show ?thesis by (simp add: find_download_def rows_at_def)
qed

lemma rows_at_other:
  assumes "\<And>q. d_url (h q) = d_url q" and "v \<noteq> u"
  shows "rows_at v (update_where (\<lambda>q. d_url q = u) h d) = rows_at v d"
proof -
  have "filter (\<lambda>q. d_url q = v) (map (\<lambda>q. if d_url q = u then h q else q) xs) = filter (\<lambda>q. d_url q = v) xs" for xs
    using assms by (induction xs) auto
  then show ?thesis by (simp add: rows_at_def)
qed

text \<open>The rows but those of \<open>u\<close> are \<open>fst R\<close>, and the URLs of the table \<open>snd R\<close>.\<close>

definition others :: "string \<Rightarrow> (string \<Rightarrow> download list) \<times> string list \<Rightarrow> downloader \<times> fs \<Rightarrow> bool" where
  "others u R s = ((\<forall>v. v \<noteq> u \<longrightarrow> rows_at v (x_db (fst s)) = fst R v) \<and> map d_url (downloads (x_db (fst s))) = snd R)"

abbreviation other_rows :: "downloader \<times> fs \<Rightarrow> (string \<Rightarrow> download list) \<times> string list" where
  "other_rows s \<equiv> (\<lambda>v. rows_at v (x_db (fst s)), map d_url (downloads (x_db (fst s))))"

lemma others_self: "others u (other_rows s) s"
  by (simp add: others_def)

lemma transition_others:
  assumes "\<And>q. d_url (h q) = d_url q" and "v \<noteq> url"
  shows "rows_at v (x_db (snd (transition e g url st dt h s))) = rows_at v (x_db s)"
proof -
  have "d_url (transition_row_update st (e_now e) h q) = d_url q" for q
    by (simp add: transition_row_update_def assms(1))
  note same = rows_at_other [OF this assms(2)]
  have "rows_at v (snd (transition_db rid stamp url st dt h old d)) =
      rows_at v (update_where (\<lambda>q. d_url q = url) (transition_row_update st stamp h) d)" for rid stamp old d
    by (simp add: transition_db_def rows_at_def)
  then have "transition_db (g_run g) (e_now e) url st dt h old (x_db s) = (n, d) \<Longrightarrow> rows_at v d = rows_at v (x_db s)" for old n d
    using same by (metis snd_conv)
  then show ?thesis
    by (auto simp: transition_def apply_projection_change_def record_local_failure_def
        split: option.splits prod.splits commit.splits)
qed

lemma transition_urls:
  assumes "\<And>q. d_url (h q) = d_url q"
  shows "map d_url (downloads (x_db (snd (transition e g url st dt h s)))) = map d_url (downloads (x_db s))"
proof -
  have "map d_url (downloads (snd (transition_db rid stamp url st dt h old d))) = map d_url (downloads d)" for rid stamp old d
    by (simp add: transition_db_def update_where_def transition_row_update_def assms)
  then have "transition_db (g_run g) (e_now e) url st dt h old (x_db s) = (n, d) \<Longrightarrow>
      map d_url (downloads d) = map d_url (downloads (x_db s))" for old n d
    by (metis snd_conv)
  then show ?thesis
    by (auto simp: transition_def apply_projection_change_def record_local_failure_def
        split: option.splits prod.splits commit.splits)
qed

lemma keeps_others [pres]:
  "(\<And>q. d_url (h q) = d_url q) \<Longrightarrow> keeps (others url R) (ctl (transition e g url st dt h))"
  "keeps (others url R) (ctl (finalized_event e u lo sd n h' ex sc))" "keeps (others url R) (sys m)"
  "keeps (others url R) (read_ctl q)"
  unfolding read_ctl_def others_def
  by (rule keeps_ctl keeps_sys; simp add: transition_others transition_urls gets_def)+

lemma keeps_attempt [pres]: "keeps I m \<Longrightarrow> keeps I (attempt_os m)"
  unfolding attempt_os_def by (intro pres)

lemma reconcile_others: "keeps (others (d_url r) R) (reconcile_row env g fault r)"
  unfolding reconcile_row_def reconcile_unmatched_def inconsistent_promotion_def promotion_refused_def reconciled_def stored_or_relative_def staging_removed_def Let_def
  by (auto intro!: pres split: option.splits sum.splits bool.splits simp: set_review_def)

subsection \<open>The outcome of an intent\<close>

lemma stat_size_Inr: "stat_size fault p f = Inr (n, f') \<Longrightarrow> f' = f \<and> n = size_of p f"
  by (auto simp: stat_size_def split: option.splits if_splits)

lemma unlink_Inr: "unlink fault p f = Inr (v, f') \<Longrightarrow> f' = set_node p None f"
  by (auto simp: unlink_def split: option.splits node.splits)

lemma transition_step:
  assumes "ctl (transition e g url st dt h) s = (Inr v, t)" and "\<And>q. d_url (h q) = d_url q"
  obtains old where "find_download url (x_db (fst s)) = Some old" and "snd t = snd s"
    and "find_download url (x_db (fst t)) = Some (transition_row_update st (e_now e) h old)"
  using assms by (auto simp: ctl_Inr elim!: transition_row)

lemma reconciled_Inr:
  assumes "reconciled env g fault r p s = (Inr v, t)"
  obtains q where "find_download (d_url r) (x_db (fst t)) = Some q" and "d_status q = Complete" and "snd t = snd s"
    and "d_sha256 q = d_sha256 r" and "d_bytes q = Some (size_of p (snd s))"
proof -
  from assms obtain n u where u: "snd u = snd s" "n = size_of p (snd s)"
    and tr: "ctl (transition (env 2) g (d_url r) Complete (Some ''reconciled promotion intent'')
       (\<lambda>q. q\<lparr>d_bytes := Some n, d_sha256 := d_sha256 r\<rparr>)) u = (Inr v, t)"
    by (auto simp: reconciled_def stored_or_relative_def andthen_Inr sys_Inr ctl_Inr dest!: stat_size_Inr split: if_splits option.splits)
  from tr show ?thesis
    by (rule transition_step) (auto simp: transition_row_update_def u intro!: that)
qed

lemma staging_removed_Inr:
  assumes "staging_removed env g fault url p s = (Inr v, t)"
  obtains q where "find_download url (x_db (fst s)) = Some q" and "snd t = set_node p None (snd s)"
    and "find_download url (x_db (fst t)) = Some (q\<lparr>d_status := Complete, d_updated_at := e_now (env 3),
      d_cleanup_completed_at := Some (e_now (env 3))\<rparr>)"
proof -
  from assms obtain u where u: "fst u = fst s" "snd u = set_node p None (snd s)"
    and tr: "ctl (transition (env 3) g url Complete (Some ''reconciled staging cleanup'')
       (\<lambda>q. q\<lparr>d_cleanup_completed_at := Some (e_now (env 3))\<rparr>)) u = (Inr v, t)"
    by (auto simp: staging_removed_def andthen_Inr sys_Inr dest!: unlink_Inr)
  from tr show ?thesis
    by (rule transition_step) (auto simp: transition_row_update_def u intro!: that)
qed

text \<open>How the row and the file system look once an intent has been resolved.\<close>

definition intent_settled :: "env \<Rightarrow> download \<Rightarrow> downloader \<times> fs \<Rightarrow> downloader \<times> fs \<Rightarrow> download \<Rightarrow> bool" where
  "intent_settled e r s t q \<longleftrightarrow>
     find_download (d_url r) (x_db (fst t)) = Some q \<and> f_data (snd t) = f_data (snd s) \<and>
     (d_status q = ReviewRequired \<and> snd t = snd s \<or>
      d_status q = Complete \<and> d_sha256 q = d_sha256 r \<and>
        (\<exists>p i. text_path (d_promotion_target r) = Some p \<and> lstat p (snd t) = Some (File i) \<and>
           d_bytes q = Some (int (length (f_data (snd t) i))) \<and>
           (lstat p (snd s) = Some (File i) \<and> Some (e_sha e (f_data (snd t) i)) = d_sha256 r \<or>
            lstat p (snd s) = None \<and> d_cleanup_completed_at q \<noteq> None \<and>
              (\<exists>a. text_path (d_staging_path r) = Some a \<and> lstat a (snd s) = Some (File i) \<and> lstat a (snd t) = None))))"

lemma refused_settles:
  assumes "promotion_refused env g (d_url r) detail x s = (Inr v, t)"
  shows "\<exists>q. intent_settled e r s t q"
proof -
  from assms show ?thesis
    unfolding promotion_refused_def
    by (rule transition_step) (auto simp: transition_row_update_def set_review_def intent_settled_def)
qed

lemma inconsistent_settles:
  assumes "ctl (transition e' g (d_url r) ReviewRequired dt (\<lambda>q. q\<lparr>d_last_error := le\<rparr>)) s = (Inr v, t)"
  shows "\<exists>q. intent_settled e r s t q"
  using assms by (rule transition_step) (auto simp: transition_row_update_def intent_settled_def)

lemma attempt_sys_state: "attempt_os (sys m) s = (Inr (Inl x), t) \<Longrightarrow> t = s"
  by (auto simp: attempt_os_Inr sys_def split: sum.splits)

lemma target_matches_Inr:
  assumes "target_matches e g fault target h f = Inr (b, f')"
  shows "f' = f" and "b \<Longrightarrow> \<exists>p i. target = Some p \<and> lstat p f = Some (File i) \<and> Some (e_sha e (f_data f i)) = h"
  using assms
  by (auto simp: target_matches_def sha256sum_def read_bytes_def is_safe_final_path_def is_regular_def
      split: option.splits if_splits sum.splits node.splits)

lemma promotable_regular: "promotable g fault r p a f \<Longrightarrow> \<exists>i. lstat a f = Some (File i)"
  by (auto simp: promotable_def is_regular_def split: option.splits node.splits)

lemma found_settles:
  assumes m: "text_path (d_promotion_target r) = Some p" "lstat p (snd s) = Some (File i)" "Some (e_sha e (f_data (snd s) i)) = d_sha256 r"
    and rec: "reconciled env g fault r p s = (Inr v, u)"
    and rest: "(case text_path (d_staging_path r) of None \<Rightarrow> ret ()
          | Some a \<Rightarrow> andthen (look (\<lambda>f. exists a f \<and> is_file a f)) (\<lambda>there.
              if there then staging_removed env g fault (d_url r) a else ret ())) u = (Inr w, t)"
    and ne: "text_path (d_staging_path r) \<noteq> Some p"
  shows "\<exists>q. intent_settled e r s t q"
proof -
  from rec obtain q where q: "find_download (d_url r) (x_db (fst u)) = Some q" "d_status q = Complete" "snd u = snd s"
    "d_sha256 q = d_sha256 r" "d_bytes q = Some (size_of p (snd s))" by (rule reconciled_Inr)
  show ?thesis
  proof (cases "u = t")
    case True
    with q m show ?thesis by (auto simp: intent_settled_def staged_data)
  next
    case False
    with rest obtain a where a: "text_path (d_staging_path r) = Some a" "staging_removed env g fault (d_url r) a u = (Inr w, t)"
      by (auto simp: andthen_Inr look_Inr split: option.splits if_splits)
    from a(2) obtain q' where "find_download (d_url r) (x_db (fst u)) = Some q'" "snd t = set_node a None (snd u)"
        "find_download (d_url r) (x_db (fst t)) = Some (q'\<lparr>d_status := Complete, d_updated_at := e_now (env 3),
          d_cleanup_completed_at := Some (e_now (env 3))\<rparr>)" by (rule staging_removed_Inr)
    with q m a(1) ne show ?thesis by (auto simp: intent_settled_def staged_data)
  qed
qed

lemma linked_settles:
  assumes m: "text_path (d_promotion_target r) = Some p" "text_path (d_staging_path r) = Some a" "promotable g fault r p a (snd s)"
    and li: "sys (link fault a p) s = (Inr v, u)" and fl: "sys (flush fault x) u = (Inr v', w)"
    and rec: "reconciled env g fault r p w = (Inr v2, w')" and rm: "staging_removed env g fault (d_url r) a w' = (Inr v3, t)"
  shows "\<exists>q. intent_settled e r s t q"
proof -
  from promotable_regular [OF m(3)] obtain i where i: "lstat a (snd s) = Some (File i)" by blast
  from li i have u: "lstat p (snd s) = None" "snd u = set_node p (Some (File i)) (snd s)"
    by (auto simp: sys_Inr link_def split: option.splits if_splits)
  from fl have w: "snd w = snd u" using reads_only(4) by (metis sys_Inr)
  from rec obtain q where q: "find_download (d_url r) (x_db (fst w')) = Some q" "d_status q = Complete" "snd w' = snd w"
    "d_sha256 q = d_sha256 r" "d_bytes q = Some (size_of p (snd w))" by (rule reconciled_Inr)
  from rm obtain q' where "find_download (d_url r) (x_db (fst w')) = Some q'" "snd t = set_node a None (snd w')"
      "find_download (d_url r) (x_db (fst t)) = Some (q'\<lparr>d_status := Complete, d_updated_at := e_now (env 3),
        d_cleanup_completed_at := Some (e_now (env 3))\<rparr>)" by (rule staging_removed_Inr)
  moreover have "a \<noteq> p" using i u by auto
  ultimately show ?thesis using q m i u w by (auto simp: intent_settled_def staged_data)
qed

lemma unmatched_settles:
  assumes "reconcile_unmatched env g fault r s = (Inr v, t)"
  shows "\<exists>q. intent_settled (env 0) r s t q"
proof (cases "\<exists>p a. text_path (d_promotion_target r) = Some p \<and> text_path (d_staging_path r) = Some a \<and> promotable g fault r p a (snd s)")
  case False
  with assms show ?thesis
    by (auto simp: reconcile_unmatched_def Let_def andthen_Inr look_Inr inconsistent_promotion_def
        split: option.splits intro: inconsistent_settles)
next
  case True
  then obtain p a where pa: "text_path (d_promotion_target r) = Some p" "text_path (d_staging_path r) = Some a"
    "promotable g fault r p a (snd s)" by blast
  with assms obtain linked u where li: "attempt_os (sys (link fault a p)) s = (Inr linked, u)"
    and rest: "(case linked of
                   Inl x \<Rightarrow> promotion_refused env g (d_url r) ''promotion target could not be recreated'' x
                 | Inr _ \<Rightarrow>
                     andthen (sys (flush fault (butlast p))) (\<lambda>_.
                     andthen (reconciled env g fault r p) (\<lambda>_.
                     staging_removed env g fault (d_url r) a))) u = (Inr v, t)"
    by (auto simp: reconcile_unmatched_def Let_def andthen_Inr look_Inr)
  show ?thesis
  proof (cases linked)
    case (Inl x)
    with li attempt_sys_state have "u = s" by blast
    with rest Inl show ?thesis by (auto intro: refused_settles)
  next
    case (Inr y)
    with li have "sys (link fault a p) s = (Inr y, u)" by (simp add: attempt_os_Inr)
    with rest Inr pa show ?thesis by (auto simp: andthen_Inr intro: linked_settles)
  qed
qed

lemma intent_settles:
  assumes "reconcile_row env g fault r s = (Inr v, t)"
    and "text_path (d_staging_path r) \<noteq> text_path (d_promotion_target r)"
  shows "\<exists>q. intent_settled (env 0) r s t q"
proof -
  let ?found = "attempt_os (sys (target_matches (env 0) g fault (text_path (d_promotion_target r)) (d_sha256 r)))"
  from assms(1) obtain found u where f: "?found s = (Inr found, u)" by (auto simp: reconcile_row_def Let_def andthen_Inr)
  show ?thesis
  proof (cases found)
    case (Inl x)
    with f attempt_sys_state have "u = s" by blast
    with assms(1) f Inl show ?thesis
      by (auto simp: reconcile_row_def Let_def andthen_Inr intro: refused_settles)
  next
    case (Inr b)
    with f have tm: "target_matches (env 0) g fault (text_path (d_promotion_target r)) (d_sha256 r) (snd s) = Inr (b, snd u)" "fst u = fst s"
      by (simp_all add: attempt_os_Inr sys_Inr)
    with target_matches_Inr(1) have u: "u = s" by (metis prod.expand)
    note m = target_matches_Inr(2) [OF tm(1)]
    show ?thesis
    proof (cases b)
      case True
      with m obtain p i where "text_path (d_promotion_target r) = Some p" "lstat p (snd s) = Some (File i)"
          "Some (e_sha (env 0) (f_data (snd s) i)) = d_sha256 r" by blast
      with assms f Inr True u show ?thesis
        by (auto simp: reconcile_row_def Let_def andthen_Inr intro: found_settles)
    next
      case False
      with assms(1) f Inr u show ?thesis
        by (auto simp: reconcile_row_def Let_def andthen_Inr intro: unmatched_settles)
    qed
  qed
qed


subsection \<open>Every intent\<close>

lemma intent_settled_status: "intent_settled e r s t q \<Longrightarrow>
    find_download (d_url r) (x_db (fst t)) = Some q \<and> d_status q \<in> {Complete, ReviewRequired}"
  by (auto simp: intent_settled_def)

lemma each_settles:
  assumes "each (\<lambda>k. reconcile_row (env k) g fault) k rs s = (Inr v, t)"
    and "\<And>r. r \<in> set rs \<Longrightarrow> text_path (d_staging_path r) \<noteq> text_path (d_promotion_target r)"
    and "distinct (map d_url rs)"
  shows "(\<forall>r \<in> set rs. \<exists>q. find_download (d_url r) (x_db (fst t)) = Some q \<and> d_status q \<in> {Complete, ReviewRequired}) \<and>
    (\<forall>u. u \<notin> d_url ` set rs \<longrightarrow> find_download u (x_db (fst t)) = find_download u (x_db (fst s)))"
  using assms
proof (induction rs arbitrary: k s)
  case (Cons r rs)
  then obtain y u where r: "reconcile_row (env k) g fault r s = (Inr y, u)"
    and rs: "each (\<lambda>k. reconcile_row (env k) g fault) (Suc k) rs u = (Inr v, t)" by (auto simp: andthen_Inr)
  have IH: "(\<forall>r \<in> set rs. \<exists>q. find_download (d_url r) (x_db (fst t)) = Some q \<and> d_status q \<in> {Complete, ReviewRequired})"
    "\<And>u'. u' \<notin> d_url ` set rs \<Longrightarrow> find_download u' (x_db (fst t)) = find_download u' (x_db (fst u))"
    using Cons.IH [OF rs] Cons.prems(2,3) by auto
  from intent_settles [OF r] Cons.prems(2) obtain q where
    q: "find_download (d_url r) (x_db (fst u)) = Some q" "d_status q \<in> {Complete, ReviewRequired}"
    by (meson intent_settled_status list.set_intros(1))
  have "others (d_url r) (other_rows s) u"
    by (rule keepsD [OF reconcile_others others_self r])
  then have "find_download v (x_db (fst u)) = find_download v (x_db (fst s))" if "v \<noteq> d_url r" for v
    using that by (simp add: others_def find_rows_at)
  then show ?case using IH q Cons.prems(3) by auto
qed (auto simp: ret_Inr)

text \<open>
  After the startup pass over the promotion intents no row of the database is left in the
  state \<open>promoting\<close>: every row that was is complete or awaits review, and every other row is
  exactly as it was.
\<close>

theorem no_intent_is_left:
  assumes "reconcile_promotions env g fault s = (Inr v, t)" and "wf_db (x_db (fst s))"
    and "\<And>r. r \<in> set (downloads (x_db (fst s))) \<Longrightarrow> d_status r = Promoting \<Longrightarrow>
      text_path (d_staging_path r) \<noteq> text_path (d_promotion_target r)"
    and "find_download u (x_db (fst s)) = Some r"
  shows "\<exists>q. find_download u (x_db (fst t)) = Some q \<and>
    (if d_status r = Promoting then d_status q \<in> {Complete, ReviewRequired} else q = r)"
proof -
  let ?rows = "filter (\<lambda>r. d_status r = Promoting) (downloads (x_db (fst s)))"
  have d: "distinct (map d_url (downloads (x_db (fst s))))" using assms(2) by (simp add: wf_db_def)
  from assms(1) have run: "each (\<lambda>k. reconcile_row (env k) g fault) 0 ?rows s = (Inr v, t)"
    by (auto simp: reconcile_promotions_def read_ctl_def gets_def andthen_def ctl_def)
  note st = each_settles [OF run _ distinct_map_filter [OF d]]
  have r: "r \<in> set (downloads (x_db (fst s)))" "d_url r = u"
    using assms(4) by (auto simp: find_download_def find_Some_iff)
  have same: "q = r" if "q \<in> set (downloads (x_db (fst s)))" "d_url q = u" for q
    using d r that by (meson distinct_map inj_onD)
  show ?thesis
  proof (cases "d_status r = Promoting")
    case True
    with st r assms(3) show ?thesis by auto
  next
    case False
    then have "u \<notin> d_url ` set ?rows" using same by auto
    with st assms(3,4) False show ?thesis by auto
  qed
qed

subsection \<open>Where a crash leaves the file\<close>

definition spares :: "'a fstep \<Rightarrow> bool" where
  "spares m \<longleftrightarrow> (\<forall>s t. m s \<noteq> (Inl Killed, t))"

lemma spares_ctl: "spares (ctl m)"
  by (auto simp: spares_def ctl_def split: prod.splits sum.splits)

lemma spares_sys: "(\<And>f. m f \<noteq> Inl Killed) \<Longrightarrow> spares (sys m)"
  by (auto simp: spares_def sys_def split: sum.splits)

lemma spares_ret: "spares (ret y)" "spares (look q)" "x \<noteq> Killed \<Longrightarrow> spares (raise x)"
  by (simp_all add: spares_def ret_def look_def raise_def)

lemma andthen_Killed:
  "andthen m f s = (Inl Killed, t) \<longleftrightarrow> m s = (Inl Killed, t) \<or> (\<exists>x u. m s = (Inr x, u) \<and> f x u = (Inl Killed, t))"
  by (auto simp: andthen_def split: sum.splits prod.splits)

lemma spares_andthen: "spares m \<Longrightarrow> (\<And>x. spares (f x)) \<Longrightarrow> spares (andthen m f)"
  by (auto simp: spares_def andthen_Killed)

lemma try_Killed:
  "try_except m c h s = (Inl Killed, t) \<longleftrightarrow>
     m s = (Inl Killed, t) \<and> \<not> c Killed \<or> (\<exists>x u. m s = (Inl x, u) \<and> c x \<and> h x u = (Inl Killed, t))"
  by (auto simp: try_except_def split: sum.splits prod.splits)

lemma spares_try:
  assumes "spares m" and "\<And>x. x \<noteq> Killed \<Longrightarrow> spares (h x)"
  shows "spares (try_except m c h)"
  using assms unfolding spares_def try_Killed by (metis sum.inject(1))

lemma spares_option: "spares m \<Longrightarrow> (\<And>y. spares (f y)) \<Longrightarrow> spares (case x of None \<Rightarrow> m | Some y \<Rightarrow> f y)"
  by (cases x) auto

lemma spares_if: "spares m \<Longrightarrow> spares n \<Longrightarrow> spares (if b then m else n)"
  by simp

lemma make_dirs_spares: "make_dirs fault p ns f \<noteq> Inl Killed"
  by (induction fault p ns f rule: make_dirs.induct) (auto simp: mkdir_def split: option.splits sum.splits)

lemma safe_parents_spares: "safe_parents fault p ns f \<noteq> Inl Killed"
  by (induction fault p ns f rule: safe_parents.induct)
     (auto simp: mkdir_def Let_def split: option.splits sum.splits os_error.splits if_splits)

lemma link_candidate_spares: "link_candidate g fault st hs f \<noteq> Inl Killed"
  by (induction hs arbitrary: f) (auto simp: link_def Let_def split: option.splits sum.splits if_splits)

lemma spares_calls:
  "spares (sys (read_bytes fault p))" "spares (sys (stat_size fault p))" "spares (sys (sha256sum e fault p))"
  "spares (sys (flush fault p))" "spares (sys (unlink fault p))" "spares (sys (link fault p p'))"
  "spares (sys (replace fault p p'))" "spares (sys (mkdir_parents fault p))" "spares (sys (ensure_safe_parent g fault p))"
  "spares (sys (link_candidate g fault p hs))" "spares (sys (regular_now fault p))" "spares (sys (\<lambda>f. Inr (x, h f)))"
  by (rule spares_sys;
      auto simp: read_bytes_def stat_size_def sha256sum_def flush_def unlink_def link_def replace_def mkdir_parents_def
        ensure_safe_parent_def regular_now_def make_dirs_spares safe_parents_spares link_candidate_spares
        split: option.splits node.splits if_splits sum.splits os_error.splits)+

lemmas spares_rules = spares_andthen spares_option spares_if spares_try spares_calls spares_ctl spares_ret

lemma spares_steps:
  "spares (tell h)" "spares (announce e sv ct m u kk)" "spares (clear_transfer_telemetry url)" "spares (read_ctl q)"
  "spares (take_slot e g r st)" "spares (record_worker e url pid)" "spares (capture_response w url)"
  "spares (candidate_made e g url st ca hs rs)" "spares (move_candidate g fault hexes st)" "spares (cool_down e g url j)"
  unfolding tell_def announce_def clear_transfer_telemetry_def read_ctl_def take_slot_def record_worker_def
    capture_response_def candidate_made_def move_candidate_def cool_down_def
  by (auto intro!: spares_rules split: option.splits)

lemma spares_transfer_steps:
  "spares (enter_representation_review e g w url staging decision ob)" "spares (protect_resume e g w r staging)"
  "spares (run_aria2 e w url staging)" "spares (failed_transfer env g w r staging k b x)"
  "spares (rejected_candidate env g w r staging b sh dt code)" "spares (try_link fault staging target)"
proof -
  show review: "spares (enter_representation_review e g w url staging decision ob)" for e g w url staging decision ob
    unfolding enter_representation_review_def Let_def by (intro spares_rules spares_steps)
  show "spares (protect_resume e g w r staging)"
    unfolding protect_resume_def Let_def by (auto intro!: spares_rules review split: prod.splits)
  show "spares (run_aria2 e w url staging)"
    unfolding run_aria2_def by (auto intro!: spares_rules spares_steps split: option.splits)
  show "spares (failed_transfer env g w r staging k b x)" "spares (rejected_candidate env g w r staging b sh dt code)"
    unfolding failed_transfer_def rejected_candidate_def reviewed_def Let_def by (intro spares_rules spares_steps)+
  show "spares (try_link fault staging target)"
    unfolding try_link_def by (intro spares_rules)
qed

lemma sparesD: "spares m \<Longrightarrow> (m s = (Inl Killed, t)) = False"
  unfolding spares_def by blast

lemmas not_killed = spares_ctl [THEN sparesD] spares_calls [THEN sparesD] spares_steps [THEN sparesD]
  spares_transfer_steps [THEN sparesD] spares_ret(1,2) [THEN sparesD] spares_ret(3) [THEN sparesD]

lemma failpoint_Killed [simp]: "hit_failpoint g n s = (Inl Killed, t) \<longleftrightarrow> g_failpoint g = Some n \<and> t = s"
  by (auto simp: hit_failpoint_def)

lemma reviewed_Killed: "spares m \<Longrightarrow> (reviewed url m s = (Inl Killed, t)) = False"
  unfolding reviewed_def by (rule sparesD) (intro spares_rules spares_steps)

lemma finish_killed:
  assumes "finish_promotion env g w r staging target k sh sc s = (Inl Killed, t)"
    and "find_download (d_url r) (x_db (fst s)) = Some p"
  shows "snd t = snd s \<and>
    (g_failpoint g = Some ''post_final_file_creation'' \<and> fst t = fst s \<or>
     g_failpoint g = Some ''post_completion_commit'' \<and>
       find_download (d_url r) (x_db (fst t)) = Some (transition_row_update Complete (e_now (env 7))
         (\<lambda>q. q\<lparr>d_bytes := Some (size_of target (snd s)), d_sha256 := Some sh\<rparr>) p))"
proof (cases "g_failpoint g = Some ''post_final_file_creation''")
  case True
  with assms(1) show ?thesis
    by (auto simp: finish_promotion_def Let_def andthen_Killed)
next
  case False
  let ?url = "d_url r"
  from assms(1) False obtain u1 u2 n u3 u4 where
    fl: "sys (flush (w_fault w) (butlast target)) s = (Inr (), u1)"
    and n: "sys (stat_size (w_fault w) target) u1 = (Inr n, u2)"
    and fe: "ctl (finalized_event (env 6) ?url (as_posix (parse_path (d_relative_path r))) (stored_text_of (env 0) g r) n
                 sh (d_expected_sha256 r) sc) u2 = (Inr (), u3)"
    and cl: "clear_transfer_telemetry ?url u3 = (Inr (), u4)"
    and t1: "ctl (transition (env 7) g ?url Complete None (\<lambda>q. q\<lparr>d_bytes := Some n, d_sha256 := Some sh\<rparr>)) u4 = (Inr (), t)"
    and fp: "g_failpoint g = Some ''post_completion_commit''"
    by (auto simp: finish_promotion_def Let_def andthen_Killed not_killed)
  have f1: "snd u1 = snd s" "snd u2 = snd s" "fst u2 = fst s" "n = size_of target (snd s)"
    using fl n by (auto simp: sys_Inr dest!: reads_only(4) stat_size_Inr)
  have f2: "snd u3 = snd s" "snd u4 = snd s" "x_db (fst u4) = x_db (fst s)"
    using fe cl f1 by (auto simp: ctl_Inr dest!: clear_Inr arg_cong [of "finalized_event _ _ _ _ _ _ _ _ _" _ "\<lambda>x. x_db (snd x)"])
  from t1 show ?thesis
    by (rule transition_step) (use f1 f2 assms(2) fp in auto)
qed

lemma intent_killed:
  assumes "promotion_intent env g w r staging target sh s = (Inl Killed, t) \<or> promotion_intent env g w r staging target sh s = (Inr y, t)"
    and "lstat staging (snd s) = Some (File i)"
  obtains q where "find_download (d_url r) (x_db (fst t)) = Some q" and "d_status q = Promoting" and "d_sha256 q = Some sh"
    and "d_bytes q = Some (int (length (f_data (snd s) i)))" and "d_promotion_target q = Some (loc_text target)"
    and "lstat staging (snd t) = Some (File i)" and "f_data (snd t) = f_data (snd s)"
    and "promotion_intent env g w r staging target sh s = (Inl Killed, t) \<Longrightarrow> g_failpoint g = Some ''post_validation_intent''"
proof -
  from assms(1) obtain a b n c where sp: "sys (ensure_safe_parent g (w_fault w) target) s = (Inr (), a)"
    and fl: "sys (flush (w_fault w) staging) a = (Inr (), b)" and n: "sys (stat_size (w_fault w) staging) b = (Inr n, c)"
    and tr: "ctl (transition (env 5) g (d_url r) Promoting None
       (\<lambda>q. q\<lparr>d_sha256 := Some sh, d_bytes := Some n, d_promotion_target := Some (loc_text target),
              d_promotion_intent_at := Some (e_now (env 5))\<rparr>)) c = (Inr (), t)"
    and fp: "promotion_intent env g w r staging target sh s = (Inl Killed, t) \<Longrightarrow> g_failpoint g = Some ''post_validation_intent''"
    by (fastforce simp: promotion_intent_def andthen_Inr andthen_Killed not_killed)
  have "unharmed {} {} (snd s) (snd a)" "f_data (snd a) = f_data (snd s)"
    using sp ensure_safe_parent_unharmed by (auto simp: sys_Inr)
  then have a: "lstat staging (snd a) = Some (File i)" "f_data (snd a) = f_data (snd s)"
    using assms(2) by (auto simp: unharmed_def)
  moreover have "snd c = snd a" "n = size_of staging (snd a)"
    using fl n by (auto simp: sys_Inr dest!: reads_only(4) stat_size_Inr)
  ultimately show ?thesis
    using tr by (elim transition_step) (auto simp: transition_row_update_def staged_data intro!: that fp)
qed

text \<open>What a process that dies while it finishes \<open>r\<close> leaves: the staged file, validated and recorded.\<close>

definition crash_left :: "config \<Rightarrow> download \<Rightarrow> loc \<Rightarrow> loc \<Rightarrow> string \<Rightarrow> nat \<Rightarrow> downloader \<times> fs \<Rightarrow> download \<Rightarrow> bool" where
  "crash_left g r staging target sh i t q \<longleftrightarrow>
     find_download (d_url r) (x_db (fst t)) = Some q \<and> lstat staging (snd t) = Some (File i) \<and>
     d_sha256 q = Some sh \<and> d_bytes q = Some (int (length (f_data (snd t) i))) \<and>
     d_promotion_target q = Some (loc_text target) \<and>
     (case the (g_failpoint g) of
        c \<Rightarrow> if c = ''post_validation_intent'' then d_status q = Promoting
          else lstat target (snd t) = Some (File i) \<and>
            (if c = ''post_final_file_creation'' then d_status q = Promoting else d_status q = Complete))"

lemma promote_killed:
  assumes "promote env g w r staging target k sh sc s = (Inl Killed, t)"
    and i: "lstat staging (snd s) = Some (File i)" and "fair_race w staging"
  shows "(\<exists>q. crash_left g r staging target sh i t q) \<and> f_data (snd t) = f_data (snd s)"
proof -
  let ?url = "d_url r"
  let ?intent = "promotion_intent env g w r staging target sh"
  let ?attempt = "try_except (andthen ?intent (\<lambda>_. ret None)) runtime_or_os (\<lambda>x. ret (Some x))"
  have no_catch: "\<not> runtime_or_os Killed" by (simp add: runtime_or_os_def)
  consider (dies) "?intent s = (Inl Killed, t)"
    | (goes) u v x where "?intent s = (Inr (), u)" "v = (fst u, w_race w (snd u))"
        "try_link (w_fault w) staging target v = (Inr Linked, x)"
        "finish_promotion env g w r staging target k sh sc x = (Inl Killed, t)"
    using assms(1) no_catch
    by (auto simp: promote_def Let_def andthen_Killed try_Killed try_except_Inr andthen_Inr not_killed sys_Inr reviewed_Killed
        spares_andthen spares_calls spares_ctl split: option.splits linked.splits)
       (meson linked.exhaust)
  then show ?thesis
  proof cases
    case dies
    then show ?thesis
      by (rule intent_killed [OF disjI1 i]) (auto simp: crash_left_def dies)
  next
    case goes
    show ?thesis
    proof (rule intent_killed [OF disjI2 [OF goes(1)] i])
      fix q
      assume q: "find_download ?url (x_db (fst u)) = Some q" "d_status q = Promoting" "d_sha256 q = Some sh"
        "d_bytes q = Some (int (length (f_data (snd s) i)))" "d_promotion_target q = Some (loc_text target)"
        "lstat staging (snd u) = Some (File i)" "f_data (snd u) = f_data (snd s)"
      from q goes(2) assms(3) have v: "lstat staging (snd v) = Some (File i)" "f_data (snd v) = f_data (snd s)" "fst v = fst u"
        by (auto simp: fair_race_def)
      from goes(3) have "link (w_fault w) staging target (snd v) = Inr ((), snd x)" "fst x = fst v"
        by (auto simp: try_link_def try_except_Inr andthen_Inr sys_Inr split: if_splits)
      with v have "snd x = set_node target (Some (File i)) (snd v)" "lstat target (snd v) = None"
        by (auto simp: link_def split: option.splits if_splits)
      with v have x: "lstat target (snd x) = Some (File i)" "lstat staging (snd x) = Some (File i)" "f_data (snd x) = f_data (snd s)"
        by auto
      have row: "find_download ?url (x_db (fst x)) = Some q" using q v \<open>fst x = fst v\<close> by simp
      from finish_killed [OF goes(4) row] q x row show ?thesis
        by (auto simp: crash_left_def transition_row_update_def staged_data)
    qed
  qed
qed

lemma validate_killed:
  assumes "validate env g w r staging target k b s = (Inl Killed, t)" and "fair_race w staging"
  shows "\<exists>q i. crash_left g r staging target (e_sha (env 3) (f_data (snd t) i)) i t q"
proof -
  let ?url = "d_url r"
  let ?hash = "try_except (sys (sha256sum (env 3) (w_fault w) staging)) (\<lambda>_. True)
          (\<lambda>x. andthen (clear_transfer_telemetry ?url) (\<lambda>_. raise x))"
  have hash: "?hash a \<noteq> (Inl Killed, c)" "?hash a = (Inr sh, c) \<longleftrightarrow> sys (sha256sum (env 3) (w_fault w) staging) a = (Inr sh, c)" for a sh c
    by (auto simp: try_Killed try_except_Inr andthen_Inr andthen_Killed not_killed raise_def sys_def sha256sum_def read_bytes_def
        split: sum.splits option.splits node.splits)
  from assms(1) obtain u1 u2 sh u3 u4 sc n u5 u6 where
    reg: "sys (regular_now (w_fault w) staging) s = (Inr True, u1)"
    and te: "tell (\<lambda>p. tp_set_validation ?url 0 (size_of staging (snd u1))
          (tp_set_active (e_mono (env 3)) ?url k (d_attempts r + 1) ''hashing'' None p)) u1 = (Inr (), u2)"
    and sh: "sys (sha256sum (env 3) (w_fault w) staging) u2 = (Inr sh, u3)"
    and cl: "tell (tp_clear_validation ?url) u3 = (Inr (), u4)"
    and si: "sys (stat_size (w_fault w) staging) u4 = (Inr n, u5)"
    and at: "ctl (attempt_event (env 3) g ?url (d_attempts r + 1) b ''success'') u5 = (Inr (), u6)"
    and pr: "promote env g w r staging target k sh sc u6 = (Inl Killed, t)"
    by (auto simp: validate_def Let_def andthen_Killed look_Inr read_ctl_def ctl_Inr gets_def hash not_killed reviewed_Killed
        spares_andthen spares_ctl split: if_splits)
  have same: "snd u1 = snd s" "snd u2 = snd s" "snd u3 = snd s" "snd u4 = snd s" "snd u5 = snd s" "snd u6 = snd s"
  proof -
    show "snd u1 = snd s" using reg regular_now_reads by (metis sys_Inr)
    then show "snd u2 = snd s" using te by (simp add: tell_Inr)
    then show "snd u3 = snd s" using sh reads_only(3) by (metis sys_Inr)
    then show "snd u4 = snd s" using cl by (simp add: tell_Inr)
    then show "snd u5 = snd s" using si reads_only(2) by (metis sys_Inr)
    then show "snd u6 = snd s" using at by (simp add: ctl_Inr)
  qed
  from reg obtain i where i: "lstat staging (snd s) = Some (File i)"
    by (auto simp: sys_Inr regular_now_def is_regular_def split: option.splits os_error.splits node.splits)
  have "sh = e_sha (env 3) (f_data (snd s) i)"
    using sh i same by (auto simp: sys_Inr sha256sum_def read_bytes_def split: option.splits sum.splits)
  with promote_killed [OF pr _ assms(2), of i] i same show ?thesis by auto
qed

lemma crash_leaves:
  assumes "transfer env g w r s = (Inl Killed, t)" and "fair_race w (staging_of (env 0) g r)"
  shows "\<exists>q i. crash_left g r (staging_of (env 0) g r) (target_of (env 0) g r) (e_sha (env 3) (f_data (snd t) i)) i t q"
proof -
  let ?run = "try_except (run_aria2 (env 2) w (d_url r) (staging_of (env 0) g r)) (\<lambda>_. True)
              (\<lambda>x. andthen (clear_transfer_telemetry (d_url r)) (\<lambda>_. raise x))"
  have run: "?run a \<noteq> (Inl Killed, c)" for a c
    using spares_transfer_steps(3) [of "env 2" w "d_url r" "staging_of (env 0) g r"] unfolding spares_def
    by (auto simp: try_Killed andthen_Killed not_killed raise_def)
  from assms(1) obtain k u where
    "validate env g w r (staging_of (env 0) g r) (target_of (env 0) g r) k (e_utc (env 2)) u = (Inl Killed, t)"
    by (auto simp: transfer_def Let_def andthen_Killed look_Inr not_killed run split: if_splits option.splits prod.splits)
  then show ?thesis using assms(2) by (rule validate_killed)
qed

text \<open>
  The process may die at any of its failpoints while it finishes a transfer; the validated
  file survives.  The staging file is still there, its digest and size are recorded in the row,
  whose state is \<open>promoting\<close> with the final name as its target, or \<open>complete\<close> once the final name
  leads to the same file.
\<close>

theorem crash_keeps_the_file:
  assumes "transfer env g w r s = (Inl Killed, t)" and "fair_race w (staging_of (env 0) g r)"
  shows "\<exists>q i. crash_left g r (staging_of (env 0) g r) (target_of (env 0) g r) (e_sha (env 3) (f_data (snd t) i)) i t q"
  using assms by (rule crash_leaves)


subsection \<open>A crash and a restart\<close>

definition example_crash_row :: download where
  "example_crash_row = new_download ''u10'' ''files/u10'' (Some ''files/u10'') (Some ''/s/incoming/u1/0'') None None ''t0''"

definition example_crash_state :: downloader where
  "example_crash_state = init_downloader\<lparr>x_db := empty_db\<lparr>downloads := [example_crash_row],
     run_items := [\<lparr>ri_run = ''r'', ri_url = ''u10'', ri_rank = 0\<rparr>]\<rparr>\<rparr>"

definition example_staging_world :: world where
  "example_staging_world = example_world\<lparr>w_engine := example_engine\<lparr>en_files := (\<lambda>f. f\<lparr>
     f_node := (f_node f)([''s'', ''incoming'', ''u1'', ''0''] \<mapsto> File 9), f_data := (f_data f)(9 := ''hello'')\<rparr>)\<rparr>\<rparr>"

definition example_failpoint :: config where
  "example_failpoint = example_config\<lparr>g_failpoint := Some ''post_final_file_creation''\<rparr>"

definition example_crash :: "(failure + string) \<times> downloader \<times> fs" where
  "example_crash = transfer (\<lambda>_. example_env) example_failpoint example_staging_world example_crash_row (example_crash_state, example_fs)"

definition example_left :: download where
  "example_left = the (find_download ''u10'' (x_db (fst (snd example_crash))))"

definition example_restart :: "(failure + unit) \<times> downloader \<times> fs" where
  "example_restart = reconcile_row (\<lambda>_. example_env) example_config no_fault example_left
     (init_downloader\<lparr>x_db := x_db (fst (snd example_crash))\<rparr>, snd (snd example_crash))"

lemma example_crash_dies: "fst example_crash = Inl Killed"
  by code_simp

lemma example_crash_run:
  "transfer (\<lambda>_. example_env) example_failpoint example_staging_world example_crash_row (example_crash_state, example_fs) =
     (Inl Killed, snd example_crash)"
  using example_crash_dies unfolding example_crash_def by (metis prod.collapse)

lemma example_places:
  "staging_of example_env example_failpoint example_crash_row = [''s'', ''incoming'', ''u1'', ''0'']"
  "target_of example_env example_failpoint example_crash_row = [''d'', ''files'', ''u10'']"
  "d_url example_crash_row = ''u10''"
  by code_simp+

lemma example_fair: "fair_race example_staging_world p"
  by (simp add: fair_race_def example_staging_world_def example_world_def)

lemma example_left_paths:
  "text_path (d_staging_path example_left) = Some [''s'', ''incoming'', ''u1'', ''0'']"
  "text_path (d_promotion_target example_left) = Some [''d'', ''files'', ''u10'']"
  "d_url example_left = ''u10''" "d_status example_left = Promoting"
  by code_simp+

lemma example_restart_ends: "fst example_restart = Inr ()"
  by code_simp

lemma example_restart_row: "map_option d_status (find_download ''u10'' (x_db (fst (snd example_restart)))) = Some Complete"
  by code_simp

lemma example_restart_run:
  "reconcile_row (\<lambda>_. example_env) example_config no_fault example_left
     (init_downloader\<lparr>x_db := x_db (fst (snd example_crash))\<rparr>, snd (snd example_crash)) = (Inr (), snd example_restart)"
  using example_restart_ends unfolding example_restart_def by (metis prod.collapse)

theorem crash_keeps_the_file_witness:
  "\<exists>q i. find_download ''u10'' (x_db (fst (snd example_crash))) = Some q \<and> d_status q = Promoting \<and>
     lstat [''s'', ''incoming'', ''u1'', ''0''] (snd (snd example_crash)) = Some (File i) \<and>
     lstat [''d'', ''files'', ''u10''] (snd (snd example_crash)) = Some (File i)"
  using crash_keeps_the_file [OF example_crash_run example_fair]
  unfolding example_places crash_left_def by (auto simp: example_failpoint_def)



definition example_intent_state :: "downloader \<times> fs" where
  "example_intent_state = (init_downloader\<lparr>x_db := x_db (fst (snd example_crash))\<rparr>, snd (snd example_crash))"

theorem no_intent_is_left_witness:
  "\<exists>t q. reconcile_promotions (\<lambda>_ _. example_env) example_config no_fault example_intent_state = (Inr (), t) \<and>
     find_download ''u10'' (x_db (fst t)) = Some q \<and> d_status q \<in> {Complete, ReviewRequired}"
proof -
  let ?r = "reconcile_promotions (\<lambda>_ _. example_env) example_config no_fault example_intent_state"
  have "fst ?r = Inr ()" by code_simp
  then have run: "?r = (Inr (), snd ?r)" by (metis prod.collapse)
  have one: "downloads (x_db (fst example_intent_state)) = [example_left]" by code_simp
  have wf: "wf_db (x_db (fst example_intent_state))" by code_simp
  have left: "find_download ''u10'' (x_db (fst example_intent_state)) = Some example_left"
    using one example_left_paths(3) by (simp add: find_download_def)
  from no_intent_is_left [OF run wf _ left] one example_left_paths
  have "\<exists>q. find_download ''u10'' (x_db (fst (snd ?r))) = Some q \<and> d_status q \<in> {Complete, ReviewRequired}" by auto
  with run show ?thesis by blast
qed

subsection \<open>What the other passes touch\<close>

definition below :: "loc \<Rightarrow> loc \<Rightarrow> bool" where
  "below base p \<longleftrightarrow> (\<exists>ns. ns \<noteq> [] \<and> p = base @ ns)"

lemma safe_staging_below: "is_safe_staging_path g p f \<Longrightarrow> below (incoming g) p"
  unfolding is_safe_staging_path_def relative_to_def below_def
  by (auto split: if_splits intro!: exI [of _ "drop (length (incoming g)) p"]) (metis append_take_drop_id)

lemma keeps_since_unlink: "p \<in> A \<Longrightarrow> keeps (since A D f0) (sys (unlink fault p))"
  by (intro keeps_since_sys unlink_unharmed)

lemma cleanup_since: "keeps (since {p. below (incoming g) p} {} f0) (cleanup_row env g fault r)"
proof -
  let ?p = "staging_of (env 0) g r"
  show ?thesis
  proof (cases "below (incoming g) ?p")
    case True
    then show ?thesis
      unfolding cleanup_row_def Let_def
      by (auto intro!: pres keeps_since_unlink split: option.splits node.splits os_error.splits)
  next
    case False
    then have "\<not> is_safe_staging_path g ?p f" for f using safe_staging_below by blast
    then have "andthen (look (is_safe_staging_path g ?p)) h = h False" for h :: "bool \<Rightarrow> unit fstep"
      by (intro ext) (simp add: andthen_def look_def)
    then show ?thesis
      unfolding cleanup_row_def Let_def by (auto intro!: pres)
  qed
qed

lemma keeps_each: "(\<And>k x. keeps I (h k x)) \<Longrightarrow> keeps I (each h k xs)"
  by (induction xs arbitrary: k) (auto intro: pres)



definition example_damaged :: "downloader \<times> fs" where
  "example_damaged = (let f = snd (snd example_crash) in
     (init_downloader\<lparr>x_db := x_db (fst (snd example_crash))\<rparr>,
      f\<lparr>f_node := (f_node f)([''d'', ''files'', ''u10''] := None), f_data := (f_data f)(9 := ''damaged'')\<rparr>))"

text \<open>
  A promotion that is repaired at a start is not validated again.  Here the staging file was
  damaged after the crash, before the final name existed; the start links it all the same and
  records the old digest and the state \<open>complete\<close> for bytes that do not have it.
\<close>

theorem damaged_staging_is_promoted:
  "case reconcile_row (\<lambda>_. example_env) example_config no_fault example_left example_damaged of (res, s, f) \<Rightarrow>
     res = Inr () \<and> content [''d'', ''files'', ''u10''] f = Some ''damaged'' \<and>
     map_option (\<lambda>q. (d_status q, d_sha256 q)) (find_download ''u10'' (x_db s)) = Some (Complete, Some ''hello'') \<and>
     e_sha example_env ''damaged'' \<noteq> ''hello''"
  by code_simp

subsection \<open>Remediation\<close>

lemma remediation_since: "keeps (since {staging_path (env 0) g (d_url r)} {} f0) (remediate_row env g fault r)"
proof -
  have ctl: "keeps (since A D f0) (remediation_checks e g fault r p)" for A D e p
    unfolding remediation_checks_def require_def
    by (auto intro!: pres keeps_since_sys split: option.splits sum.splits if_splits)
  show ?thesis
    unfolding remediate_row_def remediation_promote_def remediation_complete_def remediation_failed_def Let_def
    by (auto intro!: pres ctl keeps_since_unlink split: sum.splits prod.splits failure.splits os_error.splits)
qed

lemma require_Inr [simp]: "require b m s = (Inr v, t) \<longleftrightarrow> b \<and> t = s"
  by (auto simp: require_def)

lemma remediation_checks_Inr:
  assumes "remediation_checks e g fault r a s = (Inr (stored, target), t)"
  shows "\<exists>i. lstat a (snd s) = Some (File i) \<and> d_sha256 r = Some (e_sha e (f_data (snd s) i)) \<and>
    safe_remediation_target e g (d_relative_path r) = Inr (stored, target) \<and> unharmed {} {} (snd s) (snd t)"
proof -
  from assms obtain regular u sha256 v where
    reg: "(case fault SysLstat a of Some x \<Rightarrow> Inl (Os x)
        | None \<Rightarrow> if lstat a (snd s) = None then Inl (Os ENOENT) else Inr (is_regular a (snd s), snd s)) = Inr (regular, snd u)" "regular"
    and sh: "sha256sum e fault a (snd u) = Inr (sha256, snd v)" "Some sha256 = d_sha256 r"
    and st: "safe_remediation_target e g (d_relative_path r) = Inr (stored, target)"
    and sp: "ensure_safe_parent g fault target (snd v) = Inr ((), snd t)"
    by (auto simp: remediation_checks_def andthen_Inr sys_Inr split: sum.splits dest!: reads_only(4))
  from reg have u: "snd u = snd s" "is_regular a (snd s)" by (auto split: option.splits if_splits)
  then obtain i where i: "lstat a (snd s) = Some (File i)" by (auto simp: is_regular_def split: option.splits node.splits)
  from sh u i have "snd v = snd s" "sha256 = e_sha e (f_data (snd s) i)"
    by (auto simp: sha256sum_def read_bytes_def split: option.splits sum.splits)
  with i sh st ensure_safe_parent_unharmed [OF sp] show ?thesis by auto
qed

text \<open>
  Safe-path remediation finishes only verified files and overwrites nothing.  When it reports a
  row as resolved, the bytes that had been staged have the recorded digest, and they are now the
  regular file at the mapped destination, where nothing was before; the row is complete with that
  digest and the staging name is gone.  Every other name leads where it did.
\<close>

theorem remediated_is_verified:
  assumes "remediate_row env g fault r s = (Inr True, t)"
  shows "\<exists>stored target i q. safe_remediation_target (env 0) g (d_relative_path r) = Inr (stored, target) \<and>
    lstat target (snd s) = None \<and> lstat target (snd t) = Some (File i) \<and> f_data (snd t) = f_data (snd s) \<and>
    lstat (staging_path (env 0) g (d_url r)) (snd s) = Some (File i) \<and>
    lstat (staging_path (env 0) g (d_url r)) (snd t) = None \<and>
    find_download (d_url r) (x_db (fst t)) = Some q \<and> d_status q = Complete \<and> d_cleanup_completed_at q \<noteq> None \<and>
    d_sha256 r = Some (e_sha (env 0) (f_data (snd t) i)) \<and>
    (\<forall>p x. p \<noteq> staging_path (env 0) g (d_url r) \<longrightarrow> lstat p (snd s) = Some x \<longrightarrow> lstat p (snd t) = Some x)"
proof -
  let ?url = "d_url r" and ?a = "staging_path (env 0) g (d_url r)"
  have sn: "since {?a} {} (snd s) t"
    by (rule keepsD [OF remediation_since _ assms]) (simp add: since_def)
  have failed: "remediation_failed env g url er oc m h z \<noteq> (Inr True, t)" for url er oc m h z
    by (simp add: remediation_failed_def andthen_Inr)
  from assms obtain stored target u1 where ch: "remediation_checks (env 0) g fault r ?a s = (Inr (stored, target), u1)"
    and pr: "remediation_promote env g fault r ?a stored target u1 = (Inr True, t)"
    by (auto simp: remediate_row_def Let_def andthen_Inr try_except_Inr failed split: sum.splits)
       (metis obj_sumE surj_pair)
  from pr obtain u2 u3 where u2: "snd u2 = snd u1" and li: "link fault ?a target (snd u2) = Inr ((), snd u3)"
    and co: "remediation_complete env g fault r ?a stored target u3 = (Inr True, t)"
    by (auto simp: remediation_promote_def Let_def andthen_Inr attempt_os_Inr sys_Inr ctl_Inr failed
        dest!: reads_only(4) split: sum.split_asm if_split_asm)
       (metis obj_sumE unit.exhaust)
  from co obtain u4 n u5 u6 u7 where u4: "snd u4 = snd u3"
    and tr: "ctl (transition (env 3) g ?url Complete (Some ''automatic safe-path remediation complete'')
                (\<lambda>q. q\<lparr>d_bytes := Some n, d_sha256 := d_sha256 r, d_remediation_outcome := Some ''complete'',
                   d_remediation_completed_at := Some (e_now (env 3))\<rparr>)) u4 = (Inr (), u5)"
    and ul: "unlink fault ?a (snd u5) = Inr ((), snd u6)" "fst u6 = fst u5"
    and cl: "ctl (transition (env 4) g ?url Complete (Some ''staging cleanup complete'')
                (\<lambda>q. q\<lparr>d_cleanup_completed_at := Some (e_now (env 4))\<rparr>)) u6 = (Inr (), u7)"
    and ev: "ctl (remediation_event (env 4) ''info'' ''safe-path remediation complete'' ?url) u7 = (Inr (), t)"
    by (auto simp: remediation_complete_def Let_def andthen_Inr sys_Inr ctl_Inr dest!: stat_size_Inr)
  from remediation_checks_Inr [OF ch] obtain i where i: "lstat ?a (snd s) = Some (File i)"
      "d_sha256 r = Some (e_sha (env 0) (f_data (snd s) i))"
      "safe_remediation_target (env 0) g (d_relative_path r) = Inr (stored, target)" and un: "unharmed {} {} (snd s) (snd u1)" by blast
  from un i have a: "lstat ?a (snd u1) = Some (File i)" by (auto simp: unharmed_def)
  from li a u2 have l: "lstat target (snd u1) = None" "snd u3 = set_node target (Some (File i)) (snd u1)"
    by (auto simp: link_def split: option.splits if_splits)
  with un have free: "lstat target (snd s) = None" by (metis unharmed_def empty_iff)
  have ne: "target \<noteq> ?a" using l a by auto
  have t: "snd t = set_node ?a None (snd u3)"
    using tr ul cl ev u4 by (auto simp: ctl_Inr dest!: unlink_Inr)
  have db: "x_db (fst t) = x_db (fst u7)"
    using ev by (cases t) (auto simp: ctl_Inr remediation_event_def split: option.splits)
  obtain q where q: "find_download ?url (x_db (fst t)) = Some q" "d_status q = Complete" "d_cleanup_completed_at q \<noteq> None"
    by (rule transition_step [OF cl]) (auto simp: transition_row_update_def db)
  have data: "f_data (snd t) = f_data (snd s)" using sn by (auto simp: since_def unharmed_def)
  have stay: "\<forall>p x. p \<noteq> ?a \<longrightarrow> lstat p (snd s) = Some x \<longrightarrow> lstat p (snd t) = Some x"
    using sn by (auto simp: since_def unharmed_def)
  show ?thesis
    by (intro exI [of _ stored] exI [of _ target] exI [of _ i] exI [of _ q] conjI)
       (use i free t l ne q data stay in simp_all)
qed

definition example_long_row :: download where
  "example_long_row = example_crash_row\<lparr>d_status := ReviewRequired, d_sha256 := Some ''hello'', d_review_code := Some ''ENAMETOOLONG''\<rparr>"

definition example_remediation :: "(failure + bool) \<times> downloader \<times> fs" where
  "example_remediation = remediate_row (\<lambda>_. example_env) example_config no_fault example_long_row
     (example_crash_state\<lparr>x_db := (x_db example_crash_state)\<lparr>downloads := [example_long_row]\<rparr>\<rparr>,
      example_fs\<lparr>f_node := (f_node example_fs)([''s'', ''incoming'', ''u1'', ''0''] \<mapsto> File 9), f_data := (\<lambda>_. ''hello'')\<rparr>)"

theorem remediated_is_verified_witness:
  "\<exists>i q. lstat [''d'', ''files'', ''u10''] (snd (snd example_remediation)) = Some (File i) \<and>
     find_download ''u10'' (x_db (fst (snd example_remediation))) = Some q \<and> d_status q = Complete \<and>
     d_sha256 example_long_row = Some (f_data (snd (snd example_remediation)) i)"
proof -
  have "fst example_remediation = Inr True" by code_simp
  then have run: "remediate_row (\<lambda>_. example_env) example_config no_fault example_long_row
     (example_crash_state\<lparr>x_db := (x_db example_crash_state)\<lparr>downloads := [example_long_row]\<rparr>\<rparr>,
      example_fs\<lparr>f_node := (f_node example_fs)([''s'', ''incoming'', ''u1'', ''0''] \<mapsto> File 9), f_data := (\<lambda>_. ''hello'')\<rparr>) =
      (Inr True, snd example_remediation)"
    unfolding example_remediation_def by (metis prod.collapse)
  have "safe_remediation_target example_env example_config (d_relative_path example_long_row) =
      Inr (\<lparr>pp_absolute = False, pp_names = [''files'', ''u10'']\<rparr>, [''d'', ''files'', ''u10''])"
    and "d_url example_long_row = ''u10''" by code_simp+
  moreover have "e_sha example_env x = x" for x by (simp add: example_env_def)
  ultimately show ?thesis using remediated_is_verified [OF run] by auto
qed

subsection \<open>A writer that survived its controller\<close>

text \<open>An entry of the manifest's list of workers, as \<open>record_worker\<close> writes it.\<close>

record worker_entry =
  we_url :: string
  we_pid :: int
  we_ticks :: "int option"

text \<open>\<open>int(text)\<close> of a word of ASCII: a sign, and digits that single underscores may group.\<close>

definition py_int :: "string \<Rightarrow> int option" where
  "py_int t =
     (let negative = (t \<noteq> [] \<and> hd t = CHR ''-'');
          body = (if t \<noteq> [] \<and> (hd t = CHR ''-'' \<or> hd t = CHR ''+'') then tl t else t);
          groups = split_on CHR ''_'' body
      in if list_all is_decimal groups
         then Some ((if negative then -1 else 1) * int (parse_nat (concat groups))) else None)"

definition process_start_ticks :: "string option \<Rightarrow> int option" where
  "process_start_ticks stat_text =
     (case stat_text of
        None \<Rightarrow> None
      | Some t \<Rightarrow>
          let fs = split_ws (last (split_on CHR '')'' t)) in
          if 19 < length fs then py_int (fs ! 19) else None)"

text \<open>\<open>ticks pid\<close> is what \<open>process_start_ticks(pid)\<close> gives now; no manifest is \<open>None\<close>.\<close>

definition surviving_writer_pid :: "worker_entry list option \<Rightarrow> (int \<Rightarrow> int option) \<Rightarrow> string \<Rightarrow> int option" where
  "surviving_writer_pid manifest ticks url =
     (case find (\<lambda>x. we_url x = url) (rev (case manifest of None \<Rightarrow> [] | Some ws \<Rightarrow> ws)) of
        None \<Rightarrow> None
      | Some x \<Rightarrow>
          if we_pid x \<noteq> 0 \<and> we_ticks x \<noteq> None \<and> ticks (we_pid x) = we_ticks x then Some (we_pid x) else None)"

datatype signal = SIGTERM | SIGKILL

text \<open>
  The signals \<open>terminate_surviving_writer\<close> sends: \<open>started\<close> is the start time it reads first,
  \<open>there\<close> and \<open>still_there\<close> are whether \<open>os.kill\<close> finds the process, and \<open>polls\<close> the start
  times it reads until the ten seconds are over.
\<close>

definition terminate_surviving_writer :: "int option \<Rightarrow> int option \<Rightarrow> bool \<Rightarrow> bool \<Rightarrow> int option list \<Rightarrow> (int \<times> signal) list" where
  "terminate_surviving_writer pid started there still_there polls =
     (case pid of
        None \<Rightarrow> []
      | Some p \<Rightarrow>
          if \<not> there then []
          else if list_ex (\<lambda>t. t \<noteq> started) polls then [(p, SIGTERM)]
          else if still_there then [(p, SIGTERM), (p, SIGKILL)] else [(p, SIGTERM)])"

text \<open>
  A start signals no process but the writer that the manifest recorded last for the item, with
  the start time it had then, and kills it only if that start time was read at every poll.
\<close>

theorem only_the_recorded_writer_is_signalled:
  assumes "(p, sig) \<in> set (terminate_surviving_writer (surviving_writer_pid manifest ticks url) started there still_there polls)"
  shows "\<exists>ws k. manifest = Some ws \<and> k < length ws \<and> we_url (ws ! k) = url \<and> we_pid (ws ! k) = p \<and>
    ticks p = we_ticks (ws ! k) \<and> ticks p \<noteq> None \<and> (\<forall>j. k < j \<longrightarrow> j < length ws \<longrightarrow> we_url (ws ! j) \<noteq> url) \<and>
    (sig = SIGKILL \<longrightarrow> (\<forall>t \<in> set polls. t = started))"
proof -
  from assms have pid: "surviving_writer_pid manifest ticks url = Some p" and kill: "sig = SIGKILL \<longrightarrow> (\<forall>t \<in> set polls. t = started)"
    by (auto simp: terminate_surviving_writer_def list_ex_iff split: option.splits if_splits)
  from pid obtain x ws where ws: "manifest = Some ws" "find (\<lambda>x. we_url x = url) (rev ws) = Some x" "we_pid x = p"
    "ticks p = we_ticks x" "ticks p \<noteq> None"
    by (auto simp: surviving_writer_pid_def split: option.splits if_splits)
  from ws(2) obtain i where i: "i < length ws" "rev ws ! i = x" "we_url x = url" "\<And>j. j < i \<Longrightarrow> we_url (rev ws ! j) \<noteq> url"
    by (auto simp: find_Some_iff)
  let ?k = "length ws - Suc i"
  have k: "ws ! ?k = x" "?k < length ws" using i by (auto simp: rev_nth)
  have "we_url (ws ! j) \<noteq> url" if "?k < j" "j < length ws" for j
  proof -
    have "length ws - Suc j < i" using that i(1) by auto
    from i(4) [OF this] that show ?thesis by (simp add: rev_nth Suc_diff_Suc)
  qed
  with ws k i kill show ?thesis by blast
qed

theorem only_the_recorded_writer_is_signalled_witness:
  "terminate_surviving_writer (surviving_writer_pid (Some [\<lparr>we_url = ''u1'', we_pid = 7, we_ticks = Some 5\<rparr>]) (\<lambda>_. Some 5) ''u1'')
     (Some 5) True True [Some 5] = [(7, SIGTERM), (7, SIGKILL)] \<and>
   (\<exists>ws k. Some [\<lparr>we_url = ''u1'', we_pid = 7, we_ticks = Some (5::int)\<rparr>] = Some ws \<and> k < length ws \<and> we_pid (ws ! k) = 7)"
proof -
  have run: "terminate_surviving_writer (surviving_writer_pid (Some [\<lparr>we_url = ''u1'', we_pid = 7, we_ticks = Some 5\<rparr>]) (\<lambda>_. Some 5) ''u1'')
     (Some 5) True True [Some 5] = [(7, SIGTERM), (7, SIGKILL)]"
    by (simp add: terminate_surviving_writer_def surviving_writer_pid_def)
  then have "(7, SIGKILL) \<in> set (terminate_surviving_writer (surviving_writer_pid (Some [\<lparr>we_url = ''u1'', we_pid = 7, we_ticks = Some 5\<rparr>]) (\<lambda>_. Some 5) ''u1'')
     (Some 5) True True [Some 5])" by simp
  from only_the_recorded_writer_is_signalled [OF this] run show ?thesis by blast
qed

end
