(* ===== verification/Runner.thy ===== *)
theory Runner
  imports Recovery
begin

text \<open>
  The supervisor (\<open>src/tod-dl.py\<close>): the manifest that binds a run to its inputs, the start
  (\<open>run\<close> up to the hydrated projection), the admission loop and the main loop of \<open>run\<close>, the
  closing of a run, and the argument checks of \<open>main\<close>.

  A job is a call that was submitted to the pool.  The jobs that one \<open>concurrent.futures.wait\<close>
  finds done, with their results, are an input of a turn of the main loop.
\<close>

subsection \<open>Arguments\<close>

record args =
  a_queue :: "string list"
  a_workers :: int
  a_max_files :: int
  a_run_id :: "string option"
  a_max_attempts :: int
  a_newnym_interval :: int
  a_connect_timeout :: int
  a_timeout :: int
  a_progress_interval :: int
  a_socks_backoff :: int
  a_stagger :: rat
  a_time_limit :: rat
  a_reserve :: int

text \<open>\<open>char.isalnum() or char in "-_"\<close> on ASCII.\<close>

definition run_id_char :: "char \<Rightarrow> bool" where
  "run_id_char c = (is_lower c \<or> is_upper c \<or> is_digit c \<or> c = CHR ''-'' \<or> c = CHR ''_'')"

text \<open>The error \<open>main\<close> reports; \<open>None\<close> when it goes on to build the controller.\<close>

definition check_args :: "args \<Rightarrow> string option" where
  "check_args a =
     (let settings = [a_workers a, a_connect_timeout a, a_timeout a, a_progress_interval a, a_socks_backoff a] in
      if a_queue a = [] then Some ''--queue is required unless --status is used''
      else if list_ex (\<lambda>n. n < 0) (settings @ [a_newnym_interval a])
      then Some ''Tor circuit renewal interval must not be negative''
      else if list_ex (\<lambda>n. n < 1) settings then Some ''numeric settings must be positive''
      else if 4 < a_workers a then Some ''workers must not exceed four''
      else if a_stagger a < 0 \<or> a_time_limit a < 0 then Some ''worker-stagger and time-limit must not be negative''
      else if a_max_files a < 0 \<or> a_max_attempts a < 0 \<or> a_reserve a < 0
      then Some ''max-files, max-attempts, and reserve-bytes must not be negative''
      else if \<not> list_all run_id_char (case a_run_id a of None \<Rightarrow> [] | Some t \<Rightarrow> t)
      then Some ''run-id may contain only letters, digits, hyphens, and underscores''
      else None)"

subsection \<open>The manifest\<close>

text \<open>A queue file and its digest, in the order of the arguments.\<close>

type_synonym queue_input = "string \<times> string"

record manifest =
  mf_run_id :: string
  mf_started_at :: string
  mf_queue_inputs :: "queue_input list"
  mf_max_files :: nat
  mf_workers :: "worker_entry list"
  mf_resumed_at :: "string option"
  mf_finished_at :: "string option"

definition bind_manifest :: "env \<Rightarrow> config \<Rightarrow> queue_input list \<Rightarrow> manifest option \<Rightarrow> failure + manifest" where
  "bind_manifest e g inputs previous =
     (case previous of
        Some m \<Rightarrow>
          if mf_queue_inputs m \<noteq> inputs
          then Inl (Raised (OtherRuntime ''run ID is bound to different queue inputs''))
          else if mf_max_files m \<noteq> g_max_files g
          then Inl (Raised (OtherRuntime ''run ID is bound to different selection settings''))
          else Inr (m\<lparr>mf_resumed_at := Some (e_now e)\<rparr>)
      | None \<Rightarrow>
          Inr \<lparr>mf_run_id = g_run g, mf_started_at = e_now e, mf_queue_inputs = inputs,
               mf_max_files = g_max_files g, mf_workers = [], mf_resumed_at = None, mf_finished_at = None\<rparr>)"

text \<open>\<open>record_worker\<close> notes each engine process; the start ticks are read when it is noted.\<close>

definition note_worker :: "string \<Rightarrow> int \<Rightarrow> int option \<Rightarrow> manifest \<Rightarrow> manifest" where
  "note_worker url pid ticks m = m\<lparr>mf_workers := mf_workers m @ [\<lparr>we_url = url, we_pid = pid, we_ticks = ticks\<rparr>]\<rparr>"

subsection \<open>The start\<close>

text \<open>The digests and settings as the provenance record and the summary show them.\<close>

definition inputs_json :: "queue_input list \<Rightarrow> json" where
  "inputs_json inputs = JArr (map (\<lambda>(p, h). JObj [(''path'', JStr p), (''sha256'', JStr h)]) inputs)"

definition selection_json :: "config \<Rightarrow> json" where
  "selection_json g = JObj [(''max_files'', JInt (int (g_max_files g)))]"

text \<open>
  \<open>run\<close> from the imported queue to the hydrated projection.  \<open>env n k j\<close> holds the readings of
  pass \<open>n\<close>; \<open>session\<close> is the identifier the new provenance writer has drawn, \<open>monitored\<close> that of
  the telemetry publisher, which takes over the events that had to wait for it.  A writer process that survived
  its controller has been signalled before its row is queued again.
\<close>

definition start_passes :: "(nat \<Rightarrow> nat \<Rightarrow> nat \<Rightarrow> env) \<Rightarrow> config \<Rightarrow> fault \<Rightarrow> queue_input list \<Rightarrow> queue_entry list \<Rightarrow> unit fstep" where
  "start_passes env g fault inputs qs =
     andthen (reconcile_promotions (env 1) g fault) (\<lambda>_.
     andthen (scope_run (env 2 0) g fault qs) (\<lambda>chosen.
     andthen (ctl (modify (\<lambda>s. s\<lparr>x_selected_count := int (fst chosen)\<rparr>))) (\<lambda>_.
     andthen (ctl (provenance_event (env 3 0 0) ''run_started''
       [(''queue_input_digests'', inputs_json inputs), (''selection_settings'', selection_json g),
        (''selected_item_count'', JInt (int (fst chosen)))])) (\<lambda>_.
     andthen (cleanup_completed_staging (env 4) g fault) (\<lambda>_.
     andthen (remediate_safe_paths (env 5) g fault) (\<lambda>_.
     andthen (on_db (requeue_interrupted_transfers (env 6 0 0) g)) (\<lambda>_.
     if g_retry_now g then on_db (reset_retry_now g) else ret ())))))))"

definition start_publishing :: "env \<Rightarrow> config \<Rightarrow> string \<Rightarrow> unit fstep" where
  "start_publishing e g monitored =
     ctl (modify (\<lambda>s. s\<lparr>
       x_projection := Some (hydrate (e_sha e) (g_run g) (g_max_attempts g) (x_db s)),
       x_deadline := (if g_time_limit g \<noteq> 0 then Some (e_mono e + g_time_limit g) else None),
       x_telemetry := Some (tp_set_lifecycle (e_now e) ''running'' None
         (fold (\<lambda>(severity, message, url). tp_event (e_now e) severity ''safe_path'' message (Some url) None)
            (x_pending_events s) (init_publisher monitored))),
       x_pending_events := []\<rparr>))"

definition start_run :: "(nat \<Rightarrow> nat \<Rightarrow> nat \<Rightarrow> env) \<Rightarrow> config \<Rightarrow> fault \<Rightarrow> string \<Rightarrow> string \<Rightarrow> queue_input list \<Rightarrow> queue_entry list \<Rightarrow> unit fstep" where
  "start_run env g fault session monitored inputs qs =
     andthen (ctl (modify (\<lambda>s. s\<lparr>x_db := open_db (x_db s)\<rparr>))) (\<lambda>_.
     andthen (look (\<lambda>f. f)) (\<lambda>f.
     andthen (on_db (\<lambda>d. snd (import_queues (env 0 0 0) g f qs d))) (\<lambda>_.
     andthen (ctl (modify (\<lambda>s. s\<lparr>x_provenance := Some (new_writer (g_run g) session)\<rparr>))) (\<lambda>_.
     andthen (start_passes env g fault inputs qs) (\<lambda>_.
     start_publishing (env 7 0 0) g monitored)))))"

subsection \<open>Admission\<close>

datatype job = Transfer download | Recheck download

definition job_url :: "job \<Rightarrow> string" where
  "job_url j = (case j of Transfer r \<Rightarrow> d_url r | Recheck r \<Rightarrow> d_url r)"

definition stop_admission :: "env \<Rightarrow> string \<Rightarrow> unit fstep" where
  "stop_admission e reason = ctl (modify (\<lambda>s. set_lifecycle e ''stopping'' (Some reason) (s\<lparr>x_stop := True\<rparr>)))"

definition past_deadline :: "env \<Rightarrow> downloader \<Rightarrow> bool" where
  "past_deadline e s = (case x_deadline s of None \<Rightarrow> False | Some t \<Rightarrow> t \<le> e_mono e)"

definition closed_to_admission :: "downloader \<Rightarrow> bool" where
  "closed_to_admission s = (x_stop s \<or> x_drain s \<or> x_paused s)"

text \<open>One turn of the admission loop while a worker is free; \<open>None\<close> leaves the loop.\<close>

definition admit_one :: "env \<Rightarrow> config \<Rightarrow> int \<Rightarrow> job option fstep" where
  "admit_one e g free =
     andthen (read_ctl closed_to_admission) (\<lambda>closed. if closed then ret None else
     andthen (read_ctl (past_deadline e)) (\<lambda>late.
     if late then andthen (stop_admission e ''run time limit reached'') (\<lambda>_. ret None) else
     andthen (read_ctl (has_storage_reserve g free)) (\<lambda>room.
     if \<not> room then andthen (stop_admission e ''free-space reserve reached'') (\<lambda>_. ret None) else
     andthen (read_ctl (\<lambda>s. next_pending e g (x_db s))) (\<lambda>row.
     case row of
       Some r \<Rightarrow>
         andthen (ctl (transition e g (d_url r) Admitted (Some ''transfer admitted'') (\<lambda>q. q))) (\<lambda>_.
         ret (Some (Transfer r)))
     | None \<Rightarrow>
         andthen (read_ctl (\<lambda>s. next_recheck e g (x_db s))) (\<lambda>due.
         case due of
           None \<Rightarrow> ret None
         | Some r \<Rightarrow> andthen (on_db (claim_recheck e (d_url r))) (\<lambda>_. ret (Some (Recheck r))))))))"

text \<open>The loop ends because every turn but the last takes a worker.\<close>

function admit :: "(nat \<Rightarrow> env) \<Rightarrow> config \<Rightarrow> (nat \<Rightarrow> int) \<Rightarrow> nat \<Rightarrow> job list \<Rightarrow> job list fstep" where
  "admit env g free k jobs =
     (if g_workers g \<le> length jobs then ret jobs
      else andthen (admit_one (env k) g (free k)) (\<lambda>picked.
        case picked of None \<Rightarrow> ret jobs | Some j \<Rightarrow> admit env g free (Suc k) (jobs @ [j])))"
  by pat_completeness auto
termination
  by (relation "measure (\<lambda>(env, g, free, k, jobs). g_workers g - length jobs)") auto

declare admit.simps [simp del]

subsection \<open>The main loop\<close>

datatype idle = Finish | Sleep rat | StopNow

text \<open>What the loop does when no job is left.\<close>

definition idle_turn :: "env \<Rightarrow> config \<Rightarrow> downloader \<Rightarrow> idle" where
  "idle_turn e g s =
     (if x_stop s \<or> x_drain s then Finish
      else case retry_wait e g (x_db s) of
        None \<Rightarrow> Finish
      | Some wait \<Rightarrow>
          let sleep_for = min wait 60;
              sleep_for = (case x_deadline s of None \<Rightarrow> sleep_for | Some t \<Rightarrow> min sleep_for (max 0 (t - e_mono e)))
          in if sleep_for \<le> 0 then StopNow else Sleep sleep_for)"

type_synonym outcome_counts = "(string \<times> nat) list"

definition count_outcome :: "string \<Rightarrow> outcome_counts \<Rightarrow> outcome_counts" where
  "count_outcome k c = AList.update k ((case map_of c k of None \<Rightarrow> 0 | Some n \<Rightarrow> n) + 1) c"

text \<open>\<open>for future in done: status = future.result()\<close>; the first job that raised ends the run.\<close>

fun collect :: "(job \<times> (failure + string)) list \<Rightarrow> outcome_counts \<Rightarrow> failure + outcome_counts" where
  "collect [] c = Inr c"
| "collect ((j, Inl x) # ds) c = Inl x"
| "collect ((j, Inr k) # ds) c = collect ds (count_outcome k c)"

datatype turn = Again "job list" outcome_counts | Ended outcome_counts

text \<open>
  A turn of the main loop: \<open>finished jobs\<close> are the jobs of \<open>jobs\<close> that the wait finds done.
  \<open>e\<close> holds the readings after the admission loop.
\<close>

definition main_turn :: "(nat \<Rightarrow> env) \<Rightarrow> env \<Rightarrow> config \<Rightarrow> (nat \<Rightarrow> int) \<Rightarrow> (job list \<Rightarrow> (job \<times> (failure + string)) list) \<Rightarrow>
    job list \<Rightarrow> outcome_counts \<Rightarrow> turn fstep" where
  "main_turn env e g free finished jobs c =
     andthen (admit env g free 0 jobs) (\<lambda>jobs.
     if jobs \<noteq> []
     then
       andthen (ctl (\<lambda>s. let (t, s) = admission_wait_timeout e s in (Inr t, s))) (\<lambda>_.
       let ds = finished jobs in
       andthen (read_ctl (past_deadline e)) (\<lambda>late.
       if ds = [] \<and> late
       then andthen (ctl (modify (\<lambda>s. s\<lparr>x_stop := True\<rparr>))) (\<lambda>_. ret (Again jobs c))
       else case collect ds c of
         Inl x \<Rightarrow> raise x
       | Inr c \<Rightarrow> ret (Again (filter (\<lambda>j. j \<notin> set (map fst ds)) jobs) c)))
     else
       andthen (read_ctl (idle_turn e g)) (\<lambda>what.
       case what of
         Finish \<Rightarrow> ret (Ended c)
       | StopNow \<Rightarrow> andthen (ctl (modify (\<lambda>s. s\<lparr>x_stop := True\<rparr>))) (\<lambda>_. ret (Again [] c))
       | Sleep t \<Rightarrow> andthen (ctl (modify (\<lambda>s. s\<lparr>x_wake := False\<rparr>))) (\<lambda>_. ret (Again [] c))))"

subsection \<open>The end of a run\<close>

definition resolved :: "status \<Rightarrow> bool" where
  "resolved st = (st \<in> {Complete, Existing})"

definition unresolved :: "config \<Rightarrow> db \<Rightarrow> nat" where
  "unresolved g d = length (filter (\<lambda>r. \<not> resolved (d_status r)) (run_rows (g_run g) d))"

definition durable_outcomes :: "config \<Rightarrow> db \<Rightarrow> outcome_counts" where
  "durable_outcomes g d = fold (\<lambda>r. count_outcome (status_text (d_status r))) (run_rows (g_run g) d) []"

definition close_reason :: "config \<Rightarrow> downloader \<Rightarrow> string" where
  "close_reason g s =
     (if x_local_failure s \<notin> {None, Some []} then ''local_failure''
      else if x_sigterm s \<or> x_sigint s then ''interrupted''
      else if x_deadline s \<noteq> None \<and> x_stop s then ''time_limit''
      else if unresolved g (x_db s) = 0 then ''finished'' else ''stopped'')"

definition exit_code :: "config \<Rightarrow> downloader \<Rightarrow> int" where
  "exit_code g s =
     (if x_sigterm s then 143 else if x_sigint s then 130 else if unresolved g (x_db s) \<noteq> 0 then 1 else 0)"

definition close_lifecycle :: "config \<Rightarrow> downloader \<Rightarrow> string \<times> string option" where
  "close_lifecycle g s =
     (if unresolved g (x_db s) = 0 then (''finished'', None) else (''stopped'', Some ''unresolved items remain''))"

definition handle_sigterm :: "downloader \<Rightarrow> downloader" where
  "handle_sigterm s = s\<lparr>x_sigterm := True, x_stop := True, x_wake := True\<rparr>"

definition handle_sigint :: "downloader \<Rightarrow> downloader" where
  "handle_sigint s = s\<lparr>x_sigint := True, x_stop := True, x_wake := True\<rparr>"

subsection \<open>A transfer leaves the other rows alone\<close>

abbreviation rows_of :: "downloader \<Rightarrow> download list" where "rows_of s \<equiv> downloads (x_db s)"

lemma others_ctl: "(\<And>s. rows_of (snd (m s)) = rows_of s) \<Longrightarrow> keeps (others u R) (ctl m)"
  by (rule keeps_ctl) (simp add: others_def rows_at_def)

lemma others_modify: "(\<And>s. rows_of (h s) = rows_of s) \<Longrightarrow> keeps (others u R) (ctl (modify h))"
  by (rule others_ctl) (simp add: modify_def)

lemma rows_frames [simp]:
  "rows_of (snd (provenance_event e ty kw d)) = rows_of d"
  "rows_of (record_local_failure e c dt d) = rows_of d"
  "rows_of (snd (candidate_event e url a b cs rs d)) = rows_of d"
  "rows_of (snd (record_attempt_start e g url k b' d)) = rows_of d"
  "rows_of (snd (attempt_event e g url k b' oc d)) = rows_of d"
  "rows_of (snd (request_newnym e g q sid d)) = rows_of d"
  "rows_of (snd (poll_loop e url rpc ps gid d)) = rows_of d"
proof -
  show p: "rows_of (snd (provenance_event e ty kw d)) = rows_of d" for e ty kw d
    by (auto simp: provenance_event_def split: option.splits prod.splits sum.splits writer_error.splits)
  show l: "rows_of (record_local_failure e c dt d) = rows_of d" for e c dt d
    by (simp add: record_local_failure_def p)
  show "rows_of (snd (candidate_event e url a b cs rs d)) = rows_of d"
    by (simp add: candidate_event_def Let_def p)
  show "rows_of (snd (record_attempt_start e g url k b' d)) = rows_of d"
    by (simp add: record_attempt_start_def modify_def start_attempt_def)
  have "provenance_event e ty kw d = (y, u) \<Longrightarrow> rows_of u = rows_of d" for ty kw y u
    using p [of e ty kw d] by simp
  then show "rows_of (snd (attempt_event e g url k b' oc d)) = rows_of d"
    by (auto simp: attempt_event_def andthen_def modify_def end_attempt_def Let_def split: sum.splits prod.splits)
  show "rows_of (snd (request_newnym e g q sid d)) = rows_of d"
    by (auto simp: request_newnym_def add_renewal_def update_renewal_def Let_def split: option.splits)
  show "rows_of (snd (poll_loop e url rpc ps gid d)) = rows_of d" for ps
    by (induction ps arbitrary: rpc gid d) (auto simp: Let_def split: option.splits prod.splits list.splits)
qed

lemma keeps_others_ctl [pres]:
  "keeps (others u R) (ctl (candidate_event e url a b cs rs))" "keeps (others u R) (ctl (attempt_event e g url k b' oc))"
  "keeps (others u R) (ctl (record_attempt_start e g url k b'))" "keeps (others u R) (ctl (modify (record_local_failure e c' dt)))"
  "keeps (others u R) (tell pf)" "keeps (others u R) (announce e sv ct m u' kk)" "keeps (others u R) (clear_transfer_telemetry url)"
  "keeps (others u R) (take_slot e g r st)" "keeps (others u R) (record_worker e url pid)" "keeps (others u R) (capture_response w url)"
  "keeps (others u R) (move_candidate g fault hexes st)" "keeps (others u R) (try_link fault st target)"
  unfolding tell_def announce_def clear_transfer_telemetry_def take_slot_def record_worker_def capture_response_def
    move_candidate_def try_link_def
  by (auto intro!: pres others_ctl simp: modify_def Let_def split: option.splits)

lemma keeps_others_small [pres]:
  "keeps (others u R) (candidate_made e g u' st ca hs rs)" "keeps (others u R) (cool_down e g u' j)"
  "keeps (others u R) (run_aria2 e w u' st)" "keeps (others (d_url r) R) (promotion_intent env g w r st target sh)"
proof -
  show "keeps (others u R) (candidate_made e g u' st ca hs rs)"
    unfolding candidate_made_def by (auto intro!: pres split: option.splits)
  have "keeps (others u R) (ctl (\<lambda>s. let s = s\<lparr>x_cooldown_until := max (x_cooldown_until s) (e_time e + g_socks_backoff g)\<rparr>;
           sid = (case x_telemetry s of None \<Rightarrow> ''automatic'' | Some p \<Rightarrow> tp_session p);
           (renewal, s) = request_newnym e g (e_uuid e) sid s
       in (Inr (fst renewal = ''completed''), s)))"
    by (intro others_ctl) (simp add: Let_def split_beta)
  then show "keeps (others u R) (cool_down e g u' j)" unfolding cool_down_def by (intro pres)
  have "keeps (others u R) (ctl (\<lambda>s. let (r, s) = poll_loop e u' (w_rpc w) (en_polls (w_engine w)) False s in (Inr r, s)))"
    by (rule others_ctl) (simp add: split_beta)
  then show "keeps (others u R) (run_aria2 e w u' st)" unfolding run_aria2_def by (auto intro!: pres split: option.splits)
  show "keeps (others (d_url r) R) (promotion_intent env g w r st target sh)"
    unfolding promotion_intent_def by (auto intro!: pres)
qed

lemma keeps_others_review [pres]:
  "keeps (others u R) (enter_representation_review e g w u staging decision ob)"
  "keeps (others u R) m \<Longrightarrow> keeps (others u R) (reviewed u m)"
  unfolding enter_representation_review_def reviewed_def Let_def by (auto intro!: pres simp: set_review_def)

lemma keeps_others_stages [pres]:
  "keeps (others (d_url r) R) (failed_transfer env g w r staging k b x)"
  "keeps (others (d_url r) R) (rejected_candidate env g w r staging b sh dt code)"
  "keeps (others (d_url r) R) (finish_promotion env g w r staging target k sh sc)"
  unfolding failed_transfer_def rejected_candidate_def finish_promotion_def Let_def
  by (auto intro!: pres others_modify simp: set_review_def)

lemma keeps_others_validate [pres]: "keeps (others (d_url r) R) (validate env g w r staging target k b)"
proof -
  have "keeps (others (d_url r) R) (promote env g w r staging target k sh sc)" for sh sc
    unfolding promote_def Let_def by (auto intro!: pres simp: set_review_def split: option.splits linked.splits)
  then show ?thesis
    unfolding validate_def Let_def by (auto intro!: pres)
qed

lemma protect_columns: "protect_resume e g w r staging s = (Inr v, t) \<Longrightarrow> \<forall>c. v = Some c \<longrightarrow> (\<forall>q. d_url (c q) = d_url q)"
  by (auto simp: protect_resume_def Let_def andthen_Inr look_Inr ctl_Inr split: if_splits prod.splits option.splits)

lemma keeps_others_protect: "keeps (others (d_url r) R) (protect_resume e g w r staging)"
  unfolding protect_resume_def Let_def by (auto intro!: pres others_modify split: prod.splits)

lemma transfer_others: "keeps (others (d_url r) R) (transfer env g w r)"
  unfolding transfer_def Let_def
  by (intro pres keeps_andthen_post [OF keeps_others_protect protect_columns] others_modify;
      auto intro!: pres others_modify simp: wait_for_start_slot_def split: option.splits)

lemma recheck_others: "keeps (others (d_url r) R) (recheck_unavailable e g w r)"
  unfolding recheck_unavailable_def Let_def by (auto intro!: pres split: option.splits)

subsection \<open>A run as a sequence of steps\<close>

text \<open>
  Jobs and controller requests interleave; a job takes effect in one step.  A recheck is claimed
  for a day and its request ends much earlier, so no second recheck of the item is claimed before.
\<close>

type_synonym supervisor = "(downloader \<times> fs) \<times> job list"

definition rechecked_urls :: "job list \<Rightarrow> string list" where
  "rechecked_urls jobs = concat (map (\<lambda>j. case j of Recheck r \<Rightarrow> [d_url r] | Transfer r \<Rightarrow> []) jobs)"

definition claim_expired :: "job \<Rightarrow> job list \<Rightarrow> bool" where
  "claim_expired j jobs = (case j of Recheck r \<Rightarrow> d_url r \<notin> set (rechecked_urls jobs) | Transfer r \<Rightarrow> True)"

inductive run_step :: "config \<Rightarrow> supervisor \<Rightarrow> supervisor \<Rightarrow> bool" for g where
  admits: "length jobs < g_workers g \<Longrightarrow> admit_one e g free s = (Inr (Some j), t) \<Longrightarrow> claim_expired j jobs \<Longrightarrow>
    run_step g (s, jobs) (t, jobs @ [j])"
| admits_none: "admit_one e g free s = (Inr None, t) \<Longrightarrow> run_step g (s, jobs) (t, jobs)"
| transfers: "Transfer r \<in> set jobs \<Longrightarrow> transfer env g w r s = (res, t) \<Longrightarrow>
    run_step g (s, jobs) (t, remove1 (Transfer r) jobs)"
| rechecks: "Recheck r \<in> set jobs \<Longrightarrow> recheck_unavailable e g w r s = (res, t) \<Longrightarrow>
    run_step g (s, jobs) (t, remove1 (Recheck r) jobs)"
| serves: "control_action e g rq (fst s) = (res, u) \<Longrightarrow> run_step g (s, jobs) ((u, snd s), jobs)"
| terminated: "run_step g (s, jobs) ((handle_sigterm (fst s), snd s), jobs)"
| interrupted: "run_step g (s, jobs) ((handle_sigint (fst s), snd s), jobs)"

inductive reachable :: "config \<Rightarrow> supervisor \<Rightarrow> supervisor \<Rightarrow> bool" for g s0 where
  start: "reachable g s0 s0"
| more_steps: "reachable g s0 s \<Longrightarrow> run_step g s t \<Longrightarrow> reachable g s0 t"

text \<open>The states in which the rows of an item are while a job holds it.\<close>

definition rows_in :: "status set \<Rightarrow> string \<Rightarrow> db \<Rightarrow> bool" where
  "rows_in A u d = (\<forall>r \<in> set (rows_at u d). d_status r \<in> A)"

definition holding :: "job \<Rightarrow> status set" where
  "holding j = (case j of Transfer r \<Rightarrow> {Admitted, Excluded} | Recheck r \<Rightarrow> {Unavailable, Excluded})"

definition held :: "supervisor \<Rightarrow> bool" where
  "held x = (distinct (map job_url (snd x)) \<and> distinct (map d_url (downloads (x_db (fst (fst x))))) \<and> (\<forall>j \<in> set (snd x). rows_in (holding j) (job_url j) (x_db (fst (fst x)))))"

lemma rows_in_same: "rows_at u d = rows_at u d' \<Longrightarrow> rows_in A u d = rows_in A u d'"
  by (simp add: rows_in_def)

lemma rows_in_item_action:
  assumes "rows_in A u (x_db s)" and "spec_ok sp"
    and sp: "\<And>q r t. is_eligible sp q \<Longrightarrow> d_status q \<in> A \<Longrightarrow> d_status r \<in> A \<Longrightarrow> d_status (touch e sp r) \<in> A"
  shows "rows_in A u (x_db (snd (item_action e g sp q sid ids s)))"
proof (cases "find_control q (x_db s)")
  case (Some c)
  with assms(1) show ?thesis by (simp add: item_action_replay)
next
  case None
  have ch: "is_eligible sp c \<and> c \<in> set (downloads (x_db s))" if "c \<in> set (item_changes e g sp ids s)" for c
  proof -
    from that obtain i where "chosen e sp (run_rows (g_run g) (x_db s)) i = Some c"
      by (auto simp: item_changes_def mem_map_filter)
    then have "by_id e (run_rows (g_run g) (x_db s)) i = Some c" "is_eligible sp c"
      by (auto simp: chosen_def split: option.splits if_splits)
    moreover from this(1) have "c \<in> set (run_rows (g_run g) (x_db s))"
      by (auto simp: by_id_def dest!: map_of_SomeD)
    ultimately show ?thesis by (auto simp: run_rows_def)
  qed
  have "d_status r' \<in> A" if r: "r \<in> set (downloads (x_db s))" "d_url r = u"
    and r': "r' = (if d_url r \<in> d_url ` set (item_changes e g sp ids s) then touch e sp r else r)" for r r'
  proof (cases "d_url r \<in> d_url ` set (item_changes e g sp ids s)")
    case True
    then obtain c where c: "c \<in> set (item_changes e g sp ids s)" "d_url c = u" using r by auto
    then have "is_eligible sp c" "d_status c \<in> A" using ch assms(1) by (auto simp: rows_in_def rows_at_def)
    with sp r assms(1) True r' show ?thesis by (auto simp: rows_in_def rows_at_def)
  next
    case False
    with r r' assms(1) show ?thesis by (auto simp: rows_in_def rows_at_def)
  qed
  then show ?thesis
    unfolding rows_in_def rows_at_def item_action_state(1) [OF None] using touch_facts(1) [OF assms(2)]
    by (auto split: if_splits)
qed

lemma rows_in_control:
  assumes "rows_in A u (x_db s)" and "Excluded \<in> A" and "ReviewRequired \<notin> A"
  shows "rows_in A u (x_db (snd (control_action e g rq s)))"
proof -
  have it: "rows_in A u (x_db (snd (item_action e g exclude_spec q i ids s)))"
    "rows_in A u (x_db (snd (item_action e g new_generation_spec q i ids s)))"
    "rows_in A u (x_db (snd (item_action e g access_denied_spec q i ids s)))"
    "rows_in A u (x_db (snd (item_action e g (priority_spec n) q i ids s)))"
    "rows_in A u (x_db (snd (item_action e g (cooldown_spec n a) q i ids s)))" for q i ids n a
    by (intro rows_in_item_action assms(1) specs_ok;
        use assms(2,3) in \<open>auto simp: touch_def exclude_spec_def new_generation_spec_def access_denied_spec_def
          priority_spec_def cooldown_spec_def\<close>)+
  have rt: "rows_in A u (x_db (snd (retry_now_action e g q i ids s)))" for q i ids
    using assms(1) by (auto simp: retry_now_action_def Let_def rows_in_def rows_at_def control_transition_def
        update_urls_def split: option.split)
  have ad: "rows_in A u (x_db (snd (admission_action e g a dec aft rq s)))"
    if "\<And>s x t. dec s = (x, t) \<Longrightarrow> x_db t = x_db s \<and> x_projection t = x_projection s" "\<And>r s. x_db (aft r s) = x_db s" for a dec aft
    using that assms(1) by (auto simp: admission_action_def Let_def rows_in_def rows_at_def split: option.split prod.split)
  have rn: "rows_in A u (x_db (snd (control_renew_tor_circuits e g rq s)))"
    using assms(1) by (auto simp: control_renew_tor_circuits_def Let_def rows_in_def rows_at_def dest: request_newnym_db
        split: option.split prod.split)
  have "rows_in A u (x_db (snd (f rq s)))" if "map_of (handlers e g) a = Some f" for a f
    using that it rt rn assms(1)
    by (auto simp: handlers_def control_retry_now_def control_exclude_item_def control_resume_new_generation_def
        control_retry_access_denied_def control_set_item_priority_def control_set_retry_cooldown_def
        well_formed_def with_item_ids_def control_pause_admission_def control_resume_admission_def
        control_drain_and_stop_def control_checkpoint_stop_def split: if_splits option.splits
        intro!: ad dest: decide_frames)
  with assms(1) show ?thesis by (auto simp: control_action_def split: json.splits option.splits)
qed

lemma find_ranked:
  assumes "find P (map snd (ranked_rows rid d)) = Some r"
  shows "P r \<and> r \<in> set (run_rows rid d) \<and> r \<in> set (downloads d)"
proof -
  from assms obtain i where "i < length (map snd (ranked_rows rid d))" "P r" "r = map snd (ranked_rows rid d) ! i"
    unfolding find_Some_iff by blast
  then have "P r" "r \<in> set (map snd (ranked_rows rid d))" using nth_mem by blast+
  then show ?thesis unfolding set_ranked_rows by (auto simp: run_rows_def)
qed

lemma next_pending_Some:
  "next_pending e g d = Some r \<Longrightarrow> r \<in> set (downloads d) \<and> retryable (d_status r) \<and> candidate_row g d r"
  using find_ranked unfolding next_pending_def candidate_row_def by blast

lemma next_recheck_Some: "next_recheck e g d = Some r \<Longrightarrow> r \<in> set (downloads d) \<and> d_status r = Unavailable"
  using find_ranked unfolding next_recheck_def recheck_due_def by blast

lemma transition_rows_in:
  assumes "transition e g u st dt h s = (Inr v, t)" and "\<And>q. d_url (h q) = d_url q \<and> d_status (h q) = d_status q"
  shows "rows_in {st} u (x_db t)"
proof -
  obtain old where old: "find_download u (x_db s) = Some old"
    using assms(1) by (auto simp: transition_def split: option.splits)
  obtain n d where d: "transition_db (g_run g) (e_now e) u st dt h old (x_db s) = (n, d)"
    by (cases "transition_db (g_run g) (e_now e) u st dt h old (x_db s)")
  have t: "x_db t = d"
    using assms(1) by (auto simp: transition_def old d apply_projection_change_def split: commit.splits option.splits)
  have "downloads (snd (transition_db (g_run g) (e_now e) u st dt h old (x_db s))) =
      map (\<lambda>q. if d_url q = u then transition_row_update st (e_now e) h q else q) (rows_of s)"
    by (simp add: transition_db_def update_where_def)
  then have rows: "rows_of t = map (\<lambda>q. if d_url q = u then transition_row_update st (e_now e) h q else q) (rows_of s)"
    by (simp add: d t)
  have "d_status (transition_row_update st (e_now e) h q) = st" for q
    using assms(2) by (simp add: transition_row_update_def)
  then show ?thesis
    unfolding rows_in_def rows_at_def rows by auto
qed

lemma admit_one_job:
  assumes "admit_one e g free s = (Inr picked, t)"
    and wf: "distinct (map d_url (downloads (x_db (fst s))))"
  shows "map d_url (downloads (x_db (fst t))) = map d_url (downloads (x_db (fst s))) \<and>
    (picked = None \<longrightarrow> downloads (x_db (fst t)) = downloads (x_db (fst s))) \<and>
    (\<forall>j. picked = Some j \<longrightarrow> (\<forall>v. v \<noteq> job_url j \<longrightarrow> rows_at v (x_db (fst t)) = rows_at v (x_db (fst s))) \<and>
      rows_in (holding j) (job_url j) (x_db (fst t)) \<and>
      (\<forall>r. j = Transfer r \<longrightarrow> next_pending e g (x_db (fst s)) = Some r) \<and>
      (\<forall>r. j = Recheck r \<longrightarrow> next_recheck e g (x_db (fst s)) = Some r))"
proof (cases picked)
  case None
  with assms(1) show ?thesis
    by (auto simp: admit_one_def andthen_Inr read_ctl_def ctl_Inr gets_def stop_admission_def set_lifecycle_def modify_def
        split: if_splits option.splits)
next
  case (Some j)
  with assms(1) consider (t) r where "next_pending e g (x_db (fst s)) = Some r" "j = Transfer r"
      "transition e g (d_url r) Admitted (Some ''transfer admitted'') (\<lambda>q. q) (fst s) = (Inr (), fst t)"
    | (r) r where "next_recheck e g (x_db (fst s)) = Some r" "j = Recheck r" "x_db (fst t) = claim_recheck e (d_url r) (x_db (fst s))"
    by (auto simp: admit_one_def andthen_Inr read_ctl_def ctl_Inr gets_def on_db_def modify_def
        split: if_splits option.splits)
  then show ?thesis
  proof cases
    case t
    have "rows_at v (x_db (fst t)) = rows_at v (x_db (fst s))" if "v \<noteq> d_url r" for v
      using transition_others [of "\<lambda>q. q" v "d_url r" e g Admitted] that t(3) by (metis snd_conv)
    moreover have "rows_in {Admitted} (d_url r) (x_db (fst t))" by (rule transition_rows_in [OF t(3)]) simp
    moreover have "map d_url (downloads (x_db (fst t))) = map d_url (downloads (x_db (fst s)))"
      using transition_urls [of "\<lambda>q. q" e g "d_url r" Admitted] t(3) by (metis snd_conv)
    ultimately show ?thesis using t Some by (auto simp: job_url_def holding_def rows_in_def)
  next
    case r
    have un: "d_status q = Unavailable" if "q \<in> set (downloads (x_db (fst s)))" "d_url q = d_url r" for q
      using next_recheck_Some [OF r(1)] that wf by (metis distinct_map inj_onD)
    have "map d_url (downloads (x_db (fst t))) = map d_url (downloads (x_db (fst s)))"
      by (simp add: r(3) claim_recheck_def update_where_def comp_def cong: if_cong)
    moreover have "rows_at v (x_db (fst t)) = rows_at v (x_db (fst s))" if "v \<noteq> d_url r" for v
      unfolding r(3) claim_recheck_def using that by (intro rows_at_other) simp_all
    moreover have "rows_in {Unavailable} (d_url r) (x_db (fst t))"
      using un by (auto simp: r(3) claim_recheck_def update_where_def rows_in_def rows_at_def)
    ultimately show ?thesis using r Some by (auto simp: job_url_def holding_def rows_in_def)
  qed
qed

lemma held_finished:
  assumes "held (s, jobs)" and "j \<in> set jobs" and "others (job_url j) (other_rows s) t"
  shows "held (t, remove1 j jobs)"
proof -
  have d: "distinct (map job_url jobs)" "distinct jobs" using assms(1) by (auto simp: held_def distinct_map)
  have urls: "map d_url (downloads (x_db (fst t))) = map d_url (downloads (x_db (fst s)))"
    using assms(3) by (simp add: others_def)
  have "rows_in (holding i) (job_url i) (x_db (fst t))" if i: "i \<in> set (remove1 j jobs)" for i
  proof -
    have "i \<in> set jobs" "i \<noteq> j" using i d(2) by simp_all
    then have "job_url i \<noteq> job_url j" using d(1) assms(2) by (meson distinct_map inj_onD)
    then have "rows_at (job_url i) (x_db (fst t)) = rows_at (job_url i) (x_db (fst s))"
      using assms(3) by (simp add: others_def)
    moreover have "rows_in (holding i) (job_url i) (x_db (fst s))" using assms(1) \<open>i \<in> set jobs\<close> by (simp add: held_def)
    ultimately show ?thesis using rows_in_same by blast
  qed
  moreover have "distinct (map job_url (remove1 j jobs))"
    using d by (meson distinct_map distinct_remove1 inj_on_subset set_remove1_subset)
  ultimately show ?thesis using urls assms(1) by (auto simp: held_def)
qed

lemma control_urls: "map d_url (rows_of (snd (control_action e g rq s))) = map d_url (rows_of s)"
proof -
  have it: "map d_url (rows_of (snd (item_action e g sp q i ids s))) = map d_url (rows_of s)" if "spec_ok sp" for sp q i ids s
  proof (cases "find_control q (x_db s)")
    case None
    then show ?thesis by (simp add: item_action_state(1) touch_facts(1) [OF that] comp_def if_distrib cong: if_cong)
  qed (simp add: item_action_replay)
  have rt: "map d_url (rows_of (snd (retry_now_action e g q i ids s))) = map d_url (rows_of s)" for q i ids s
    by (auto simp: retry_now_action_def Let_def control_transition_def update_urls_def split: option.split)
  have ad: "rows_of (snd (admission_action e g a dec aft rq s)) = rows_of s"
    if "\<And>s x t. dec s = (x, t) \<Longrightarrow> x_db t = x_db s \<and> x_projection t = x_projection s" "\<And>r s. x_db (aft r s) = x_db s" for a dec aft
    using that by (auto simp: admission_action_def Let_def split: option.split prod.split)
  have rn: "rows_of (snd (control_renew_tor_circuits e g rq s)) = rows_of s"
    by (auto simp: control_renew_tor_circuits_def Let_def dest: request_newnym_db split: option.split prod.split)
  have adm: "rows_of (snd (control_pause_admission e g rq s)) = rows_of s" "rows_of (snd (control_resume_admission e g rq s)) = rows_of s"
    "rows_of (snd (control_drain_and_stop e g rq s)) = rows_of s" "rows_of (snd (control_checkpoint_stop e g rq s)) = rows_of s"
    unfolding control_pause_admission_def control_resume_admission_def control_drain_and_stop_def control_checkpoint_stop_def
    by (rule ad; (rule decide_frames; assumption | simp))+
  have "map d_url (rows_of (snd (f rq s))) = map d_url (rows_of s)" if "map_of (handlers e g) a = Some f" for a f
    using that it [OF specs_ok(1)] it [OF specs_ok(2)] it [OF specs_ok(3)] it [OF specs_ok(4)] it [OF specs_ok(5)] rt rn adm
    by (auto simp: handlers_def control_retry_now_def control_exclude_item_def control_resume_new_generation_def
        control_retry_access_denied_def control_set_item_priority_def control_set_retry_cooldown_def
        well_formed_def with_item_ids_def split: if_splits option.splits)
  then show ?thesis by (auto simp: control_action_def split: json.splits option.splits)
qed

lemma held_step:
  assumes "run_step g x y" and "held x"
  shows "held y"
  using assms
proof (induction rule: run_step.induct)
  case (admits jobs e free s j t)
  have wf: "distinct (map d_url (downloads (x_db (fst s))))" using admits(4) by (simp add: held_def)
  note a = admit_one_job [OF admits(2) wf]
  have pending: "j = Transfer r \<Longrightarrow> next_pending e g (x_db (fst s)) = Some r"
    and due: "j = Recheck r \<Longrightarrow> next_recheck e g (x_db (fst s)) = Some r"
    and frame: "v \<noteq> job_url j \<Longrightarrow> rows_at v (x_db (fst t)) = rows_at v (x_db (fst s))"
    and new_rows: "rows_in (holding j) (job_url j) (x_db (fst t))" for r v
    using a by simp_all
  have urls: "map d_url (downloads (x_db (fst t))) = map d_url (downloads (x_db (fst s)))" using a by simp
  have "job_url j \<noteq> job_url i" if i: "i \<in> set jobs" for i
  proof -
    have rows: "rows_in (holding i) (job_url i) (x_db (fst s))" using admits(4) i by (simp add: held_def)
    show ?thesis
    proof (cases j)
      case (Transfer r)
      from next_pending_Some [OF pending [OF Transfer]]
      have "r \<in> set (downloads (x_db (fst s)))" "retryable (d_status r)" by simp_all
      with rows Transfer show ?thesis
        by (cases i) (auto simp: job_url_def holding_def rows_in_def rows_at_def)
    next
      case (Recheck r)
      from next_recheck_Some [OF due [OF Recheck]]
      have "r \<in> set (downloads (x_db (fst s)))" "d_status r = Unavailable" by simp_all
      with rows Recheck admits(3) i show ?thesis
        by (cases i) (auto simp: job_url_def holding_def rows_in_def rows_at_def claim_expired_def rechecked_urls_def)
    qed
  qed
  note new = this
  have "rows_in (holding i) (job_url i) (x_db (fst t))" if i: "i \<in> set jobs" for i
  proof -
    have "rows_at (job_url i) (x_db (fst t)) = rows_at (job_url i) (x_db (fst s))"
      by (rule frame) (use new [OF i] in simp)
    moreover have "rows_in (holding i) (job_url i) (x_db (fst s))" using admits(4) i by (simp add: held_def)
    ultimately show ?thesis using rows_in_same by blast
  qed
  then show ?case using urls new_rows new admits(4) by (auto simp: held_def)
next
  case (admits_none e free s t jobs)
  then have "rows_of (fst t) = rows_of (fst s)" using admit_one_job [OF admits_none(1)] by (simp add: held_def)
  with admits_none(2) show ?case by (simp add: held_def rows_in_def rows_at_def)
next
  case (transfers r jobs env w s res t)
  have "others (d_url r) (other_rows s) t"
    by (rule keepsD [OF transfer_others others_self transfers(2)])
  with transfers(1,3) show ?case by (intro held_finished) (simp_all add: job_url_def)
next
  case (rechecks r jobs e w s res t)
  have "others (d_url r) (other_rows s) t"
    by (rule keepsD [OF recheck_others others_self rechecks(2)])
  with rechecks(1,3) show ?case by (intro held_finished) (simp_all add: job_url_def)
next
  case (serves e rq s res u jobs)
  have u: "u = snd (control_action e g rq (fst s))" by (simp add: serves(1))
  have "rows_in (holding j) (job_url j) (x_db u)" if "j \<in> set jobs" for j
    unfolding u using serves(2) that
    by (intro rows_in_control) (auto simp: held_def holding_def split: job.splits)
  with control_urls [of e g rq "fst s"] serves(2) show ?case by (simp add: held_def u)
next
  case (terminated s jobs)
  then show ?case by (simp add: held_def handle_sigterm_def)
next
  case (interrupted s jobs)
  then show ?case by (simp add: held_def handle_sigint_def)
qed

inductive_cases run_stepE: "run_step g (s, jobs) (t, jobs')"

lemma workers_step: "run_step g x y \<Longrightarrow> length (snd x) \<le> g_workers g \<Longrightarrow> length (snd y) \<le> g_workers g"
  by (induction rule: run_step.induct) (auto simp: length_remove1)

lemma reachable_held:
  assumes "reachable g (s0, []) x" and "distinct (map d_url (downloads (x_db (fst s0))))"
  shows "held x \<and> length (snd x) \<le> g_workers g"
  using assms
proof (induction rule: reachable.induct)
  case start
  then show ?case by (simp add: held_def)
next
  case (more_steps x y)
  then show ?case using held_step workers_step by blast
qed


subsection \<open>The admission loop\<close>

lemma admit_Inr:
  assumes "admit env g free k jobs s = (Inr jobs', t)"
  shows "\<exists>new. jobs' = jobs @ new \<and> (new \<noteq> [] \<longrightarrow> length jobs' \<le> g_workers g) \<and>
    (g_workers g \<le> length jobs' \<or> closed_to_admission (fst t) \<or>
     (next_pending (env (k + length new)) g (x_db (fst t)) = None \<and> next_recheck (env (k + length new)) g (x_db (fst t)) = None))"
  using assms
proof (induction env g free k jobs arbitrary: s rule: admit.induct)
  case (1 env g free k jobs)
  show ?case
  proof (cases "g_workers g \<le> length jobs")
    case True
    with 1(2) show ?thesis by (simp add: admit.simps)
  next
    case False
    with 1(2) obtain picked u where p: "admit_one (env k) g (free k) s = (Inr picked, u)"
      and rest: "(case picked of None \<Rightarrow> ret jobs | Some j \<Rightarrow> admit env g free (Suc k) (jobs @ [j])) u = (Inr jobs', t)"
      by (subst (asm) admit.simps) (auto simp: andthen_Inr)
    show ?thesis
    proof (cases picked)
      case None
      with rest p have "closed_to_admission (fst t) \<or>
        (next_pending (env k) g (x_db (fst t)) = None \<and> next_recheck (env k) g (x_db (fst t)) = None)" "jobs' = jobs"
        by (auto simp: admit_one_def andthen_Inr read_ctl_def ctl_Inr gets_def stop_admission_def set_lifecycle_def
            modify_def closed_to_admission_def split: if_splits option.splits)
      then show ?thesis by (intro exI [of _ "[]"]) simp
    next
      case (Some j)
      with rest have "admit env g free (Suc k) (jobs @ [j]) u = (Inr jobs', t)" by simp
      from 1(1) [OF False this] obtain new where "jobs' = (jobs @ [j]) @ new"
        "new \<noteq> [] \<longrightarrow> length jobs' \<le> g_workers g"
        "g_workers g \<le> length jobs' \<or> closed_to_admission (fst t) \<or>
         (next_pending (env (Suc k + length new)) g (x_db (fst t)) = None \<and> next_recheck (env (Suc k + length new)) g (x_db (fst t)) = None)"
        by blast
      with False show ?thesis by (intro exI [of _ "j # new"]) (cases new; auto)
    qed
  qed
qed

text \<open>
  C20: the admission loop ends, and only for a reason: when it returns, all workers are busy, or
  admission is closed (a stop, a drain or a pause, the time limit or the storage reserve reached),
  or neither a due item nor a due recheck is left.  It never exceeds the workers and keeps the
  running jobs.
\<close>

theorem admission_ends_for_a_reason:
  assumes "admit env g free k jobs s = (Inr jobs', t)"
  shows "\<exists>new. jobs' = jobs @ new \<and> (new \<noteq> [] \<longrightarrow> length jobs' \<le> g_workers g) \<and>
    (g_workers g \<le> length jobs' \<or> closed_to_admission (fst t) \<or>
     (next_pending (env (k + length new)) g (x_db (fst t)) = None \<and> next_recheck (env (k + length new)) g (x_db (fst t)) = None))"
  using assms by (rule admit_Inr)

subsection \<open>A run that is to end ends\<close>

lemma admit_one_closed: "closed_to_admission (fst s) \<Longrightarrow> admit_one e g free s = (Inr None, s)"
  by (cases s) (simp add: admit_one_def andthen_def read_ctl_def ctl_def gets_def ret_def)

lemma admit_closed: "closed_to_admission (fst s) \<Longrightarrow> admit env g free k jobs s = (Inr jobs, s)"
  by (subst admit.simps) (simp add: andthen_def admit_one_closed ret_def)

text \<open>
  The main loop for \<open>n\<close> turns; \<open>None\<close> when it is not over.  \<open>outside k\<close> is what the other threads
  do to the state before turn \<open>k\<close>.
\<close>

fun main_loop :: "nat \<Rightarrow> (nat \<Rightarrow> nat \<Rightarrow> env) \<Rightarrow> (nat \<Rightarrow> env) \<Rightarrow> config \<Rightarrow> (nat \<Rightarrow> nat \<Rightarrow> int) \<Rightarrow> (nat \<Rightarrow> downloader \<times> fs \<Rightarrow> downloader \<times> fs) \<Rightarrow>
    (nat \<Rightarrow> job list \<Rightarrow> (job \<times> (failure + string)) list) \<Rightarrow> job list \<Rightarrow> outcome_counts \<Rightarrow> outcome_counts option fstep" where
  "main_loop 0 env e g free outside finished jobs c = ret None"
| "main_loop (Suc n) env e g free outside finished jobs c =
     andthen (\<lambda>s. (Inr (), outside n s)) (\<lambda>_.
     andthen (main_turn (env n) (e n) g (free n) (finished n) jobs c) (\<lambda>t.
     case t of
       Again jobs c \<Rightarrow> main_loop n env e g free outside finished jobs c
     | Ended c \<Rightarrow> ret (Some c)))"

definition ending :: "downloader \<times> fs \<Rightarrow> bool" where
  "ending s = (x_stop (fst s) \<or> x_drain (fst s))"

definition all_fine :: "(job \<times> (failure + string)) list \<Rightarrow> bool" where
  "all_fine ds = list_all (\<lambda>(j, r). case r of Inl x \<Rightarrow> False | Inr k \<Rightarrow> True) ds"

lemma collect_fine: "all_fine ds \<Longrightarrow> \<exists>c'. collect ds c = Inr c'"
  by (induction ds c rule: collect.induct) (auto simp: all_fine_def)

lemma ending_turn:
  assumes "ending s"
  shows "jobs = [] \<Longrightarrow> main_turn env e g free finished jobs c s = (Inr (Ended c), s)"
    and "jobs \<noteq> [] \<Longrightarrow> finished jobs \<noteq> [] \<Longrightarrow> all_fine (finished jobs) \<Longrightarrow>
      \<exists>c' t. main_turn env e g free finished jobs c s = (Inr (Again (filter (\<lambda>j. j \<notin> set (map fst (finished jobs))) jobs) c'), t) \<and> ending t"
proof -
  have closed: "closed_to_admission (fst s)" using assms by (auto simp: ending_def closed_to_admission_def)
  obtain d f where s: "s = (d, f)" by (cases s)
  note skip = admit_closed [OF closed, unfolded s]
  show "jobs = [] \<Longrightarrow> main_turn env e g free finished jobs c s = (Inr (Ended c), s)"
    using assms by (simp add: s main_turn_def andthen_def skip read_ctl_def ctl_def gets_def idle_turn_def ending_def ret_def)
  assume j: "jobs \<noteq> []" "finished jobs \<noteq> []" "all_fine (finished jobs)"
  obtain c' where c': "collect (finished jobs) c = Inr c'" using collect_fine [OF j(3)] by blast
  obtain x u where w: "admission_wait_timeout e (fst s) = (x, u)" by (cases "admission_wait_timeout e (fst s)")
  then have u: "x_stop u = x_stop (fst s)" "x_drain u = x_drain (fst s)"
    by (auto simp: admission_wait_timeout_def Let_def split: if_splits)
  show "\<exists>c' t. main_turn env e g free finished jobs c s = (Inr (Again (filter (\<lambda>j. j \<notin> set (map fst (finished jobs))) jobs) c'), t) \<and> ending t"
    using assms j u w by (auto simp: s main_turn_def andthen_def skip read_ctl_def ctl_def gets_def ending_def ret_def Let_def c')
qed


lemma due_wait:
  assumes "next_pending e g d \<noteq> None"
  shows "retry_wait e g d = Some 0"
proof -
  have "\<exists>t \<in> set (retry_times g d). t \<le> e_time e" using assms by (auto simp: next_pending_None not_less)
  then obtain t where t: "t \<in> set (retry_times g d)" "t \<le> e_time e" by blast
  then have "Min (set (retry_times g d)) \<le> e_time e" by (meson List.finite_set Min_le order_trans)
  moreover have "retry_times g d \<noteq> []" using t by auto
  ultimately show ?thesis by (simp add: retry_wait_Some)
qed

text \<open>
  C22: pausing admission ends an idle run.  While admission is paused and no job runs, an item that
  is due makes the main loop request a stop, and its next turn ends the run, with the item still
  in the queue.
\<close>

theorem pausing_ends_an_idle_run:
  assumes "x_paused s" and "\<not> x_stop s" and "\<not> x_drain s" and "next_pending e g (x_db s) \<noteq> None"
  shows "main_turn env e g free finished [] c (s, f) = (Inr (Again [] c), (s\<lparr>x_stop := True\<rparr>, f)) \<and>
    main_turn env' e' g free' finished' [] c (s\<lparr>x_stop := True\<rparr>, f) = (Inr (Ended c), (s\<lparr>x_stop := True\<rparr>, f))"
proof -
  have "closed_to_admission (fst (s, f))" using assms(1) by (simp add: closed_to_admission_def)
  note paused = admit_closed [OF this]
  have "min (0::rat) (max 0 x) = 0" for x by simp
  then have "idle_turn e g s = StopNow"
    using assms(2,3) due_wait [OF assms(4)] by (simp add: idle_turn_def split: option.split)
  then have "main_turn env e g free finished [] c (s, f) = (Inr (Again [] c), (s\<lparr>x_stop := True\<rparr>, f))"
    by (simp add: main_turn_def andthen_def paused read_ctl_def ctl_def gets_def ret_def modify_def)
  moreover have "ending (s\<lparr>x_stop := True\<rparr>, f)" by (simp add: ending_def)
  ultimately show ?thesis using ending_turn(1) by simp
qed

theorem pausing_ends_an_idle_run_witness:
  "main_turn (\<lambda>_. example_env) example_env example_config (\<lambda>_. 0) (\<lambda>_. []) [] [] (example_state\<lparr>x_paused := True\<rparr>, example_fs) =
     (Inr (Again [] []), (example_state\<lparr>x_paused := True, x_stop := True\<rparr>, example_fs))"
proof -
  have "next_pending example_env example_config (x_db (example_state\<lparr>x_paused := True\<rparr>)) \<noteq> None" by code_simp
  moreover have "x_paused (example_state\<lparr>x_paused := True\<rparr>)" "\<not> x_stop (example_state\<lparr>x_paused := True\<rparr>)"
    "\<not> x_drain (example_state\<lparr>x_paused := True\<rparr>)" by code_simp+
  ultimately show ?thesis using pausing_ends_an_idle_run by blast
qed

text \<open>An example: two jobs, of which the second is done only after the first.\<close>

definition example_jobs :: "job list" where
  "example_jobs = [Transfer (example_row ''u1'' Admitted), Transfer (example_row ''u2'' Admitted)]"

definition one_done :: "nat \<Rightarrow> job list \<Rightarrow> (job \<times> (failure + string)) list" where
  "one_done k js = (case js of [] \<Rightarrow> [] | j # _ \<Rightarrow> [(j, Inr ''complete'')])"


subsection \<open>Concrete admissions\<close>

definition example_admission :: "(failure + job list) \<times> downloader \<times> fs" where
  "example_admission = admit (\<lambda>_. example_env) example_config (\<lambda>_. 10) 0 [] (example_state, example_fs)"

lemma example_admission_jobs: "map_sum (\<lambda>x. x) (map job_url) (fst example_admission) = Inr [''u1'', ''u2'']"
  by code_simp

theorem admission_ends_for_a_reason_witness:
  "\<exists>jobs. fst example_admission = Inr jobs \<and> map job_url jobs = [''u1'', ''u2''] \<and> length jobs \<le> 2"
proof -
  obtain jobs where j: "fst example_admission = Inr jobs" "map job_url jobs = [''u1'', ''u2'']"
    using example_admission_jobs by (cases "fst example_admission") auto
  then have run: "admit (\<lambda>_. example_env) example_config (\<lambda>_. 10) 0 [] (example_state, example_fs) = (Inr jobs, snd example_admission)"
    unfolding example_admission_def by (metis prod.collapse)
  from admission_ends_for_a_reason [OF run] j show ?thesis by (auto simp: example_config_def)
qed

definition example_first :: "(failure + job option) \<times> downloader \<times> fs" where
  "example_first = admit_one example_env example_config 10 (example_state, example_fs)"


subsection \<open>Arguments and exits\<close>

text \<open>
  The arguments \<open>main\<close> accepts give a run one to four workers, positive time-outs and no
  negative limit, and a run identifier that is one file name: no separator and no dot in it.
\<close>

theorem accepted_arguments:
  assumes "check_args a = None"
  shows "a_queue a \<noteq> [] \<and> 1 \<le> a_workers a \<and> a_workers a \<le> 4 \<and> 1 \<le> a_connect_timeout a \<and> 1 \<le> a_timeout a \<and>
    1 \<le> a_progress_interval a \<and> 1 \<le> a_socks_backoff a \<and> 0 \<le> a_newnym_interval a \<and> 0 \<le> a_stagger a \<and>
    0 \<le> a_time_limit a \<and> 0 \<le> a_max_files a \<and> 0 \<le> a_max_attempts a \<and> 0 \<le> a_reserve a \<and>
    (\<forall>t. a_run_id a = Some t \<longrightarrow> CHR ''/'' \<notin> set t \<and> CHR ''.'' \<notin> set t \<and> CHR 0x00 \<notin> set t)"
proof -
  have "CHR ''/'' \<notin> set t \<and> CHR ''.'' \<notin> set t \<and> CHR 0x00 \<notin> set t" if "list_all run_id_char t" for t
    using that by (auto simp: list_all_iff run_id_char_def is_lower_def is_upper_def is_digit_def)
  with assms show ?thesis
    by (auto simp: check_args_def Let_def not_less split: if_splits)
qed

definition example_args :: args where
  "example_args = \<lparr>a_queue = [''q''], a_workers = 4, a_max_files = 0, a_run_id = Some ''run-1'', a_max_attempts = 0,
     a_newnym_interval = 60, a_connect_timeout = 90, a_timeout = 300, a_progress_interval = 30, a_socks_backoff = 60,
     a_stagger = 1, a_time_limit = 0, a_reserve = 10737418240\<rparr>"

theorem accepted_arguments_witness:
  "check_args example_args = None \<and> a_workers example_args \<le> 4 \<and> CHR ''/'' \<notin> set ''run-1''"
proof -
  have c: "check_args example_args = None" by code_simp
  from accepted_arguments [OF c] c show ?thesis by (simp add: example_args_def)
qed

text \<open>
  A run exits with status 0 exactly when no signal arrived and every selected item is durably
  complete; the final telemetry says \<open>finished\<close> exactly when every item is complete; and the record
  is closed as \<open>finished\<close> exactly when, besides the exit status 0, there was no local failure and
  no stop of a run that has a time limit.
\<close>

theorem exit_status_is_honest:
  "(exit_code g s = 0 \<longleftrightarrow> \<not> x_sigterm s \<and> \<not> x_sigint s \<and> list_all (\<lambda>r. d_status r \<in> {Complete, Existing}) (run_rows (g_run g) (x_db s))) \<and>
   (close_lifecycle g s = (''finished'', None) \<longleftrightarrow> list_all (\<lambda>r. d_status r \<in> {Complete, Existing}) (run_rows (g_run g) (x_db s))) \<and>
   (close_reason g s = ''finished'' \<longleftrightarrow>
      exit_code g s = 0 \<and> x_local_failure s \<in> {None, Some []} \<and> \<not> (x_deadline s \<noteq> None \<and> x_stop s))"
proof -
  have "unresolved g (x_db s) = 0 \<longleftrightarrow> list_all (\<lambda>r. d_status r \<in> {Complete, Existing}) (run_rows (g_run g) (x_db s))"
    by (simp add: unresolved_def resolved_def list_all_iff filter_empty_conv)
  then show ?thesis by (auto simp: exit_code_def close_lifecycle_def close_reason_def)
qed

fun restarts :: "manifest \<Rightarrow> (env \<times> config \<times> queue_input list) list \<Rightarrow> failure + manifest" where
  "restarts m [] = Inr m"
| "restarts m ((e, g, inputs) # rs) = (case bind_manifest e g inputs (Some m) of Inl x \<Rightarrow> Inl x | Inr m \<Rightarrow> restarts m rs)"

text \<open>
  A run identifier stays bound to its inputs.  However often a run is started, a start that
  is accepted has the queue files, their digests and the selection limit of the first one, and
  keeps the list of workers it noted.
\<close>

theorem run_stays_bound:
  assumes "bind_manifest e g inputs None = Inr m" and "restarts m rs = Inr m'"
  shows "mf_queue_inputs m' = inputs \<and> mf_max_files m' = g_max_files g \<and> mf_started_at m' = e_now e \<and> mf_workers m' = [] \<and>
    list_all (\<lambda>(_, g', inputs'). inputs' = inputs \<and> g_max_files g' = g_max_files g) rs"
proof -
  have "mf_queue_inputs m' = mf_queue_inputs m \<and> mf_max_files m' = mf_max_files m \<and> mf_started_at m' = mf_started_at m \<and>
      mf_workers m' = mf_workers m \<and>
      list_all (\<lambda>(_, g', inputs'). inputs' = mf_queue_inputs m \<and> g_max_files g' = mf_max_files m) rs"
    using assms(2)
  proof (induction rs arbitrary: m)
    case (Cons x rs)
    obtain e g i where x: "x = (e, g, i)" by (cases x)
    with Cons.prems have "mf_queue_inputs m = i" "mf_max_files m = g_max_files g"
        "restarts (m\<lparr>mf_resumed_at := Some (e_now e)\<rparr>) rs = Inr m'"
      by (auto simp: bind_manifest_def split: if_splits)
    with Cons.IH [OF this(3)] show ?case by (simp add: x)
  qed simp
  with assms(1) show ?thesis by (auto simp: bind_manifest_def)
qed

theorem run_stays_bound_witness:
  "\<exists>m m'. bind_manifest example_env example_config [(''q'', ''h'')] None = Inr m \<and>
     restarts m [(example_env, example_config, [(''q'', ''h'')])] = Inr m' \<and> mf_queue_inputs m' = [(''q'', ''h'')] \<and>
     (\<exists>x. restarts m [(example_env, example_config, [(''q'', ''other'')])] = Inl x)"
proof -
  obtain m where m: "bind_manifest example_env example_config [(''q'', ''h'')] None = Inr m" by (simp add: bind_manifest_def)
  then have r: "restarts m [(example_env, example_config, [(''q'', ''h'')])] = Inr (m\<lparr>mf_resumed_at := Some (e_now example_env)\<rparr>)"
    and l: "\<exists>x. restarts m [(example_env, example_config, [(''q'', ''other'')])] = Inl x"
    by (auto simp: bind_manifest_def)
  from run_stays_bound [OF m r] m r l show ?thesis by blast
qed

subsection \<open>What a start leaves\<close>

definition none_promoting :: "downloader \<times> fs \<Rightarrow> bool" where
  "none_promoting s = list_all (\<lambda>r. d_status r \<noteq> Promoting) (rows_of (fst s))"

lemma transition_ctl_rows_in:
  "ctl (transition e g u st dt h) s = (Inr v, t) \<Longrightarrow> (\<And>q. d_url (h q) = d_url q \<and> d_status (h q) = d_status q) \<Longrightarrow>
    rows_in {st} u (x_db (fst t))"
  by (auto simp: ctl_Inr intro: transition_rows_in)

lemma keeps_none_promoting [pres]:
  assumes "st \<noteq> Promoting" and "\<And>q. d_url (h q) = d_url q \<and> d_status (h q) = d_status q"
  shows "keeps none_promoting (ctl (transition e g u st dt h))"
proof (rule keeps_ctl)
  fix s f assume np: "none_promoting (s, f)"
  have rows: "rows_of (snd (transition e g u st dt h s)) \<in>
      {rows_of s, map (\<lambda>q. if d_url q = u then transition_row_update st (e_now e) h q else q) (rows_of s)}"
  proof -
    have "downloads (snd (transition_db rid stamp u st dt h old d)) =
      map (\<lambda>q. if d_url q = u then transition_row_update st stamp h q else q) (downloads d)" for rid stamp old d
      by (simp add: transition_db_def update_where_def)
    then have "transition_db (g_run g) (e_now e) u st dt h old (x_db s) = (n, d) \<Longrightarrow>
      downloads d = map (\<lambda>q. if d_url q = u then transition_row_update st (e_now e) h q else q) (rows_of s)" for old n d
      by (metis snd_conv)
    then show ?thesis
      by (auto simp: transition_def apply_projection_change_def split: option.splits prod.splits commit.splits)
  qed
  have "d_status (transition_row_update st (e_now e) h q) = st" for q
    using assms(2) by (simp add: transition_row_update_def)
  with rows np assms(1) show "none_promoting (snd (transition e g u st dt h s), f)"
    by (auto simp: none_promoting_def list_all_iff)
qed

lemma promoting_ctl: "(\<And>s. rows_of (snd (m s)) = rows_of s) \<Longrightarrow> keeps none_promoting (ctl m)"
  by (rule keeps_ctl) (simp add: none_promoting_def)

lemma keeps_none_promoting_ctl [pres]:
  "keeps none_promoting (ctl (provenance_event e ty kw))" "keeps none_promoting (ctl (finalized_event_of_paths e u))"
  "keeps none_promoting (sys m)" "keeps none_promoting (read_ctl q)"
  "(\<And>d. downloads (k d) = downloads d) \<Longrightarrow> keeps none_promoting (on_db k)"
  "(\<And>s. rows_of (h s) = rows_of s) \<Longrightarrow> keeps none_promoting (ctl (modify h))"
  unfolding read_ctl_def on_db_def
  by (rule promoting_ctl keeps_sys; simp add: modify_def gets_def none_promoting_def)+

lemma scope_loop_promoting: "keeps none_promoting (scope_loop env g fault qs n k)"
proof (induction qs arbitrary: n k)
  case (Cons q qs)
  have "keeps none_promoting (reconcile_existing_file e g fault url target expected)" for e url target expected
    unfolding reconcile_existing_file_def hash_and_size_def by (auto intro!: pres simp: set_review_def)
  with Cons show ?case by (auto intro!: pres simp: insert_run_item_def Let_def split: prod.splits)
qed (simp add: pres)

lemma scope_run_promoting: "keeps none_promoting (scope_run env g fault qs)"
  unfolding scope_run_def by (auto intro!: pres scope_loop_promoting simp: start_revision_def)

lemma cleanup_promoting: "keeps none_promoting (cleanup_completed_staging env g fault)"
proof -
  have "keeps none_promoting (cleanup_row e g fault r)" for e r
    unfolding cleanup_row_def Let_def
    by (auto intro!: pres split: option.splits node.splits os_error.splits)
  then show ?thesis unfolding cleanup_completed_staging_def by (intro pres keeps_each)
qed

lemma rows_in_mono: "rows_in A u d \<Longrightarrow> A \<subseteq> B \<Longrightarrow> rows_in B u d"
  by (auto simp: rows_in_def)

lemma settled_rows:
  "promotion_refused env g url dt x s = (Inr v, t) \<Longrightarrow> rows_in {Complete, ReviewRequired} url (x_db (fst t))"
  "inconsistent_promotion env g url s = (Inr v, t) \<Longrightarrow> rows_in {Complete, ReviewRequired} url (x_db (fst t))"
  "reconciled env g fault r p s = (Inr v, t) \<Longrightarrow> rows_in {Complete, ReviewRequired} (d_url r) (x_db (fst t))"
  "staging_removed env g fault url p s = (Inr v, t) \<Longrightarrow> rows_in {Complete, ReviewRequired} url (x_db (fst t))"
  unfolding promotion_refused_def inconsistent_promotion_def reconciled_def staging_removed_def andthen_Inr
  by (auto dest!: transition_ctl_rows_in intro: rows_in_mono simp: set_review_def)

lemma reconcile_row_ends:
  assumes "reconcile_row env g fault r s = (Inr v, t)"
  shows "rows_in {Complete, ReviewRequired} (d_url r) (x_db (fst t))"
proof -
  have un: "rows_in {Complete, ReviewRequired} (d_url r) (x_db (fst t))" if m: "reconcile_unmatched env g fault r s' = (Inr w, t)" for s' w
  proof -
    have linked: "rows_in {Complete, ReviewRequired} (d_url r) (x_db (fst t))"
      if "(case l of Inl x \<Rightarrow> promotion_refused env g (d_url r) dt x
          | Inr _ \<Rightarrow> andthen m1 (\<lambda>_. andthen m2 (\<lambda>_. staging_removed env g fault (d_url r) p))) u = (Inr w', t)"
      for l :: "failure + unit" and dt p and m1 m2 :: "unit fstep" and u w'
      using that by (cases l) (auto simp: andthen_Inr dest: settled_rows)
    show ?thesis
      using m by (auto simp: reconcile_unmatched_def Let_def andthen_Inr look_Inr split: option.splits if_splits
          dest: settled_rows linked)
  qed
  from assms obtain found u where "attempt_os (sys (target_matches (env 0) g fault (text_path (d_promotion_target r)) (d_sha256 r))) s = (Inr found, u)"
    and rest: "(case found of
        Inl x \<Rightarrow> promotion_refused env g (d_url r) ''promotion target is inaccessible'' x
      | Inr True \<Rightarrow>
          andthen (reconciled env g fault r (the (text_path (d_promotion_target r)))) (\<lambda>_.
          case text_path (d_staging_path r) of
            None \<Rightarrow> ret ()
          | Some p \<Rightarrow>
              andthen (look (\<lambda>f. exists p f \<and> is_file p f)) (\<lambda>there.
              if there then staging_removed env g fault (d_url r) p else ret ()))
      | Inr False \<Rightarrow> reconcile_unmatched env g fault r) u = (Inr v, t)"
    by (auto simp: reconcile_row_def Let_def andthen_Inr)
  show ?thesis
  proof (cases found)
    case (Inl x)
    with rest show ?thesis by (auto dest: settled_rows)
  next
    case (Inr b)
    show ?thesis
    proof (cases b)
      case True
      with rest Inr show ?thesis
        by (auto simp: andthen_Inr look_Inr split: option.splits if_splits dest: settled_rows)
    next
      case False
      with rest Inr un show ?thesis by simp
    qed
  qed
qed

lemma mem_rows_at: "q \<in> set (rows_at v d) \<longleftrightarrow> q \<in> set (downloads d) \<and> d_url q = v"
  by (auto simp: rows_at_def)

lemma reconcile_promoting:
  assumes "reconcile_promotions env g fault s = (Inr v, t)"
  shows "none_promoting t"
proof -
  have step: "(\<forall>r \<in> set (rows_of (fst t)). d_status r = Promoting \<longrightarrow> d_url r \<notin> d_url ` set rs \<and> r \<in> set (rows_of (fst s)))"
    if "each (\<lambda>k. reconcile_row (env k) g fault) k rs s = (Inr v, t)" for rs k s v
    using that
  proof (induction rs arbitrary: k s)
    case (Cons r rs)
    then obtain u where r: "reconcile_row (env k) g fault r s = (Inr (), u)"
      and rs: "each (\<lambda>k. reconcile_row (env k) g fault) (Suc k) rs u = (Inr v, t)" by (auto simp: andthen_Inr)
    have settled: "rows_in {Complete, ReviewRequired} (d_url r) (x_db (fst u))" by (rule reconcile_row_ends [OF r])
    have oth: "others (d_url r) (other_rows s) u" by (rule keepsD [OF reconcile_others others_self r])
    show ?case
    proof (intro ballI impI conjI)
      fix q assume q: "q \<in> set (rows_of (fst t))" "d_status q = Promoting"
      from Cons.IH [OF rs] q have tail: "d_url q \<notin> d_url ` set rs" "q \<in> set (rows_of (fst u))" by blast+
      then have ne: "d_url q \<noteq> d_url r" using settled q(2) by (auto simp: rows_in_def rows_at_def)
      with tail show "d_url q \<notin> d_url ` set (r # rs)" by auto
      from ne oth have "rows_at (d_url q) (x_db (fst u)) = rows_at (d_url q) (x_db (fst s))" by (simp add: others_def)
      with tail(2) show "q \<in> set (rows_of (fst s))" 
        by (metis mem_rows_at)
    qed
  qed (simp add: ret_Inr)
  from assms have "each (\<lambda>k. reconcile_row (env k) g fault) 0 (filter (\<lambda>r. d_status r = Promoting) (rows_of (fst s))) s = (Inr v, t)"
    by (auto simp: reconcile_promotions_def read_ctl_def gets_def andthen_def ctl_def)
  from step [OF this] show ?thesis by (force simp: none_promoting_def list_all_iff)
qed

lemma none_promoting_others:
  assumes "none_promoting s" and "others u (other_rows s) t" and "rows_in A u (x_db (fst t))" and "Promoting \<notin> A"
  shows "none_promoting t"
proof -
  have "d_status q \<noteq> Promoting" if q: "q \<in> set (rows_of (fst t))" for q
  proof (cases "d_url q = u")
    case True
    with q assms(3,4) show ?thesis by (auto simp: rows_in_def rows_at_def)
  next
    case False
    then have "rows_at (d_url q) (x_db (fst t)) = rows_at (d_url q) (x_db (fst s))" using assms(2) by (simp add: others_def)
    then have "q \<in> set (rows_of (fst s))" using q by (metis mem_rows_at)
    with assms(1) show ?thesis by (simp add: none_promoting_def list_all_iff)
  qed
  then show ?thesis by (simp add: none_promoting_def list_all_iff)
qed

lemma others_remediation_event: "keeps (others u R) (ctl (remediation_event e sv m u'))"
  by (rule others_ctl) (simp add: remediation_event_def split: option.split)

lemma remediate_row_others: "keeps (others (d_url r) R) (remediate_row env g fault r)"
proof -
  have "keeps (others (d_url r) R) (remediation_checks e g fault r a)" for e a
    unfolding remediation_checks_def require_def
    by (auto intro!: pres split: sum.splits)
  then show ?thesis
    unfolding remediate_row_def remediation_promote_def remediation_complete_def remediation_failed_def Let_def
    by (auto intro!: pres others_remediation_event)
qed

lemma remediation_ends:
  "remediation_failed env g u er oc m h s = (Inr v, t) \<Longrightarrow> (\<And>q. d_url (h q) = d_url q \<and> d_status (h q) = d_status q) \<Longrightarrow>
    rows_in {Complete, ReviewRequired} u (x_db (fst t))"
  "remediation_complete env g fault r a stored target s = (Inr v, t) \<Longrightarrow> rows_in {Complete, ReviewRequired} (d_url r) (x_db (fst t))"
proof -
  have ev: "remediation_event e sv m u c = (Inr (), d) \<Longrightarrow> rows_in A w (x_db d) = rows_in A w (x_db c)" for e sv m u c d A w
    by (auto simp: remediation_event_def rows_in_def rows_at_def split: option.splits)
  show "remediation_failed env g u er oc m h s = (Inr v, t) \<Longrightarrow> (\<And>q. d_url (h q) = d_url q \<and> d_status (h q) = d_status q) \<Longrightarrow>
    rows_in {Complete, ReviewRequired} u (x_db (fst t))"
    unfolding remediation_failed_def andthen_Inr ret_Inr
    by (auto simp: ctl_Inr dest!: transition_rows_in ev intro: rows_in_mono)
  show "remediation_complete env g fault r a stored target s = (Inr v, t) \<Longrightarrow> rows_in {Complete, ReviewRequired} (d_url r) (x_db (fst t))"
    unfolding remediation_complete_def Let_def andthen_Inr ret_Inr
    by (auto simp: ctl_Inr dest!: transition_rows_in ev intro: rows_in_mono)
qed

lemma remediation_promote_ends:
  assumes "remediation_promote env g fault r a stored target s = (Inr ok, t)"
  shows "rows_in {Complete, ReviewRequired} (d_url r) (x_db (fst t))"
proof -
  from assms obtain l :: "failure + unit" and u where "(case l of
      Inl x \<Rightarrow>
        if x = Os EEXIST
        then remediation_failed env g (d_url r) ''mapped destination already exists'' ''manual_collision''
          ''safe-path remediation found an existing final'' (\<lambda>q. q)
        else remediation_failed env g (d_url r) (failure_text x) ''manual_error''
          ''safe-path remediation requires manual review'' (\<lambda>q. q)
    | Inr _ \<Rightarrow> remediation_complete env g fault r a stored target) u = (Inr ok, t)"
    unfolding remediation_promote_def Let_def andthen_Inr by (elim exE conjE) (erule that)
  then show ?thesis by (cases l) (auto dest: remediation_ends split: if_splits)
qed

lemma remediate_row_ends:
  assumes "remediate_row env g fault r s = (Inr ok, t)"
  shows "rows_in {Complete, ReviewRequired} (d_url r) (x_db (fst t))"
proof -
  from assms obtain l u where "(case l of
        Inl x \<Rightarrow> remediation_failed env g (d_url r) (failure_text x) ''manual_error'' ''safe-path remediation requires manual review''
          (\<lambda>q. q\<lparr>d_remediation_reason := Some ''automatic safe-path remediation'',
             d_remediation_mapping_version := Some SAFE_PATH_MAPPING_VERSION\<rparr>)
      | Inr (stored, target) \<Rightarrow> remediation_promote env g fault r (staging_path (env 0) g (d_url r)) stored target) u = (Inr ok, t)"
    unfolding remediate_row_def Let_def andthen_Inr by (elim exE conjE) (erule that)
  then show ?thesis by (cases l) (auto dest: remediation_ends remediation_promote_ends)
qed

lemma remediate_promoting:
  assumes "remediate_safe_paths env g fault s = (Inr n, t)" and "none_promoting s"
  shows "none_promoting t"
proof -
  have rows: "none_promoting t" if "remediate_rows env g fault k rs c s = (Inr n, t)" "none_promoting s" for k rs c s
    using that
  proof (induction rs arbitrary: k c s)
    case (Cons r rs)
    show ?case
    proof (cases "remediable r")
      case True
      with Cons.prems(1) obtain ok u where r: "remediate_row (env k) g fault r s = (Inr ok, u)"
        and rs: "remediate_rows env g fault (Suc k) rs (if ok then Suc c else c) u = (Inr n, t)"
        by (auto simp: andthen_Inr)
      have "none_promoting u"
        by (rule none_promoting_others [OF Cons.prems(2) keepsD [OF remediate_row_others others_self r] remediate_row_ends [OF r]]) simp
      with Cons.IH [OF rs] show ?thesis .
    next
      case False
      with Cons.prems(1) have "remediate_rows env g fault (Suc k) rs c s = (Inr n, t)" by simp
      from Cons.IH [OF this Cons.prems(2)] show ?thesis .
    qed
  qed (simp add: ret_Inr)
  from assms(1) have "\<exists>rs. remediate_rows env g fault 0 rs 0 s = (Inr n, t)"
    by (auto simp: remediate_safe_paths_def read_ctl_def gets_def andthen_def ctl_def)
  with rows assms(2) show ?thesis by blast
qed

lemma passes_leave:
  assumes "start_passes env g fault inputs qs s = (Inr v, t)"
  shows "none_promoting t \<and> (\<forall>r \<in> set (run_rows (g_run g) (x_db (fst t))). d_status r \<notin> {Promoting, Admitted, Active, Running})"
proof -
  from assms obtain b y sel c k d e n f h where
    rec: "reconcile_promotions (env 1) g fault s = (Inr y, b)" and scope: "scope_run (env 2 0) g fault qs b = (Inr sel, c)"
    and count: "ctl (modify (\<lambda>s. s\<lparr>x_selected_count := int (fst sel)\<rparr>)) c = (Inr (), k)"
    and ev: "ctl (provenance_event (env 3 0 0) ''run_started''
        [(''queue_input_digests'', inputs_json inputs), (''selection_settings'', selection_json g),
         (''selected_item_count'', JInt (int (fst sel)))]) k = (Inr (), d)"
    and clean: "cleanup_completed_staging (env 4) g fault d = (Inr (), e)"
    and rem: "remediate_safe_paths (env 5) g fault e = (Inr n, f)"
    and req: "on_db (requeue_interrupted_transfers (env 6 0 0) g) f = (Inr (), h)"
    and retry: "(if g_retry_now g then on_db (reset_retry_now g) else ret ()) h = (Inr v, t)"
    unfolding start_passes_def andthen_Inr by (elim exE conjE) (rule that; (assumption | simp))
  have "none_promoting b" by (rule reconcile_promoting [OF rec])
  then have "none_promoting c" by (rule keepsD [OF scope_run_promoting _ scope])
  then have "none_promoting k" using count by (auto simp: none_promoting_def ctl_Inr)
  then have "none_promoting d" by (rule keepsD [OF keeps_none_promoting_ctl(1) _ ev])
  then have "none_promoting e" by (rule keepsD [OF cleanup_promoting _ clean])
  then have f: "none_promoting f" by (rule remediate_promoting [OF rem])
  have rows_h: "rows_of (fst h) = map (\<lambda>r. if interrupted (d_status r) \<and> d_url r \<in> set (run_urls (g_run g) (x_db (fst f)))
      then r\<lparr>d_status := Queued, d_next_retry_at := 0, d_updated_at := e_now (env 6 0 0)\<rparr> else r) (rows_of (fst f))"
    and items: "run_items (x_db (fst h)) = run_items (x_db (fst f))"
    using req by (auto simp: on_db_def ctl_Inr requeue_interrupted_transfers_def update_where_def)
  have rows_t: "rows_of (fst t) = (if g_retry_now g then downloads (reset_retry_now g (x_db (fst h))) else rows_of (fst h))"
    "run_items (x_db (fst t)) = run_items (x_db (fst h))"
    using retry by (auto simp: on_db_def ctl_Inr reset_retry_now_def update_where_def split: if_splits)
  have origin: "\<exists>q \<in> set (rows_of (fst h)). d_url q = d_url r \<and> (d_status r = d_status q \<or> d_status r = Queued)"
    if "r \<in> set (rows_of (fst t))" for r
    using that unfolding rows_t reset_retry_now_def update_where_def by (auto split: if_splits)
  have quiet: "d_status q \<notin> {Promoting, Admitted, Active, Running}"
    if q: "q \<in> set (rows_of (fst h))" "d_url q \<in> set (run_urls (g_run g) (x_db (fst f)))" for q
    using f q unfolding rows_h none_promoting_def list_all_iff interrupted_def by (auto split: if_splits)
  have "none_promoting h"
    using f unfolding none_promoting_def list_all_iff rows_h by auto
  then have np: "none_promoting t" using origin unfolding none_promoting_def list_all_iff by force
  have urls: "r \<in> set (rows_of (fst t)) \<and> d_url r \<in> set (run_urls (g_run g) (x_db (fst f)))"
    if "r \<in> set (run_rows (g_run g) (x_db (fst t)))" for r
    using that by (auto simp: run_rows_def run_urls_def rows_t items)
  have "d_status r \<notin> {Promoting, Admitted, Active, Running}" if "r \<in> set (run_rows (g_run g) (x_db (fst t)))" for r
  proof -
    from origin urls [OF that] obtain q where "q \<in> set (rows_of (fst h))" "d_url q = d_url r" "d_status r = d_status q \<or> d_status r = Queued"
      by blast
    with quiet [of q] urls [OF that] show ?thesis by auto
  qed
  with np show ?thesis by blast
qed

text \<open>
  C23: a start leaves nothing in flight.  Whatever a killed controller left in the database, when
  the passes before admission have succeeded no row is \<open>promoting\<close>, no selected row is admitted,
  active or running, the projection is the hydration of the database as it is then, and no event
  of the passes is still waiting for the telemetry.
\<close>

theorem start_leaves_nothing_in_flight:
  assumes "start_run env g fault session monitored inputs qs s = (Inr v, t)"
  shows "none_promoting t \<and>
    (\<forall>r \<in> set (run_rows (g_run g) (x_db (fst t))). d_status r \<notin> {Promoting, Admitted, Active, Running}) \<and>
    x_projection (fst t) = Some (hydrate (e_sha (env 7 0 0)) (g_run g) (g_max_attempts g) (x_db (fst t))) \<and>
    x_pending_events (fst t) = []"
proof -
  from assms obtain a b u where passes: "start_passes env g fault inputs qs a = (Inr u, b)"
    and pub: "start_publishing (env 7 0 0) g monitored b = (Inr v, t)"
    unfolding start_run_def andthen_Inr by (elim exE conjE) (erule that)
  from pub have t: "x_db (fst t) = x_db (fst b)" "x_pending_events (fst t) = []"
    "x_projection (fst t) = Some (hydrate (e_sha (env 7 0 0)) (g_run g) (g_max_attempts g) (x_db (fst t)))"
    by (auto simp: start_publishing_def ctl_Inr)
  with passes_leave [OF passes] show ?thesis by (simp add: none_promoting_def)
qed

definition example_start_env :: env where
  "example_start_env = example_env\<lparr>e_sha := paths_sha, e_uuid := ''12345678-1234-1234-1234-123456789abc''\<rparr>"

definition example_start :: "(failure + unit) \<times> downloader \<times> fs" where
  "example_start = start_run (\<lambda>_ _ _. example_start_env) example_config no_fault ''12345678-1234-1234-1234-123456789abc''
     ''monitor'' [(''q'', paths_sha ''q'')] [] example_intent_state"

lemma example_start_ends: "fst example_start = Inr ()"
  by code_simp

lemma example_start_rows: "map (\<lambda>r. (d_url r, d_status r)) (rows_of (fst (snd example_start))) = [(''u10'', ReviewRequired)]"
  by code_simp

theorem start_leaves_nothing_in_flight_witness:
  "none_promoting (snd example_start) \<and> x_pending_events (fst (snd example_start)) = [] \<and>
     map (\<lambda>r. (d_url r, d_status r)) (rows_of (fst (snd example_start))) = [(''u10'', ReviewRequired)] \<and>
     map (\<lambda>r. d_status r) (rows_of (fst example_intent_state)) = [Promoting]"
proof -
  have run: "start_run (\<lambda>_ _ _. example_start_env) example_config no_fault ''12345678-1234-1234-1234-123456789abc''
     ''monitor'' [(''q'', paths_sha ''q'')] [] example_intent_state = (Inr (), snd example_start)"
    using example_start_ends unfolding example_start_def by (metis prod.collapse)
  have "map (\<lambda>r. d_status r) (rows_of (fst example_intent_state)) = [Promoting]" by code_simp
  with start_leaves_nothing_in_flight [OF run] example_start_rows show ?thesis by blast
qed

end
