(* ===== verification/Inventory.thy ===== *)
theory Inventory
  imports Paths
begin

text \<open>
  Reading a listing and deciding what to do with its entries (\<open>src/inventory.py\<close>): the bounded
  line reader, \<open>ListingParser\<close>, the identity of an entry (\<open>encode_segment\<close>,
  \<open>unsafe_path_reason\<close>, \<open>parse_base_url\<close>) and the policy (\<open>load_policy\<close>, \<open>classify\<close>).

  A listing is the bytes of the file.  The generator \<open>parse\<close> is a fold over the lines that carries
  the parser, the position in the listing and the entries yielded so far.
\<close>

subsection \<open>Lines\<close>

definition MAX_LINE_BYTES :: nat where "MAX_LINE_BYTES = 8192"

abbreviation newline :: char where "newline \<equiv> CHR 0x0A"

text \<open>\<open>handle.readline(n)\<close> and what is left of the file.\<close>

definition readline :: "nat \<Rightarrow> string \<Rightarrow> string \<times> string" where
  "readline n s = (let k = min n (Suc (length (takeWhile (\<lambda>c. c \<noteq> newline) s))) in (take k s, drop k s))"

lemma readline_shorter: "readline n s = (w, t) \<Longrightarrow> w \<noteq> [] \<Longrightarrow> length t < length s"
  by (cases s; cases n) (auto simp: readline_def Let_def split: if_splits)

function discard_line :: "string \<Rightarrow> string" where
  "discard_line s =
     (let (rest, t) = readline MAX_LINE_BYTES s in
      if rest = [] \<or> last rest = newline then t else discard_line t)"
  by pat_completeness auto
termination by (relation "measure length") (auto dest!: readline_shorter [OF sym])

declare discard_line.simps [simp del]

lemma discard_line_shorter: "length (discard_line s) \<le> length s"
proof (induction s rule: discard_line.induct)
  case (1 s)
  obtain w t where r: "readline MAX_LINE_BYTES s = (w, t)" by fastforce
  have "length t \<le> length s" using r by (auto simp: readline_def Let_def)
  with 1 [OF r [symmetric] refl] r show ?case by (subst discard_line.simps) auto
qed

text \<open>The number, the bytes without the newline and whether the line was too long.\<close>

type_synonym line = "nat \<times> string \<times> bool"

function read_lines :: "nat \<Rightarrow> string \<Rightarrow> line list" where
  "read_lines number s =
     (let (chunk, rest) = readline (MAX_LINE_BYTES + 1) s in
      if chunk = [] then []
      else if MAX_LINE_BYTES < length chunk \<and> last chunk \<noteq> newline
      then (number + 1, take MAX_LINE_BYTES chunk, True) # read_lines (number + 1) (discard_line rest)
      else (number + 1, if last chunk = newline then butlast chunk else chunk, False) # read_lines (number + 1) rest)"
  by pat_completeness auto
termination
  by (relation "measure (length o snd)")
    (auto dest!: readline_shorter [OF sym] intro: le_less_trans [OF discard_line_shorter])

declare read_lines.simps [simp del]

text \<open>The lines of the file as such, each cut off at the limit.\<close>

definition file_lines :: "string \<Rightarrow> string list" where
  "file_lines s = (let ls = split_on newline s in if last ls = [] then butlast ls else ls)"

definition bounded_line :: "nat \<times> string \<Rightarrow> line" where
  "bounded_line x = (fst x, take MAX_LINE_BYTES (snd x), MAX_LINE_BYTES < length (snd x))"

subsection \<open>The parser\<close>

datatype line_class = Blank | Header | Directory | FileEntry | Unparsed | DecodeError

definition LINE_CLASSES :: "line_class list" where
  "LINE_CLASSES = [Blank, Header, Directory, FileEntry, Unparsed, DecodeError]"

datatype issue_code = BadDecoding | LineTooLong | BadEntry | BadSizeToken | EmptyName | NotAHeader | DuplicateHeader

definition STRUCTURAL_CODES :: "issue_code list" where
  "STRUCTURAL_CODES = [BadDecoding, LineTooLong, BadEntry, BadSizeToken, EmptyName, NotAHeader]"

definition MAX_LISTED_ISSUES :: nat where "MAX_LISTED_ISSUES = 1000"

record issue =
  is_line :: nat
  is_code :: issue_code
  is_detail :: string

record parser =
  ps_lines :: nat
  ps_classes :: "line_class \<Rightarrow> nat"
  ps_issue_counts :: "(issue_code \<times> nat) list"
  ps_issues :: "issue list"
  ps_headers :: "string list"

definition new_parser :: parser where
  "new_parser = \<lparr>ps_lines = 0, ps_classes = (\<lambda>_. 0), ps_issue_counts = [], ps_issues = [], ps_headers = []\<rparr>"

record entry =
  en_line :: nat
  en_size :: string
  en_directory :: string
  en_name :: string

definition counted :: "line_class \<Rightarrow> parser \<Rightarrow> parser" where
  "counted c p = p\<lparr>ps_classes := (ps_classes p)(c := ps_classes p c + 1)\<rparr>"

definition note_issue :: "nat \<Rightarrow> issue_code \<Rightarrow> string \<Rightarrow> parser \<Rightarrow> parser" where
  "note_issue number code detail p =
     (let p = p\<lparr>ps_issue_counts := AList.update code ((case map_of (ps_issue_counts p) code of None \<Rightarrow> 0 | Some n \<Rightarrow> n) + 1)
                  (ps_issue_counts p)\<rparr>
      in if length (ps_issues p) < MAX_LISTED_ISSUES
         then p\<lparr>ps_issues := ps_issues p @ [\<lparr>is_line = number, is_code = code, is_detail = take 120 detail\<rparr>]\<rparr> else p)"

text \<open>Strict UTF-8: every sequence is whole, and the reason a decoder gives otherwise.\<close>

function utf8_error :: "string \<Rightarrow> string option" where
  "utf8_error [] = None"
| "utf8_error (c # s) =
     (if byte_in 0 0x7F c then utf8_error s
      else let (seq, ok) = utf8_take c s in
        if ok then utf8_error (drop (length seq - 1) s)
        else Some (if utf8_lead c = None then ''invalid start byte''
                   else if drop (length seq - 1) s = [] then ''unexpected end of data'' else ''invalid continuation byte''))"
  by pat_completeness auto
termination by (relation "measure length") auto

definition utf8_valid :: "string \<Rightarrow> bool" where
  "utf8_valid s = (utf8_error s = None)"

definition hex_text :: "string \<Rightarrow> string" where
  "hex_text s = concat (map (\<lambda>c. let n = of_char c :: nat in [hex_digit (n div 16), hex_digit (n mod 16)]) s)"

text \<open>\<open>ENTRY_RE\<close>: the kind, the size token and the name; \<open>SIZE_TOKEN_RE\<close>.\<close>

definition match_entry :: "string \<Rightarrow> (char \<times> string \<times> string) option" where
  "match_entry t =
     (case t of
        k # b # rest \<Rightarrow>
          let token = takeWhile (\<lambda>c. \<not> is_space c) rest in
          if k \<in> set ''d-'' \<and> b = CHR '' '' \<and> token \<noteq> [] \<and> starts_with '' '' (drop (length token) rest)
          then Some (k, token, drop (Suc (length token)) rest) else None
      | _ \<Rightarrow> None)"

definition is_size_token :: "string \<Rightarrow> bool" where
  "is_size_token t =
     (let rest = dropWhile is_digit t;
          rest = (if starts_with ''.'' rest \<and> takeWhile is_digit (tl rest) \<noteq> [] then dropWhile is_digit (tl rest) else rest)
      in takeWhile is_digit t \<noteq> [] \<and> (rest = [] \<or> (length rest = 1 \<and> hd rest \<in> set ''KMGTPE'')))"

text \<open>Where the loop is: the directory of the section, and what the next line has to be.\<close>

record position =
  at_directory :: "string option"
  at_expect_header :: bool
  at_after_header :: bool

definition start_position :: position where
  "start_position = \<lparr>at_directory = None, at_expect_header = True, at_after_header = False\<rparr>"

definition parse_entry :: "nat \<Rightarrow> string \<Rightarrow> string option \<Rightarrow> parser \<Rightarrow> entry option \<times> parser" where
  "parse_entry number t directory p =
     (let bad = (\<lambda>code detail. (None, note_issue number code detail (counted Unparsed p))) in
      case match_entry t of
        None \<Rightarrow> bad BadEntry t
      | Some (kind, token, name) \<Rightarrow>
          if name = [] then bad EmptyName t
          else if \<not> is_size_token token then bad BadSizeToken token
          else case directory of
            None \<Rightarrow> bad BadEntry ''entry outside a valid section''
          | Some dir \<Rightarrow>
              if kind = CHR ''d'' then (None, counted Directory p)
              else (Some \<lparr>en_line = number, en_size = token, en_directory = dir, en_name = name\<rparr>, counted FileEntry p))"

text \<open>A line that cannot be a header where one is expected leaves no valid section.\<close>

definition lost_header :: "position \<Rightarrow> position" where
  "lost_header pos =
     (if at_expect_header pos then pos\<lparr>at_directory := None, at_expect_header := False\<rparr> else pos)"

definition parse_header :: "nat \<Rightarrow> string \<Rightarrow> position \<Rightarrow> parser \<Rightarrow> position \<times> parser" where
  "parse_header number t pos p =
     (let pos = pos\<lparr>at_expect_header := False, at_after_header := False\<rparr>;
          name = (if ends_with '':'' t then Some (butlast t) else None);
          name = (case name of Some n \<Rightarrow> Some (if starts_with ''./'' n then drop 2 n else n) | None \<Rightarrow> None)
      in case name of
        Some (c # cs) \<Rightarrow>
          let n = c # cs; p = counted Header p;
              p = (if n \<in> set (ps_headers p) then note_issue number DuplicateHeader n p else p)
          in (pos\<lparr>at_directory := Some (if n = ''.'' then [] else n), at_after_header := True\<rparr>,
              p\<lparr>ps_headers := n # ps_headers p\<rparr>)
      | _ \<Rightarrow> (pos\<lparr>at_directory := None\<rparr>, note_issue number NotAHeader t (counted Unparsed p)))"

definition parse_line :: "line \<Rightarrow> position \<times> parser \<times> entry list \<Rightarrow> position \<times> parser \<times> entry list" where
  "parse_line read st =
     (let (number, raw, too_long) = read; (pos, p, es) = st; p = p\<lparr>ps_lines := ps_lines p + 1\<rparr> in
      if too_long
      then (lost_header pos, note_issue number LineTooLong (''line exceeds '' @ show_nat MAX_LINE_BYTES @ '' bytes'') (counted Unparsed p), es)
      else if raw = []
      then (if at_after_header pos then pos\<lparr>at_after_header := False\<rparr> else pos\<lparr>at_expect_header := True\<rparr>, counted Blank p, es)
      else case utf8_error raw of
        Some reason \<Rightarrow>
          (lost_header pos, note_issue number BadDecoding (reason @ ''; bytes '' @ hex_text (take 64 raw)) (counted DecodeError p), es)
      | None \<Rightarrow>
          if at_expect_header pos then let (pos, p) = parse_header number raw pos p in (pos, p, es)
          else let (e, p) = parse_entry number raw (at_directory pos) p in
            (pos\<lparr>at_after_header := False\<rparr>, p, case e of None \<Rightarrow> es | Some e \<Rightarrow> es @ [e]))"

definition parse_listing :: "string \<Rightarrow> parser \<times> entry list" where
  "parse_listing raw = snd (fold parse_line (read_lines 0 raw) (start_position, new_parser, []))"

text \<open>\<open>report\<close>; \<open>None\<close> is the accounting error it would raise.\<close>

record parse_report =
  pr_lines :: nat
  pr_classes :: "line_class \<Rightarrow> nat"
  pr_issue_counts :: "(issue_code \<times> nat) list"
  pr_issue_total :: nat
  pr_issues :: "issue list"
  pr_truncated :: bool

definition report :: "parser \<Rightarrow> parse_report option" where
  "report p =
     (let n = sum_list (map snd (ps_issue_counts p)) in
      if sum_list (map (ps_classes p) LINE_CLASSES) \<noteq> ps_lines p then None
      else Some \<lparr>pr_lines = ps_lines p, pr_classes = ps_classes p, pr_issue_counts = ps_issue_counts p,
        pr_issue_total = n, pr_issues = ps_issues p, pr_truncated = (length (ps_issues p) < n)\<rparr>)"

definition structural_issue_total :: "parse_report \<Rightarrow> nat" where
  "structural_issue_total r =
     sum_list (map snd (filter (\<lambda>(code, n). code \<in> set STRUCTURAL_CODES) (pr_issue_counts r)))"

subsection \<open>Identity\<close>

definition segment_safe :: "char \<Rightarrow> bool" where
  "segment_safe c = (is_upper c \<or> is_lower c \<or> is_digit c \<or> c \<in> set ''-._~'')"

definition upper_hex_digit :: "nat \<Rightarrow> char" where
  "upper_hex_digit n = (if n < 10 then char_of (48 + n) else char_of (55 + n))"

definition encode_byte :: "char \<Rightarrow> string" where
  "encode_byte c =
     (let n = of_char c :: nat in
      if segment_safe c then [c] else [CHR ''%'', upper_hex_digit (n div 16), upper_hex_digit (n mod 16)])"

definition encode_segment :: "string \<Rightarrow> string" where
  "encode_segment segment = concat (map encode_byte segment)"

definition control_char :: "char \<Rightarrow> bool" where
  "control_char c = (let n = of_char c :: nat in n < 0x20 \<or> n = 0x7F)"

fun unsafe_segment_reason :: "string list \<Rightarrow> string option" where
  "unsafe_segment_reason [] = None"
| "unsafe_segment_reason (segment # rest) =
     (if segment \<in> {[], ''.'', ''..''} then Some (''unsafe segment '' @ [CHR 0x27] @ segment @ [CHR 0x27])
      else if list_ex control_char segment then Some ''control character in path''
      else unsafe_segment_reason rest)"

definition unsafe_path_reason :: "string \<Rightarrow> string \<Rightarrow> string option" where
  "unsafe_path_reason path name =
     (if CHR ''/'' \<in> set name then Some ''name contains a slash''
      else unsafe_segment_reason (split_on (CHR ''/'') path))"

text \<open>\<open>hostname\<close> and \<open>port\<close> of a network location; \<open>None\<close> for the port is its \<open>ValueError\<close>.\<close>

definition host_and_port :: "string \<Rightarrow> string \<times> string" where
  "host_and_port n =
     (let hostinfo = rev (takeWhile (\<lambda>c. c \<noteq> CHR ''@'') (rev n));
          (_, bracket, bracketed) = py_partition (CHR ''['') hostinfo
      in if bracket
         then let (hostname, _, port) = py_partition (CHR '']'') bracketed;
                  (_, _, port) = py_partition (CHR '':'') port in (hostname, port)
         else let (hostname, _, port) = py_partition (CHR '':'') hostinfo in (hostname, port))"

definition url_port :: "string \<Rightarrow> nat option option" where
  "url_port n =
     (let port = snd (host_and_port n) in
      if port = [] then Some None
      else if is_decimal port \<and> parse_nat port \<le> 65535 then Some (Some (parse_nat port)) else None)"

definition url_fragment :: "string \<Rightarrow> string" where
  "url_fragment u = snd (snd (py_partition (CHR ''#'') (snd (split_netloc (drop_scheme (clean_url u))))))"

text \<open>\<open>s.strip(c)\<close> for one character.\<close>

definition strip_char :: "char \<Rightarrow> string \<Rightarrow> string" where
  "strip_char c s = rev (dropWhile (\<lambda>x. x = c) (rev (dropWhile (\<lambda>x. x = c) s)))"

datatype inventory_error =
    InvalidBaseUrl
  | UnsuitableBaseUrl
  | PolicyError string
  | UnsafeQueueUrl string
  | UrlTwice string
  | BadGeneration
  | TotalsDoNotReconcile
  | DiffDoesNotReconcile
  | NotAccepted
  | SnapshotExists
  | SnapshotChanged
  | NoSnapshotMatches
  | SeveralSnapshotsMatch
  | BadSnapshotPrefix
  | SnapshotTooLarge
  | ParseAccountingError

definition is_ascii_text :: "string \<Rightarrow> bool" where
  "is_ascii_text s = list_all (byte_in 0 0x7F) s"

text \<open>The checks on a URL that \<open>parse_base_url\<close> and \<open>check_queue_url\<close> share.\<close>

definition plain_url :: "string \<Rightarrow> url_parts \<Rightarrow> bool" where
  "plain_url u p =
     (url_scheme u \<in> {''http'', ''https''} \<and> fst (host_and_port (up_netloc p)) \<noteq> [] \<and>
      \<not> username_or_password (up_netloc p) \<and> up_query p = [] \<and> url_fragment u = [] \<and>
      is_ascii_text u \<and> \<not> list_ex is_space u)"

definition parse_base_url :: "string \<Rightarrow> inventory_error + (string \<times> string)" where
  "parse_base_url base_url =
     (case urlsplit base_url of
        None \<Rightarrow> Inl InvalidBaseUrl
      | Some p \<Rightarrow>
          (case url_port (up_netloc p) of
             None \<Rightarrow> Inl InvalidBaseUrl
           | Some port \<Rightarrow>
               let segments = split_on (CHR ''/'') (strip_char (CHR ''/'') (up_path p)) in
               if \<not> plain_url base_url p \<or> port = Some 0 \<or> length segments \<notin> {1, 2} \<or> hd segments = [] \<or>
                  (length segments = 2 \<and> segments ! 1 \<noteq> ''data'') \<or> hd segments \<in> {''.'', ''..''}
               then Inl UnsuitableBaseUrl
               else let prefix = join_with ''/'' segments in
                 Inr (url_scheme base_url @ ''://'' @ up_netloc p @ ''/'' @ prefix, prefix)))"

subsection \<open>The policy\<close>

datatype disposition = Priority | Deferred | Rejected

definition DISPOSITIONS :: "string list" where
  "DISPOSITIONS = [''priority'', ''deferred'', ''rejected'']"

definition disposition_of :: "json \<Rightarrow> disposition option" where
  "disposition_of v =
     (if v = JStr ''priority'' then Some Priority else if v = JStr ''deferred'' then Some Deferred
      else if v = JStr ''rejected'' then Some Rejected else None)"

record rule =
  ru_id :: string
  ru_prefix :: "string list"
  ru_extensions :: "string list"
  ru_names :: "string list"
  ru_disposition :: disposition
  ru_reason :: string

record policy =
  po_version :: string
  po_sha256 :: string
  po_rules :: "rule list"
  po_default :: rule

definition MAX_RULES :: nat where "MAX_RULES = 256"

definition policy_needs :: "bool \<Rightarrow> string \<Rightarrow> (inventory_error + 'a) \<Rightarrow> inventory_error + 'a" where
  "policy_needs condition message rest = (if condition then rest else Inl (PolicyError message))"

definition and_then :: "inventory_error + 'a \<Rightarrow> ('a \<Rightarrow> inventory_error + 'b) \<Rightarrow> inventory_error + 'b" where
  "and_then m f = (case m of Inl x \<Rightarrow> Inl x | Inr v \<Rightarrow> f v)"

text \<open>An object with no other keys than the allowed ones.\<close>

definition check_keys :: "json \<Rightarrow> string list \<Rightarrow> string \<Rightarrow> inventory_error + jobject" where
  "check_keys v allowed place =
     (case v of
        JObj kvs \<Rightarrow>
          let unknown = sort (filter (\<lambda>k. k \<notin> set allowed) (remdups (map fst kvs))) in
          policy_needs (unknown = []) (place @ '' has unknown key(s): '' @ join_with '', '' unknown) (Inr kvs)
      | _ \<Rightarrow> Inl (PolicyError (place @ '' must be an object'')))"

definition policy_outcome :: "jobject \<Rightarrow> string \<Rightarrow> inventory_error + (disposition \<times> string)" where
  "policy_outcome kvs place =
     (case disposition_of (jget kvs ''disposition'') of
        None \<Rightarrow> Inl (PolicyError (place @ ''.disposition must be one of '' @ join_with '', '' DISPOSITIONS))
      | Some d \<Rightarrow>
          (case jget kvs ''reason'' of
             JStr reason \<Rightarrow>
               policy_needs (strip reason \<noteq> []) (place @ ''.reason must be a non-empty string'') (Inr (d, reason))
           | _ \<Rightarrow> Inl (PolicyError (place @ ''.reason must be a non-empty string''))))"

definition string_list :: "jobject \<Rightarrow> string \<Rightarrow> string \<Rightarrow> inventory_error + string list" where
  "string_list match key place =
     (case map_of match key of
        None \<Rightarrow> Inr []
      | Some v \<Rightarrow>
          (case as_ids v of
             None \<Rightarrow> Inl (PolicyError (place @ ''.match.'' @ key @ '' must be a non-empty list of strings''))
           | Some vs \<Rightarrow> Inr vs))"

definition rule_prefix :: "jobject \<Rightarrow> string \<Rightarrow> inventory_error + string list" where
  "rule_prefix match place =
     (case map_of match ''path_prefix'' of
        None \<Rightarrow> Inr []
      | Some v \<Rightarrow>
          policy_needs (is_nonempty_str v) (place @ ''.match.path_prefix must be a string'')
            (let prefix = split_on (CHR ''/'') (case v of JStr s \<Rightarrow> s | _ \<Rightarrow> []) in
             policy_needs (list_all (\<lambda>segment. segment \<notin> {[], ''.'', ''..''}) prefix)
               (place @ ''.match.path_prefix has an empty, '' @ [CHR 0x27] @ ''.'' @ [CHR 0x27] @ '' or '' @
                [CHR 0x27] @ ''..'' @ [CHR 0x27] @ '' segment'') (Inr prefix)))"

definition load_rule :: "json \<Rightarrow> nat \<Rightarrow> string list \<Rightarrow> inventory_error + rule" where
  "load_rule v index ids =
     (let place = ''rules['' @ show_nat index @ '']'' in
      and_then (check_keys v [''id'', ''match'', ''disposition'', ''reason''] place) (\<lambda>kvs.
      let rule_id = jget kvs ''id'' in
      policy_needs (is_nonempty_str rule_id \<and> (case rule_id of JStr t \<Rightarrow> t \<notin> set ids | _ \<Rightarrow> False))
        (place @ ''.id must be a unique non-empty string'')
      (and_then (check_keys (jget kvs ''match'') [''path_prefix'', ''extensions'', ''names''] (place @ ''.match'')) (\<lambda>match.
       policy_needs (match \<noteq> []) (place @ ''.match must not be empty'')
      (and_then (rule_prefix match place) (\<lambda>prefix.
       and_then (string_list match ''extensions'' place) (\<lambda>extensions.
       policy_needs (list_all (\<lambda>e. starts_with ''.'' e \<and> 1 < length e \<and> e = str_lower e) extensions)
         (place @ ''.match.extensions must be lowercase and start with '' @ [CHR 0x27] @ ''.'' @ [CHR 0x27])
      (and_then (string_list match ''names'' place) (\<lambda>names.
       and_then (policy_outcome kvs place) (\<lambda>(d, reason).
       Inr \<lparr>ru_id = (case rule_id of JStr t \<Rightarrow> t | _ \<Rightarrow> []), ru_prefix = prefix, ru_extensions = extensions,
            ru_names = map str_lower names, ru_disposition = d, ru_reason = reason\<rparr>))))))))))"

fun load_rules :: "json list \<Rightarrow> nat \<Rightarrow> rule list \<Rightarrow> inventory_error + rule list" where
  "load_rules [] index rules = Inr rules"
| "load_rules (v # vs) index rules =
     and_then (load_rule v index (map ru_id rules)) (\<lambda>r. load_rules vs (Suc index) (rules @ [r]))"

text \<open>\<open>raw\<close> is what the file holds, \<open>parsed\<close> its JSON value if it has one.\<close>

definition load_policy :: "(string \<Rightarrow> string) \<Rightarrow> string \<Rightarrow> json option \<Rightarrow> inventory_error + policy" where
  "load_policy sha raw parsed =
     (case parsed of
        None \<Rightarrow> Inl (PolicyError ''cannot read'')
      | Some v \<Rightarrow>
          and_then (check_keys v [''policy_version'', ''rules'', ''default''] ''policy'') (\<lambda>kvs.
          policy_needs (is_nonempty_str (jget kvs ''policy_version'')) ''policy_version must be a non-empty string''
          (and_then
            (case jget kvs ''rules'' of
               JArr vs \<Rightarrow> if length vs \<le> MAX_RULES then Inr vs
                 else Inl (PolicyError (''rules must be a list of at most '' @ show_nat MAX_RULES @ '' rules''))
             | _ \<Rightarrow> Inl (PolicyError (''rules must be a list of at most '' @ show_nat MAX_RULES @ '' rules''))) (\<lambda>vs.
           and_then (load_rules vs 0 []) (\<lambda>rules.
           and_then (check_keys (jget kvs ''default'') [''disposition'', ''reason''] ''default'') (\<lambda>fallback.
           and_then (policy_outcome fallback ''default'') (\<lambda>(d, reason).
           Inr \<lparr>po_version = (case jget kvs ''policy_version'' of JStr t \<Rightarrow> t | _ \<Rightarrow> []), po_sha256 = sha raw, po_rules = rules,
                po_default = \<lparr>ru_id = ''default'', ru_prefix = [], ru_extensions = [], ru_names = [],
                  ru_disposition = d, ru_reason = reason\<rparr>\<rparr>)))))))"

definition rule_matches :: "rule \<Rightarrow> string \<Rightarrow> string \<Rightarrow> bool" where
  "rule_matches r path name =
     ((ru_prefix r = [] \<or> take (length (ru_prefix r)) (split_on (CHR ''/'') path) = ru_prefix r) \<and>
      (ru_extensions r = [] \<or> list_ex (\<lambda>e. ends_with e (str_lower name)) (ru_extensions r)) \<and>
      (ru_names r = [] \<or> str_lower name \<in> set (ru_names r)))"

fun classify_from :: "nat \<Rightarrow> rule list \<Rightarrow> rule \<Rightarrow> string \<Rightarrow> string \<Rightarrow> nat \<times> rule" where
  "classify_from rank [] fallback path name = (rank, fallback)"
| "classify_from rank (r # rs) fallback path name =
     (if rule_matches r path name then (rank, r) else classify_from (Suc rank) rs fallback path name)"

definition classify :: "policy \<Rightarrow> string \<Rightarrow> string \<Rightarrow> nat \<times> rule" where
  "classify po path name = classify_from 0 (po_rules po) (po_default po) path name"

subsection \<open>The line reader reads the lines\<close>

lemma takeWhile_line:
  assumes "newline \<notin> set l"
  shows "takeWhile (\<lambda>c. c \<noteq> newline) (l @ newline # r) = l" and "takeWhile (\<lambda>c. c \<noteq> newline) l = l"
  using assms by (induction l) auto

lemma readline_line:
  assumes "newline \<notin> set l"
  shows "readline n (l @ newline # r) = (if length l < n then (l @ [newline], r) else (take n l, drop n l @ newline # r))"
    and "readline n l = (take n l, drop n l)"
proof -
  show "readline n (l @ newline # r) = (if length l < n then (l @ [newline], r) else (take n l, drop n l @ newline # r))"
  proof (cases "length l < n")
    case True
    then have "min n (Suc (length l)) = Suc (length l)" by simp
    with True assms show ?thesis by (simp add: readline_def takeWhile_line)
  next
    case False
    then have "min n (Suc (length l)) = n" by simp
    with False assms show ?thesis by (simp add: readline_def takeWhile_line)
  qed
  show "readline n l = (take n l, drop n l)"
    using assms by (cases "n \<le> Suc (length l)") (simp_all add: readline_def takeWhile_line min_def)
qed

lemma file_lines_simps:
  "file_lines [] = []"
  "newline \<notin> set l \<Longrightarrow> file_lines (l @ newline # r) = l # file_lines r"
  "newline \<notin> set l \<Longrightarrow> l \<noteq> [] \<Longrightarrow> file_lines l = [l]"
  by (auto simp: file_lines_def Let_def split_on_append split_on_word)

lemma last_take_line: "newline \<notin> set l \<Longrightarrow> take k l \<noteq> [] \<Longrightarrow> last (take k l) \<noteq> newline"
  by (metis in_set_takeD last_in_set)

lemma discard_step:
  "readline MAX_LINE_BYTES s = (w, t) \<Longrightarrow> discard_line s = (if w = [] \<or> last w = newline then t else discard_line t)"
  by (subst discard_line.simps) simp

lemma read_step:
  "readline (MAX_LINE_BYTES + 1) s = (w, t) \<Longrightarrow> read_lines n s =
     (if w = [] then []
      else if MAX_LINE_BYTES < length w \<and> last w \<noteq> newline
      then (n + 1, take MAX_LINE_BYTES w, True) # read_lines (n + 1) (discard_line t)
      else (n + 1, if last w = newline then butlast w else w, False) # read_lines (n + 1) t)"
  by (subst read_lines.simps) simp

lemma MAX_LINE_BYTES_pos: "0 < MAX_LINE_BYTES"
  by (simp add: MAX_LINE_BYTES_def)

lemma discard_line_nil: "discard_line [] = []"
  by (simp add: discard_step [OF readline_line(2)])

lemma discard_line_rest:
  assumes "newline \<notin> set l"
  shows "discard_line (l @ newline # r) = r \<and> discard_line l = []"
  using assms
proof (induction "length l" arbitrary: l rule: less_induct)
  case less
  let ?w = "take MAX_LINE_BYTES l" and ?t = "drop MAX_LINE_BYTES l"
  have t: "newline \<notin> set ?t" using less.prems by (meson in_set_dropD)
  have step: "discard_line l = (if ?w = [] then ?t else discard_line ?t)"
    using discard_step [OF readline_line(2) [OF less.prems]] last_take_line [OF less.prems] by auto
  show ?case
  proof (cases "length l < MAX_LINE_BYTES")
    case True
    then have "readline MAX_LINE_BYTES (l @ newline # r) = (l @ [newline], r)"
      using readline_line(1) [OF less.prems] by simp
    from discard_step [OF this] True step show ?thesis by (simp add: discard_line_nil)
  next
    case False
    then have "readline MAX_LINE_BYTES (l @ newline # r) = (?w, ?t @ newline # r)" and w: "?w \<noteq> []"
      using readline_line(1) [OF less.prems] MAX_LINE_BYTES_pos by auto
    from discard_step [OF this(1)] w last_take_line [OF less.prems w]
    have "discard_line (l @ newline # r) = discard_line (?t @ newline # r)" by simp
    moreover have "length ?t < length l" using False MAX_LINE_BYTES_pos by auto
    ultimately show ?thesis using less.hyps [OF _ t] step w by simp
  qed
qed

lemma read_lines_line:
  assumes "newline \<notin> set l"
  shows "read_lines n (l @ newline # r) = bounded_line (Suc n, l) # read_lines (Suc n) r"
proof (cases "length l \<le> MAX_LINE_BYTES")
  case True
  then have "readline (MAX_LINE_BYTES + 1) (l @ newline # r) = (l @ [newline], r)"
    using readline_line(1) [OF assms] by simp
  from read_step [OF this] True show ?thesis by (simp add: bounded_line_def)
next
  case False
  let ?w = "take (MAX_LINE_BYTES + 1) l"
  from False have "readline (MAX_LINE_BYTES + 1) (l @ newline # r) = (?w, drop (MAX_LINE_BYTES + 1) l @ newline # r)"
    using readline_line(1) [OF assms] by simp
  note step = read_step [OF this, of n]
  have w: "?w \<noteq> []" "MAX_LINE_BYTES < length ?w" "take MAX_LINE_BYTES ?w = take MAX_LINE_BYTES l" using False by (auto simp: min_def)
  have "newline \<notin> set (drop (MAX_LINE_BYTES + 1) l)" using assms by (meson in_set_dropD)
  from step w last_take_line [OF assms w(1)] discard_line_rest [OF this] False show ?thesis
    by (simp add: bounded_line_def)
qed

lemma read_lines_nil: "read_lines n [] = []"
  by (simp add: read_step [OF readline_line(2)])

lemma read_lines_last:
  assumes "newline \<notin> set l" and "l \<noteq> []"
  shows "read_lines n l = [bounded_line (Suc n, l)]"
proof -
  let ?w = "take (MAX_LINE_BYTES + 1) l" and ?t = "drop (MAX_LINE_BYTES + 1) l"
  have w: "?w \<noteq> []" using assms(2) by simp
  have "newline \<notin> set ?t" using assms(1) by (meson in_set_dropD)
  note rest = discard_line_rest [OF this]
  show ?thesis
  proof (cases "length l \<le> MAX_LINE_BYTES")
    case True
    then show ?thesis using read_step [OF readline_line(2) [OF assms(1)], of n] last_take_line [OF assms(1) w] assms(2)
      by (simp add: bounded_line_def read_lines_nil)
  next
    case False
    then have "MAX_LINE_BYTES < length ?w" "take MAX_LINE_BYTES ?w = take MAX_LINE_BYTES l" by (auto simp: min_def)
    with False show ?thesis
      using read_step [OF readline_line(2) [OF assms(1)], of n] last_take_line [OF assms(1) w] w rest
      by (simp add: bounded_line_def read_lines_nil)
  qed
qed

lemma split_line: obtains l r where "s = l @ newline # r" "newline \<notin> set l" | "newline \<notin> set (s::string)"
  by (meson split_list_first)

text \<open>
  The bounded reader loses no line.  Whatever the file holds, \<open>read_lines\<close> yields exactly the
  lines of the file, in order and numbered from 1: each one as it is when it fits into 8192 bytes,
  and otherwise its first 8192 bytes with the mark of a line that was too long.
\<close>

theorem read_lines_are_the_lines:
  "read_lines n s = map bounded_line (List.enumerate (Suc n) (file_lines s))"
proof (induction "length s" arbitrary: n s rule: less_induct)
  case less
  show ?case
  proof (rule split_line [of s])
    fix l r assume s: "s = l @ newline # r" "newline \<notin> set l"
    then have "length r < length s" by simp
    with less s show ?thesis by (simp add: read_lines_line file_lines_simps)
  next
    assume "newline \<notin> set s"
    then show ?thesis by (cases "s = []") (simp_all add: read_lines_nil read_lines_last file_lines_simps)
  qed
qed

subsection \<open>Every line is accounted for\<close>

definition issue_sum :: "(issue_code \<Rightarrow> bool) \<Rightarrow> (issue_code \<times> nat) list \<Rightarrow> nat" where
  "issue_sum P cs = sum_list (map snd (filter (\<lambda>x. P (fst x)) cs))"

lemma issue_sum_update:
  "issue_sum P (AList.update k ((case map_of cs k of None \<Rightarrow> 0 | Some n \<Rightarrow> n) + 1) cs) =
     issue_sum P cs + (if P k then 1 else 0)"
  by (induction cs) (auto simp: issue_sum_def)

lemma issue_sum_note:
  "issue_sum P (ps_issue_counts (note_issue n k d p)) = issue_sum P (ps_issue_counts p) + (if P k then 1 else 0)"
  using issue_sum_update [of P k "ps_issue_counts p"] by (simp add: note_issue_def Let_def)

lemma note_issue_frames [simp]:
  "ps_lines (note_issue n k d p) = ps_lines p" "ps_classes (note_issue n k d p) = ps_classes p"
  "ps_headers (note_issue n k d p) = ps_headers p"
  "ps_lines (counted c p) = ps_lines p" "ps_issue_counts (counted c p) = ps_issue_counts p"
  "ps_issues (counted c p) = ps_issues p" "ps_headers (counted c p) = ps_headers p"
  "ps_classes (counted c p) = (ps_classes p)(c := ps_classes p c + 1)"
  by (simp_all add: note_issue_def counted_def Let_def)

definition accounted :: "nat \<Rightarrow> parser \<Rightarrow> entry list \<Rightarrow> bool" where
  "accounted n p es \<longleftrightarrow>
     ps_lines p = n \<and> sum_list (map (ps_classes p) LINE_CLASSES) = n \<and>
     issue_sum (\<lambda>c. c \<in> set STRUCTURAL_CODES) (ps_issue_counts p) = ps_classes p Unparsed + ps_classes p DecodeError \<and>
     length (ps_issues p) = min MAX_LISTED_ISSUES (issue_sum (\<lambda>_. True) (ps_issue_counts p)) \<and>
     length es = ps_classes p FileEntry \<and> sorted_wrt (<) (map en_line es) \<and> (\<forall>e \<in> set es. 0 < en_line e \<and> en_line e \<le> n)"

lemma listed_issue:
  "length (ps_issues p) = min MAX_LISTED_ISSUES (issue_sum (\<lambda>_. True) (ps_issue_counts p)) \<Longrightarrow>
    length (ps_issues (note_issue n k d p)) = min MAX_LISTED_ISSUES (issue_sum (\<lambda>_. True) (ps_issue_counts (note_issue n k d p)))"
  using issue_sum_note [of "\<lambda>_. True" n k d p] by (auto simp: note_issue_def Let_def)

text \<open>What one line adds: one class, and one structural issue exactly in the two bad classes.\<close>

definition adds :: "line_class \<Rightarrow> bool \<Rightarrow> parser \<Rightarrow> parser \<Rightarrow> bool" where
  "adds c bad p q \<longleftrightarrow>
     ps_lines q = ps_lines p \<and> ps_classes q = (ps_classes p)(c := ps_classes p c + 1) \<and> (bad \<longleftrightarrow> c \<in> {Unparsed, DecodeError}) \<and>
     issue_sum (\<lambda>c. c \<in> set STRUCTURAL_CODES) (ps_issue_counts q) =
       issue_sum (\<lambda>c. c \<in> set STRUCTURAL_CODES) (ps_issue_counts p) + (if bad then 1 else 0) \<and>
     (length (ps_issues p) = min MAX_LISTED_ISSUES (issue_sum (\<lambda>_. True) (ps_issue_counts p)) \<longrightarrow>
      length (ps_issues q) = min MAX_LISTED_ISSUES (issue_sum (\<lambda>_. True) (ps_issue_counts q)))"

lemma adds_plain: "c \<notin> {Unparsed, DecodeError} \<Longrightarrow> adds c False p (counted c p)"
  by (simp add: adds_def)

lemma adds_bad: "c \<in> {Unparsed, DecodeError} \<Longrightarrow> k \<in> set STRUCTURAL_CODES \<Longrightarrow> adds c True p (note_issue n k d (counted c p))"
  using listed_issue [of "counted c p" n k d] by (simp add: adds_def issue_sum_note)

lemma adds_frame: "adds c b p q \<Longrightarrow> adds c b p (q\<lparr>ps_headers := h\<rparr>)"
  by (simp add: adds_def)

lemma adds_duplicate: "c \<notin> {Unparsed, DecodeError} \<Longrightarrow> adds c False p (note_issue n DuplicateHeader d (counted c p))"
  using listed_issue [of "counted c p" n DuplicateHeader d] by (simp add: adds_def issue_sum_note STRUCTURAL_CODES_def)

text \<open>Exactly the lines of class \<open>file\<close> yield an entry, with their number.\<close>

definition yields :: "nat \<Rightarrow> line_class \<Rightarrow> entry option \<Rightarrow> bool" where
  "yields n c e \<longleftrightarrow> (case e of None \<Rightarrow> c \<noteq> FileEntry | Some x \<Rightarrow> en_line x = n \<and> c = FileEntry)"

definition one_class :: "nat \<Rightarrow> entry option \<Rightarrow> parser \<Rightarrow> parser \<Rightarrow> bool" where
  "one_class n e p q \<longleftrightarrow> (\<exists>c b. adds c b p q \<and> yields n c e)"

lemma one_class_intros:
  "k \<in> set STRUCTURAL_CODES \<Longrightarrow> one_class n None p (note_issue n' k d (counted Unparsed p))"
  "k \<in> set STRUCTURAL_CODES \<Longrightarrow> one_class n None p (note_issue n' k d (counted DecodeError p))"
  "one_class n None p (counted Directory p)" "one_class n None p (counted Blank p)"
  "en_line x = n \<Longrightarrow> one_class n (Some x) p (counted FileEntry p)"
  "one_class n None p ((counted Header p)\<lparr>ps_headers := h\<rparr>)"
  "one_class n None p ((note_issue n' DuplicateHeader d (counted Header p))\<lparr>ps_headers := h\<rparr>)"
  unfolding one_class_def
  by (rule exI [of _ Unparsed] exI [of _ DecodeError] exI [of _ Directory] exI [of _ Blank] exI [of _ FileEntry] exI [of _ Header],
      rule exI, rule conjI, (rule adds_bad adds_plain adds_frame adds_duplicate | simp)+, simp add: yields_def)+

lemma parse_entry_adds: "parse_entry n t dir p = (e, q) \<Longrightarrow> one_class n e p q"
  by (auto simp: parse_entry_def Let_def STRUCTURAL_CODES_def split: option.splits if_splits intro!: one_class_intros)

lemma parse_header_adds: "parse_header n t pos p = (pos', q) \<Longrightarrow> one_class n None p q"
  by (auto simp: parse_header_def Let_def STRUCTURAL_CODES_def split: option.splits list.splits if_splits intro!: one_class_intros)

lemma accounted_adds:
  assumes "accounted n p es" and "one_class (n + 1) e (p\<lparr>ps_lines := n + 1\<rparr>) q"
  shows "accounted (n + 1) q (case e of None \<Rightarrow> es | Some x \<Rightarrow> es @ [x])"
proof -
  from assms(2) obtain c b where a: "adds c b (p\<lparr>ps_lines := n + 1\<rparr>) q" and y: "yields (n + 1) c e"
    by (auto simp: one_class_def)
  have "sum_list (map ((ps_classes p)(c := ps_classes p c + 1)) LINE_CLASSES) = Suc (sum_list (map (ps_classes p) LINE_CLASSES))"
    by (cases c) (simp_all add: LINE_CLASSES_def)
  moreover have "((ps_classes p)(c := ps_classes p c + 1)) Unparsed + ((ps_classes p)(c := ps_classes p c + 1)) DecodeError =
      ps_classes p Unparsed + ps_classes p DecodeError + (if b then 1 else 0)"
    using a by (auto simp: adds_def)
  ultimately show ?thesis
    using assms(1) a y
    by (auto simp: accounted_def adds_def yields_def sorted_wrt_append less_Suc_eq_le le_SucI split: option.splits)
qed

lemma parse_line_accounted:
  assumes "accounted n p es" and "parse_line (n + 1, raw, too_long) (pos, p, es) = (pos', q, es')"
  shows "accounted (n + 1) q es'"
proof -
  let ?p = "p\<lparr>ps_lines := n + 1\<rparr>"
  have n: "ps_lines p = n" using assms(1) by (simp add: accounted_def)
  have "\<exists>e. one_class (n + 1) e ?p q \<and> es' = (case e of None \<Rightarrow> es | Some x \<Rightarrow> es @ [x])"
  proof (cases "too_long \<or> raw = [] \<or> utf8_error raw \<noteq> None \<or> at_expect_header pos")
    case True
    with assms(2) have "one_class (n + 1) None ?p q \<and> es' = es"
      unfolding parse_line_def Let_def prod.case n
      by (auto simp: STRUCTURAL_CODES_def split: if_splits option.splits prod.splits
          intro!: one_class_intros dest: parse_header_adds)
    then show ?thesis by (intro exI [of _ None]) simp
  next
    case False
    obtain e q' where e: "parse_entry (n + 1) raw (at_directory pos) ?p = (e, q')" by fastforce
    with False assms(2) have "q' = q" "es' = (case e of None \<Rightarrow> es | Some e \<Rightarrow> es @ [e])"
      unfolding parse_line_def Let_def prod.case n by auto
    with parse_entry_adds [OF e] show ?thesis by blast
  qed
  with accounted_adds [OF assms(1)] show ?thesis by blast
qed

lemma parse_lines_accounted:
  "accounted n p es \<Longrightarrow> fold parse_line (map bounded_line (List.enumerate (Suc n) ls)) (pos, p, es) = (pos', q, es') \<Longrightarrow>
    accounted (n + length ls) q es'"
proof (induction ls arbitrary: n pos p es)
  case (Cons l ls)
  obtain pos1 p1 es1 where s: "parse_line (bounded_line (Suc n, l)) (pos, p, es) = (pos1, p1, es1)" by (metis prod_cases3)
  then have "accounted (Suc n) p1 es1" using parse_line_accounted [OF Cons.prems(1)] by (simp add: bounded_line_def)
  from Cons.IH [OF this] Cons.prems(2) s show ?case by simp
qed simp

text \<open>
  C24: the parser accounts for every line.  Whatever bytes the listing holds, \<open>report\<close> never
  raises its accounting error; the line total is the number of lines of the file, one entry is
  yielded for each line of class \<open>file\<close>, in increasing line order; the structural issues, which
  decide acceptance, are exactly the lines that were not understood; and at most 1000 are listed.
\<close>

theorem every_line_is_accounted:
  assumes "parse_listing raw = (p, es)"
  shows "\<exists>r. report p = Some r \<and> pr_lines r = length (file_lines raw) \<and> length es = pr_classes r FileEntry \<and>
    sorted_wrt (<) (map en_line es) \<and> (\<forall>e \<in> set es. 0 < en_line e \<and> en_line e \<le> pr_lines r) \<and>
    structural_issue_total r = pr_classes r Unparsed + pr_classes r DecodeError \<and>
    length (pr_issues r) = min 1000 (pr_issue_total r)"
proof -
  have "accounted 0 new_parser []"
    by (simp add: accounted_def new_parser_def LINE_CLASSES_def issue_sum_def)
  moreover obtain pos where "fold parse_line (map bounded_line (List.enumerate (Suc 0) (file_lines raw))) (start_position, new_parser, []) = (pos, p, es)"
    using assms unfolding parse_listing_def read_lines_are_the_lines by (metis prod.collapse)
  ultimately have a: "accounted (length (file_lines raw)) p es" using parse_lines_accounted by fastforce
  have "structural_issue_total r = issue_sum (\<lambda>c. c \<in> set STRUCTURAL_CODES) (pr_issue_counts r)" for r
    by (simp add: structural_issue_total_def issue_sum_def case_prod_beta')
  with a show ?thesis
    by (simp add: accounted_def report_def Let_def MAX_LISTED_ISSUES_def issue_sum_def)
qed

definition example_listing :: string where
  "example_listing = ''./a b:'' @ [newline, newline] @ ''- 1.5K x y.bin'' @ [newline] @ ''d 4K sub'' @ [newline] @
     ''- huge z'' @ [newline] @ [CHR 0xFF]"

text \<open>A listing without long lines.\<close>

definition parse_short :: "string \<Rightarrow> parser \<times> entry list" where
  "parse_short raw = snd (fold parse_line (map (\<lambda>x. (fst x, snd x, False)) (List.enumerate 1 (file_lines raw))) (start_position, new_parser, []))"

lemma bounded_short:
  "list_all (\<lambda>l. length l \<le> MAX_LINE_BYTES) ls \<Longrightarrow>
    map bounded_line (List.enumerate n ls) = map (\<lambda>x. (fst x, snd x, False)) (List.enumerate n ls)"
  by (induction ls arbitrary: n) (auto simp: bounded_line_def)

lemma parse_listing_short:
  assumes "list_all (\<lambda>l. length l \<le> MAX_LINE_BYTES) (file_lines raw)"
  shows "parse_listing raw = parse_short raw"
  unfolding parse_listing_def parse_short_def read_lines_are_the_lines One_nat_def
  by (simp only: bounded_short [OF assms])

lemma example_listing_lines:
  "file_lines example_listing = [''./a b:'', [], ''- 1.5K x y.bin'', ''d 4K sub'', ''- huge z'', [CHR 0xFF]]"
  by code_simp

lemma example_listing_short: "parse_listing example_listing = parse_short example_listing"
  by (rule parse_listing_short) (simp add: example_listing_lines MAX_LINE_BYTES_def)

lemma example_listing_parses:
  "map (\<lambda>e. (en_line e, en_size e, en_directory e, en_name e)) (snd (parse_listing example_listing)) = [(3, ''1.5K'', ''a b'', ''x y.bin'')]"
  "map_option (\<lambda>r. (pr_lines r, map (pr_classes r) LINE_CLASSES, map is_code (pr_issues r))) (report (fst (parse_listing example_listing))) =
     Some (6, [1, 1, 1, 1, 1, 1], [BadSizeToken, BadDecoding])"
  unfolding example_listing_short by code_simp+

theorem every_line_is_accounted_witness:
  "\<exists>r. report (fst (parse_listing example_listing)) = Some r \<and> pr_lines r = length (file_lines example_listing) \<and>
     structural_issue_total r = 2 \<and> length (pr_issues r) = 2"
proof -
  from example_listing_parses(2) obtain r where r: "report (fst (parse_listing example_listing)) = Some r"
    and f: "map (pr_classes r) LINE_CLASSES = [1, 1, 1, 1, 1, 1]" "map is_code (pr_issues r) = [BadSizeToken, BadDecoding]"
    by (cases "report (fst (parse_listing example_listing))") (simp_all del: One_nat_def map_eq_Cons_conv)
  have run: "parse_listing example_listing = (fst (parse_listing example_listing), snd (parse_listing example_listing))" by simp
  have "length (pr_issues r) = 2" using f(2) by (metis length_map length_Cons list.size(3) numeral_2_eq_2)
  with every_line_is_accounted [OF run] r f show ?thesis by (auto simp: LINE_CLASSES_def)
qed

subsection \<open>Percent-encoding\<close>

lemma upper_hex: "n < 16 \<Longrightarrow> hex_value (upper_hex_digit n) = n \<and> is_hex (upper_hex_digit n) \<and> segment_safe (upper_hex_digit n)"
proof -
  assume "n < 16"
  then have "n = 0 \<or> n = 1 \<or> n = 2 \<or> n = 3 \<or> n = 4 \<or> n = 5 \<or> n = 6 \<or> n = 7 \<or> n = 8 \<or> n = 9 \<or> n = 10 \<or> n = 11 \<or>
      n = 12 \<or> n = 13 \<or> n = 14 \<or> n = 15" by (simp add: less_Suc_eq numeral_eq_Suc)
  then show ?thesis
    by (elim disjE) (simp_all add: upper_hex_digit_def hex_value_def is_hex_def is_lower_hex_def is_digit_def lower_char_def
        segment_safe_def is_upper_def)
qed

lemma safe_ascii: "segment_safe c \<Longrightarrow> byte_in 0 0x7F c \<and> c \<noteq> CHR ''%''"
  by (auto simp: segment_safe_def is_upper_def is_lower_def is_digit_def byte_in_def Let_def)

lemma encode_segment_Cons: "encode_segment (c # s) = encode_byte c @ encode_segment s"
  by (simp add: encode_segment_def)

lemma encode_byte_cases:
  obtains "segment_safe c" "encode_byte c = [c]"
  | "\<not> segment_safe c" "encode_byte c = [CHR ''%'', upper_hex_digit (of_char c div 16), upper_hex_digit (of_char c mod 16)]"
  by (auto simp: encode_byte_def Let_def)

lemma char_parts: "(of_char c :: nat) div 16 < 16" "char_of (16 * ((of_char c :: nat) div 16) + of_char c mod 16) = c"
proof -
  have "(of_char c :: nat) < 256" by simp
  then show "(of_char c :: nat) div 16 < 16" by linarith
  have "16 * ((of_char c :: nat) div 16) + of_char c mod 16 = of_char c" by simp
  then show "char_of (16 * ((of_char c :: nat) div 16) + of_char c mod 16) = c" by (simp only: char_of_char)
qed

lemma unquote_plain: "p \<noteq> CHR ''%'' \<or> CHR ''%'' \<noteq> p \<Longrightarrow> unquote_to_bytes (p # s) = p # unquote_to_bytes s"
  by (cases s; cases "tl s") auto

lemma unquote_encoded: "unquote_to_bytes (encode_segment s) = s"
proof (induction s)
  case (Cons c s)
  show ?case
  proof (cases rule: encode_byte_cases [of c])
    case 1
    with Cons show ?thesis by (simp add: encode_segment_Cons unquote_plain safe_ascii)
  next
    case 2
    have "hex_value (upper_hex_digit (of_char c div 16)) = of_char c div 16" "is_hex (upper_hex_digit (of_char c div 16))"
      "hex_value (upper_hex_digit (of_char c mod 16)) = of_char c mod 16" "is_hex (upper_hex_digit (of_char c mod 16))"
      using upper_hex char_parts(1) by auto
    with 2 Cons show ?thesis by (simp add: encode_segment_Cons char_parts(2))
  qed
qed (simp add: encode_segment_def)

lemma encode_injective: "encode_segment s = encode_segment t \<Longrightarrow> s = t"
  by (metis unquote_encoded)

definition url_char :: "char \<Rightarrow> bool" where
  "url_char c = (segment_safe c \<or> c = CHR ''%'')"

lemma encode_chars: "c \<in> set (encode_segment s) \<Longrightarrow> url_char c"
proof (induction s)
  case (Cons x s)
  have "url_char c" if "c \<in> set (encode_byte x)"
    using that upper_hex char_parts(1) by (cases rule: encode_byte_cases [of x]) (auto simp: url_char_def)
  with Cons show ?case by (auto simp: encode_segment_Cons)
qed (simp add: encode_segment_def)

lemma url_char_facts:
  assumes "url_char c"
  shows "byte_in 0 0x7F c" "\<not> is_space c" "c \<notin> set ''/?#@:[]'' \<and> 32 < (of_char c :: nat)"
  using assms by (auto simp: url_char_def segment_safe_def is_upper_def is_lower_def is_digit_def byte_in_def is_space_def Let_def)

lemma encode_nonempty: "encode_segment s = [] \<longleftrightarrow> s = []"
  by (metis encode_injective encode_segment_def list.simps(8) concat.simps(1))

text \<open>Valid text decodes to itself.\<close>

lemma takeWhile_all: "length (takeWhile P (take k t)) = k \<Longrightarrow> takeWhile P (take k t) = take k t"
  by (metis take_take min.idem takeWhile_eq_take)

lemma utf8_take_length:
  assumes "utf8_take c s = (seq, True)"
  shows "seq = c # take (length seq - 1) s \<and> 1 < length seq"
proof -
  from assms obtain d t k where s: "s = d # t" and w: "seq = c # d # takeWhile (byte_in 0x80 0xBF) (take k t)"
    "length (takeWhile (byte_in 0x80 0xBF) (take k t)) = k"
    by (auto simp: utf8_take_def Let_def split: option.splits list.splits if_splits)
  from takeWhile_all [OF w(2)] w have "seq = c # d # take k t" "length (take k t) = k" by metis+
  with s show ?thesis by simp
qed

lemma utf8_replace_valid: "utf8_valid s \<Longrightarrow> utf8_replace s = s"
proof (induction s rule: utf8_error.induct)
  case (2 c s)
  show ?case
  proof (cases "byte_in 0 0x7F c")
    case True
    with 2 show ?thesis by (simp add: utf8_valid_def)
  next
    case False
    obtain seq ok where t: "utf8_take c s = (seq, ok)" by fastforce
    with 2(3) False have ok: ok "utf8_valid (drop (length seq - 1) s)" by (auto simp: utf8_valid_def split: if_splits)
    from utf8_take_length t ok have "seq = c # take (length seq - 1) s" by simp
    with 2(2) [OF False t [symmetric] refl] False t ok show ?thesis by simp (metis append_Cons append_take_drop_id)
  qed
qed simp

lemma unquote_encode:
  assumes "utf8_valid s"
  shows "unquote (encode_segment s) = s"
proof (cases "encode_segment s")
  case Nil
  then show ?thesis using encode_nonempty [of s] by (simp add: unquote_def encode_segment_def)
next
  case (Cons x xs)
  have ascii: "list_all (byte_in 0 0x7F) (encode_segment s)" using encode_chars url_char_facts(1) by (auto simp: list_all_iff)
  then have x: "byte_in 0 0x7F x" "takeWhile (byte_in 0 0x7F) xs = xs" "dropWhile (byte_in 0 0x7F) xs = []"
    using Cons by (auto simp: list_all_iff takeWhile_eq_all_conv)
  have "unquote_runs (encode_segment s) = s"
    using unquote_encoded [of s] utf8_replace_valid [OF assms] x(1) unfolding Cons unquote_runs.simps(2) x(2,3) by simp
  moreover have "encode_segment s = s" if "CHR ''%'' \<notin> set (encode_segment s)"
  proof -
    have "unquote_to_bytes w = w" if "CHR ''%'' \<notin> set w" for w using that by (induction w) (auto simp: unquote_plain)
    from this [OF that] unquote_encoded [of s] show ?thesis by simp
  qed
  ultimately show ?thesis by (auto simp: unquote_def)
qed

subsection \<open>What an entry is made of\<close>

lemma utf8_lead_range: "utf8_lead c = Some (lo, hi, k) \<Longrightarrow> 0x80 \<le> lo"
  by (auto simp: utf8_lead_def split: if_splits)

lemma utf8_take_parts:
  "utf8_take c s = (seq, True) \<longleftrightarrow>
     (\<exists>lo hi k d t. utf8_lead c = Some (lo, hi, k) \<and> s = d # t \<and> byte_in lo hi d \<and> seq = c # d # take k t \<and>
        length (take k t) = k \<and> (\<forall>x \<in> set (take k t). byte_in 0x80 0xBF x))" (is "?l \<longleftrightarrow> ?r")
proof
  assume ?l
  then obtain lo hi k d t where t: "utf8_lead c = Some (lo, hi, k)" "s = d # t" "byte_in lo hi d"
    "seq = c # d # takeWhile (byte_in 0x80 0xBF) (take k t)" "length (takeWhile (byte_in 0x80 0xBF) (take k t)) = k"
    by (auto simp: utf8_take_def Let_def split: option.splits list.splits if_splits)
  from takeWhile_all [OF t(5)] t show ?r by (metis takeWhile_eq_all_conv)
next
  assume ?r
  then obtain lo hi k d t where t: "utf8_lead c = Some (lo, hi, k)" "s = d # t" "byte_in lo hi d" "seq = c # d # take k t"
    "length (take k t) = k" "\<forall>x \<in> set (take k t). byte_in 0x80 0xBF x" by blast
  from t(6) have w: "takeWhile (byte_in 0x80 0xBF) (take k t) = take k t" by (simp add: takeWhile_eq_all_conv)
  from t(1-5) show ?l by (simp add: utf8_take_def Let_def w)
qed

lemma utf8_step:
  "\<not> byte_in 0 0x7F c \<Longrightarrow> utf8_error (c # s) = None \<longleftrightarrow> (\<exists>seq. utf8_take c s = (seq, True) \<and> utf8_error (drop (length seq - 1) s) = None)"
  by (auto split: prod.splits)

lemma utf8_append: "utf8_error a = None \<Longrightarrow> utf8_error b = None \<Longrightarrow> utf8_error (a @ b) = None"
proof (induction a rule: utf8_error.induct)
  case (2 c s)
  show ?case
  proof (cases "byte_in 0 0x7F c")
    case True
    with 2 show ?thesis by simp
  next
    case False
    with 2(3) obtain seq where seq: "utf8_take c s = (seq, True)" "utf8_error (drop (length seq - 1) s) = None"
      using utf8_step by blast
    from seq(1) obtain lo hi k d t where t: "utf8_lead c = Some (lo, hi, k)" "s = d # t" "byte_in lo hi d" "seq = c # d # take k t"
      "length (take k t) = k" "\<forall>x \<in> set (take k t). byte_in 0x80 0xBF x" unfolding utf8_take_parts by blast
    then have "utf8_take c (s @ b) = (seq, True)" unfolding utf8_take_parts by fastforce
    moreover have "drop (length seq - 1) (s @ b) = drop (length seq - 1) s @ b" using t by simp
    ultimately show ?thesis using 2(2) [OF False refl seq(1) [symmetric] TrueI seq(2) 2(4)] utf8_step [OF False] by (metis append_Cons)
  qed
qed simp

lemma utf8_split:
  assumes "byte_in 0 0x7F c"
  shows "utf8_error (a @ c # b) = None \<Longrightarrow> utf8_error a = None \<and> utf8_error b = None"
proof (induction a rule: utf8_error.induct)
  case 1
  with assms show ?case by simp
next
  case (2 x s)
  show ?case
  proof (cases "byte_in 0 0x7F x")
    case True
    with 2 show ?thesis by simp
  next
    case False
    with 2(3) obtain seq where seq: "utf8_take x (s @ c # b) = (seq, True)" "utf8_error (drop (length seq - 1) (s @ c # b)) = None"
      using utf8_step [of x "s @ c # b"] by auto
    from seq(1) obtain lo hi k d t where t: "utf8_lead x = Some (lo, hi, k)" "s @ c # b = d # t" "byte_in lo hi d" "seq = x # d # take k t"
      "length (take k t) = k" "\<forall>y \<in> set (take k t). byte_in 0x80 0xBF y" unfolding utf8_take_parts by blast
    have "d \<noteq> c" using utf8_lead_range [OF t(1)] t(3) assms by (auto simp: byte_in_def)
    with t(2) obtain s' where s: "s = d # s'" "t = s' @ c # b" by (cases s) auto
    have "k \<le> length s'"
    proof (rule ccontr)
      assume "\<not> k \<le> length s'"
      then have "c \<in> set (take k t)" unfolding s by (simp add: take_Cons')
      with t(6) assms show False by (auto simp: byte_in_def)
    qed
    with t s have "utf8_take x s = (seq, True)" and "drop (length seq - 1) (s @ c # b) = drop (length seq - 1) s @ c # b"
      unfolding utf8_take_parts by auto
    with 2(2) [OF False refl this(1) [symmetric] TrueI] seq(2) utf8_step [OF False] show ?thesis by metis
  qed
qed

lemma utf8_valid_segments: "utf8_error s = None \<Longrightarrow> w \<in> set (split_on (CHR ''/'') s) \<Longrightarrow> utf8_error w = None"
proof (induction "length s" arbitrary: s rule: less_induct)
  case less
  have slash: "byte_in 0 0x7F (CHR ''/'')" by (simp add: byte_in_def)
  show ?case
  proof (cases "CHR ''/'' \<in> set s")
    case True
    then obtain l r where s: "s = l @ CHR ''/'' # r" "CHR ''/'' \<notin> set l" by (meson split_list_first)
    with less.prems(1) utf8_split [OF slash, of l r] have ok: "utf8_error l = None" "utf8_error r = None" by simp_all
    have "w = l \<or> w \<in> set (split_on (CHR ''/'') r)" using less.prems(2) s by (simp add: split_on_append)
    with ok less.hyps [of r] s(1) show ?thesis by auto
  next
    case False
    with less show ?thesis by (simp add: split_on_word)
  qed
qed

declare utf8_error.simps(2) [simp del]

definition entry_ok :: "entry \<Rightarrow> bool" where
  "entry_ok e \<longleftrightarrow> is_size_token (en_size e) \<and> utf8_error (en_name e) = None \<and> utf8_error (en_directory e) = None"

definition directory_ok :: "position \<Rightarrow> bool" where
  "directory_ok pos \<longleftrightarrow> (\<forall>d. at_directory pos = Some d \<longrightarrow> utf8_error d = None)"

lemma match_entry_name:
  assumes "match_entry t = Some (k, token, name)" and "utf8_error t = None"
  shows "utf8_error name = None"
proof -
  from assms(1) obtain rest where t: "t = k # CHR '' '' # rest" "token = takeWhile (\<lambda>c. \<not> is_space c) rest"
    "starts_with '' '' (drop (length token) rest)" "name = drop (Suc (length token)) rest"
    by (auto simp: match_entry_def Let_def split: list.splits if_splits)
  from t(3) obtain u where u: "drop (length token) rest = CHR '' '' # u" by (auto simp: starts_with_iff)
  then have "name = u" unfolding t(4) by (metis drop_Suc list.sel(3) tl_drop)
  moreover have "rest = token @ drop (length token) rest" unfolding t(2) by (metis append_take_drop_id takeWhile_eq_take)
  ultimately have "t = (k # CHR '' '' # token) @ CHR '' '' # name" using t(1) u by simp
  with assms(2) utf8_split [of "CHR '' ''" "k # CHR '' '' # token" name] show ?thesis by (simp add: byte_in_def)
qed

lemma parse_line_ok:
  assumes "directory_ok pos" and "list_all entry_ok es" and "parse_line l (pos, p, es) = (pos', q, es')"
  shows "directory_ok pos' \<and> list_all entry_ok es'"
proof -
  obtain n raw long where l: "l = (n, raw, long)" by (cases l)
  let ?p = "p\<lparr>ps_lines := ps_lines p + 1\<rparr>"
  consider (skip) "long \<or> raw = [] \<or> utf8_error raw \<noteq> None"
    | (header) "\<not> long" "raw \<noteq> []" "utf8_error raw = None" "at_expect_header pos"
    | (item) "\<not> long" "raw \<noteq> []" "utf8_error raw = None" "\<not> at_expect_header pos" by fastforce
  then show ?thesis
  proof cases
    case skip
    with assms show ?thesis
      by (auto simp: parse_line_def l Let_def directory_ok_def lost_header_def split: if_splits option.splits)
  next
    case header
    then have "parse_header n raw pos ?p = (pos', q)" "es' = es" using assms(3) by (auto simp: parse_line_def l Let_def split: prod.splits)
    moreover have "utf8_error (butlast raw) = None" if "ends_with '':'' raw"
    proof -
      from that obtain t where "raw = t @ '':''" by (auto simp: ends_with_iff)
      with header(3) utf8_split [of "CHR '':''" t "[]"] show ?thesis by (simp add: byte_in_def)
    qed
    moreover have "utf8_error (drop 2 n') = None" if "starts_with ''./'' n'" "utf8_error n' = None" for n'
    proof -
      from that(1) obtain t where "n' = ''./'' @ t" by (auto simp: starts_with_iff)
      with that(2) utf8_split [of "CHR ''/''" "''.''" t] show ?thesis by (simp add: byte_in_def)
    qed
    ultimately show ?thesis using assms(2)
      by (auto simp: parse_header_def Let_def directory_ok_def split: option.splits list.splits if_splits)
  next
    case item
    obtain e q' where e: "parse_entry n raw (at_directory pos) ?p = (e, q')" by fastforce
    with item assms(3) have es: "es' = (case e of None \<Rightarrow> es | Some e \<Rightarrow> es @ [e])" and pos: "at_directory pos' = at_directory pos"
      by (auto simp: parse_line_def l Let_def split: prod.splits)
    have name: "match_entry raw = Some (k, token, name) \<Longrightarrow> utf8_error name = None" for k token name
      using match_entry_name item(3) by blast
    have "entry_ok x" if "e = Some x" for x
      using e that assms(1)
      by (auto simp: parse_entry_def Let_def entry_ok_def directory_ok_def name split: option.splits if_splits)
    with es pos assms(1,2) show ?thesis by (auto simp: directory_ok_def split: option.split)
  qed
qed

lemma parsed_entries_ok:
  assumes "parse_listing raw = (p, es)"
  shows "list_all entry_ok es"
proof -
  have "directory_ok pos' \<and> list_all entry_ok es'"
    if "fold parse_line ls (pos, p, es) = (pos', q, es')" "directory_ok pos" "list_all entry_ok es" for ls pos p es pos' q es'
    using that
  proof (induction ls arbitrary: pos p es)
    case (Cons l ls)
    obtain pos1 p1 es1 where s: "parse_line l (pos, p, es) = (pos1, p1, es1)" by (metis prod_cases3)
    from parse_line_ok [OF Cons.prems(2,3) s] Cons.IH Cons.prems(1) s show ?case by simp
  qed simp
  moreover obtain pos where "fold parse_line (read_lines 0 raw) (start_position, new_parser, []) = (pos, p, es)"
    using assms unfolding parse_listing_def by (metis prod.collapse)
  ultimately show ?thesis by (fastforce simp: directory_ok_def start_position_def)
qed

subsection \<open>The first matching rule\<close>

lemma classify_from_first:
  "classify_from k rs d path name = (rank, r) \<Longrightarrow> k \<le> rank \<and> rank \<le> k + length rs \<and>
    list_all (\<lambda>q. \<not> rule_matches q path name) (take (rank - k) rs) \<and>
    (if rank < k + length rs then r = rs ! (rank - k) \<and> rule_matches r path name else r = d)"
proof (induction rs arbitrary: k)
  case (Cons q rs)
  show ?case
  proof (cases "rule_matches q path name")
    case True
    with Cons.prems show ?thesis by auto
  next
    case False
    with Cons.prems have "classify_from (Suc k) rs d path name = (rank, r)" by simp
    note IH = Cons.IH [OF this]
    then have "rank - k = Suc (rank - Suc k)" by auto
    with IH False show ?thesis by (cases "rank < Suc k + length rs") auto
  qed
qed simp

lemma classify_first:
  assumes "classify po path name = (rank, r)"
  shows "rank \<le> length (po_rules po) \<and> list_all (\<lambda>q. \<not> rule_matches q path name) (take rank (po_rules po)) \<and>
    (if rank < length (po_rules po) then r = po_rules po ! rank \<and> rule_matches r path name else r = po_default po)"
  using classify_from_first [OF assms [unfolded classify_def]] by (auto split: if_splits)

end
