(* ===== verification/Manifest.thy ===== *)
theory Manifest
  imports Inventory Queue "HOL-Library.Multiset"
begin

text \<open>
  The manifest and the queue export of \<open>src/inventory.py\<close>: \<open>_write_manifest\<close> with its bucket
  files, \<open>verify_manifest\<close>, \<open>check_queue_url\<close> and \<open>command_queue\<close>, and how the exported queue
  reads in the downloader (\<open>read_queues\<close> of \<open>src/tod-dl.py\<close>).

  \<open>nfc\<close> is \<open>unicodedata.normalize("NFC", path)\<close>, \<open>sha\<close> the SHA-256 hex digest.
\<close>

subsection \<open>Items\<close>

record manifest_item =
  mi_line :: nat
  mi_path :: string
  mi_size :: string
  mi_url :: "string option"
  mi_destination :: "string option"
  mi_flags :: "string list"
  mi_disposition :: disposition
  mi_rule :: string
  mi_reason :: string
  mi_rank :: nat

record manifest_totals =
  mt_files :: nat
  mt_disposition :: "disposition \<Rightarrow> nat"
  mt_collisions :: nat
  mt_by_rule :: "(string \<times> nat) list"

record manifest_state =
  ms_totals :: manifest_totals
  ms_buckets :: "((nat \<times> nat) \<times> manifest_item list) list"
  ms_seen :: "(string \<times> nat) list"
  ms_nfc_seen :: "(string \<times> nat) list"

definition start_manifest :: manifest_state where
  "start_manifest = \<lparr>ms_totals = \<lparr>mt_files = 0, mt_disposition = (\<lambda>_. 0), mt_collisions = 0, mt_by_rule = []\<rparr>,
     ms_buckets = [], ms_seen = [], ms_nfc_seen = []\<rparr>"

definition entry_path :: "entry \<Rightarrow> string" where
  "entry_path e = (if en_directory e = [] then en_name e else en_directory e @ ''/'' @ en_name e)"

definition item_url :: "string \<Rightarrow> string \<Rightarrow> string" where
  "item_url base path = base @ ''/'' @ join_with ''/'' (map encode_segment (split_on (CHR ''/'') path))"

definition disposition_order :: "disposition \<Rightarrow> nat" where
  "disposition_order d = (case d of Priority \<Rightarrow> 0 | Deferred \<Rightarrow> 1 | Rejected \<Rightarrow> 2)"

text \<open>The item of an entry, and whether its normalized path was seen before.\<close>

definition decide_item :: "(string \<Rightarrow> string) \<Rightarrow> policy \<Rightarrow> string \<Rightarrow> string \<Rightarrow> manifest_state \<Rightarrow> entry \<Rightarrow> manifest_item" where
  "decide_item nfc po base prefix s e =
     (let path = entry_path e;
          blank = \<lparr>mi_line = en_line e, mi_path = path, mi_size = en_size e, mi_url = None, mi_destination = None, mi_flags = [],
                   mi_disposition = Rejected, mi_rule = [], mi_reason = [], mi_rank = length (po_rules po) + 1\<rparr>
      in case unsafe_path_reason path (en_name e) of
        Some reason \<Rightarrow> blank\<lparr>mi_rule := ''builtin:unsafe_path'', mi_reason := reason\<rparr>
      | None \<Rightarrow>
          if path = ''ALL_FILES''
          then blank\<lparr>mi_rule := ''builtin:inventory_listing'', mi_reason := ''root ALL_FILES is the inventory listing itself''\<rparr>
          else case map_of (ms_seen s) path of
            Some k \<Rightarrow> blank\<lparr>mi_rule := ''builtin:duplicate_path'', mi_reason := ''same path as line '' @ show_nat k\<rparr>
          | None \<Rightarrow>
              let (rank, r) = classify po path (en_name e) in
              blank\<lparr>mi_url := Some (item_url base path), mi_destination := Some (prefix @ ''/'' @ path),
                mi_flags := (case map_of (ms_nfc_seen s) (nfc path) of
                    Some k \<Rightarrow> [''nfc_collision_with_line:'' @ show_nat k] | None \<Rightarrow> []),
                mi_disposition := ru_disposition r, mi_rule := ru_id r, mi_reason := ru_reason r, mi_rank := rank\<rparr>)"

definition bucket_key :: "manifest_item \<Rightarrow> nat \<times> nat" where
  "bucket_key i = (disposition_order (mi_disposition i), mi_rank i)"

definition add_totals :: "manifest_item \<Rightarrow> manifest_totals \<Rightarrow> manifest_totals" where
  "add_totals i t =
     \<lparr>mt_files = mt_files t + 1, mt_disposition = (mt_disposition t)(mi_disposition i := mt_disposition t (mi_disposition i) + 1),
      mt_collisions = mt_collisions t + (if mi_flags i \<noteq> [] then 1 else 0),
      mt_by_rule = AList.update (mi_rule i) ((case map_of (mt_by_rule t) (mi_rule i) of None \<Rightarrow> 0 | Some n \<Rightarrow> n) + 1) (mt_by_rule t)\<rparr>"

text \<open>A path that was never classified is not entered under its normalized form.\<close>

definition write_item :: "(string \<Rightarrow> string) \<Rightarrow> policy \<Rightarrow> string \<Rightarrow> string \<Rightarrow> entry \<Rightarrow> manifest_state \<Rightarrow> manifest_state" where
  "write_item nfc po base prefix e s =
     (let i = decide_item nfc po base prefix s e; path = mi_path i; key = bucket_key i in
      \<lparr>ms_totals = add_totals i (ms_totals s),
       ms_buckets = AList.update key ((case map_of (ms_buckets s) key of None \<Rightarrow> [] | Some b \<Rightarrow> b) @ [i]) (ms_buckets s),
       ms_seen = (if map_of (ms_seen s) path = None then (path, mi_line i) # ms_seen s else ms_seen s),
       ms_nfc_seen = (if mi_url i \<noteq> None \<and> map_of (ms_nfc_seen s) (nfc path) = None
                      then (nfc path, mi_line i) # ms_nfc_seen s else ms_nfc_seen s)\<rparr>)"

definition write_items :: "(string \<Rightarrow> string) \<Rightarrow> policy \<Rightarrow> string \<Rightarrow> string \<Rightarrow> entry list \<Rightarrow> manifest_state" where
  "write_items nfc po base prefix es = fold (write_item nfc po base prefix) es start_manifest"

text \<open>The bucket files are concatenated in the order of their keys.\<close>

definition manifest_items :: "manifest_state \<Rightarrow> manifest_item list" where
  "manifest_items s = concat (map snd (sort_key fst (ms_buckets s)))"

subsection \<open>The text of the manifest\<close>

text \<open>\<open>ensure_ascii\<close>: code points outside the printable ASCII range as \<open>u\<close> escapes.\<close>

definition u_escape :: "nat \<Rightarrow> string" where
  "u_escape n = [CHR 0x5C, CHR ''u'', hex_digit (n div 4096), hex_digit (n div 256 mod 16), hex_digit (n div 16 mod 16), hex_digit (n mod 16)]"

definition escape_code_point :: "nat \<Rightarrow> string" where
  "escape_code_point n =
     (if n < 0x10000 then u_escape n
      else u_escape (0xD800 + (n - 0x10000) div 0x400) @ u_escape (0xDC00 + (n - 0x10000) mod 0x400))"

definition code_point :: "string \<Rightarrow> nat" where
  "code_point seq =
     (case seq of [] \<Rightarrow> 0
      | c # cs \<Rightarrow>
          let n = of_char c :: nat; lead = (if n < 0xE0 then n - 0xC0 else if n < 0xF0 then n - 0xE0 else n - 0xF0)
          in foldl (\<lambda>a x. 64 * a + (of_char x - 0x80)) lead cs)"

function ascii_escape :: "string \<Rightarrow> string" where
  "ascii_escape [] = []"
| "ascii_escape (c # s) =
     (if byte_in 0 0x7E c then c # ascii_escape s
      else if byte_in 0x7F 0x7F c then u_escape 0x7F @ ascii_escape s
      else let seq = fst (utf8_take c s) in escape_code_point (code_point seq) @ ascii_escape (drop (length seq - 1) s))"
  by pat_completeness auto
termination by (relation "measure length") auto

definition ascii_json :: "json \<Rightarrow> string" where
  "ascii_json v = (case canonical_json v of None \<Rightarrow> [] | Some t \<Rightarrow> ascii_escape t)"

definition text_json :: "string option \<Rightarrow> json" where
  "text_json t = (case t of None \<Rightarrow> JNull | Some s \<Rightarrow> JStr s)"

definition disposition_text :: "disposition \<Rightarrow> string" where
  "disposition_text d = DISPOSITIONS ! disposition_order d"

definition item_json :: "manifest_item \<Rightarrow> json" where
  "item_json i = JObj [(''line'', JInt (int (mi_line i))), (''path'', JStr (mi_path i)), (''size_token'', JStr (mi_size i)),
     (''source_url'', text_json (mi_url i)), (''destination'', text_json (mi_destination i)),
     (''flags'', JArr (map JStr (mi_flags i))), (''disposition'', JStr (disposition_text (mi_disposition i))),
     (''rule'', JStr (mi_rule i)), (''reason'', JStr (mi_reason i)), (''rank'', JInt (int (mi_rank i))), (''type'', JStr ''item'')]"

definition totals_json :: "manifest_totals \<Rightarrow> json" where
  "totals_json t = JObj [(''files'', JInt (int (mt_files t))), (''priority'', JInt (int (mt_disposition t Priority))),
     (''deferred'', JInt (int (mt_disposition t Deferred))), (''rejected'', JInt (int (mt_disposition t Rejected))),
     (''nfc_collisions'', JInt (int (mt_collisions t))), (''by_rule'', JObj (map (\<lambda>(k, n). (k, JInt (int n))) (mt_by_rule t)))]"

definition header_json :: "string \<Rightarrow> policy \<Rightarrow> string \<Rightarrow> manifest_totals \<Rightarrow> json" where
  "header_json snapshot_sha po base t = JObj [(''type'', JStr ''header''), (''manifest_format'', JInt 1),
     (''snapshot_sha256'', JStr snapshot_sha), (''parser_version'', JStr ''1''), (''policy_version'', JStr (po_version po)),
     (''policy_sha256'', JStr (po_sha256 po)), (''base_url'', JStr base), (''totals'', totals_json t)]"

definition manifest_text :: "string \<Rightarrow> policy \<Rightarrow> string \<Rightarrow> manifest_state \<Rightarrow> string" where
  "manifest_text snapshot_sha po base s =
     concat (map (\<lambda>v. ascii_json v @ [newline]) (header_json snapshot_sha po base (ms_totals s) # map item_json (manifest_items s)))"

text \<open>\<open>command_manifest\<close>: the totals have to agree with the parse report of the snapshot.\<close>

definition command_manifest :: "(string \<Rightarrow> string) \<Rightarrow> policy \<Rightarrow> string \<Rightarrow> string \<Rightarrow> parse_report \<Rightarrow> inventory_error + manifest_state" where
  "command_manifest nfc po base_url raw recorded =
     and_then (parse_base_url base_url) (\<lambda>(base, prefix).
     let s = write_items nfc po base prefix (snd (parse_listing raw)) in
     if mt_files (ms_totals s) \<noteq> pr_classes recorded FileEntry then Inl TotalsDoNotReconcile else Inr s)"

subsection \<open>The queue\<close>

definition check_queue_url :: "string \<Rightarrow> inventory_error + unit" where
  "check_queue_url url =
     (case urlsplit url of
        None \<Rightarrow> Inl (UnsafeQueueUrl url)
      | Some p \<Rightarrow>
          let (_, found, rest) = py_partition (CHR ''/'') (dropWhile (\<lambda>c. c = CHR ''/'') (up_path p)) in
          if \<not> plain_url url p \<or> \<not> found \<or> rest \<in> {[], ''ALL_FILES'', ''data/ALL_FILES''}
          then Inl (UnsafeQueueUrl url) else Inr ())"

text \<open>\<open>GENERATION_RE.match\<close>: the \<open>$\<close> also matches before a newline at the end.\<close>

definition generation_char :: "char \<Rightarrow> bool" where
  "generation_char c = (is_upper c \<or> is_lower c \<or> is_digit c \<or> c \<in> set ''._:-'')"

definition is_generation :: "string \<Rightarrow> bool" where
  "is_generation t =
     (let t = (if t \<noteq> [] \<and> last t = newline then butlast t else t) in
      t \<noteq> [] \<and> length t \<le> 128 \<and> list_all generation_char t)"

definition generation_token :: "string option \<Rightarrow> string" where
  "generation_token generation =
     (case generation of Some (c # cs) \<Rightarrow> '' generation='' @ c # cs | _ \<Rightarrow> [])"

fun export_items :: "disposition \<Rightarrow> string option \<Rightarrow> manifest_item list \<Rightarrow> string list \<Rightarrow> inventory_error + string list" where
  "export_items d generation [] seen = Inr []"
| "export_items d generation (i # is) seen =
     (if mi_disposition i \<noteq> d then export_items d generation is seen
      else case mi_url i of
        None \<Rightarrow> Inl (UnsafeQueueUrl [])
      | Some url \<Rightarrow>
          and_then (check_queue_url url) (\<lambda>_.
          if url \<in> set seen then Inl (UrlTwice url)
          else and_then (export_items d generation is (url # seen)) (\<lambda>ls.
            Inr ((url @ '' size='' @ mi_size i @ generation_token generation @ [newline]) # ls))))"

definition command_queue :: "string \<Rightarrow> disposition \<Rightarrow> string option \<Rightarrow> manifest_item list \<Rightarrow> inventory_error + string list" where
  "command_queue manifest_sha d generation items =
     (if generation \<noteq> None \<and> \<not> is_generation (the generation) then Inl BadGeneration
      else and_then (export_items d generation items []) (\<lambda>ls.
        Inr ((''# manifest_sha256='' @ manifest_sha @ [newline]) # (''# disposition='' @ disposition_text d @ [newline]) # ls)))"

subsection \<open>URLs that read back\<close>

lemma partition_word: "c \<notin> set w \<Longrightarrow> py_partition c (w @ c # s) = (w, True, s)" "c \<notin> set w \<Longrightarrow> py_partition c w = (w, False, [])"
  by (induction w) (auto simp: py_partition_def)

lemma partition_chars: "py_partition c s = (a, f, b) \<Longrightarrow> set a \<subseteq> set s \<and> set b \<subseteq> set s \<and> c \<notin> set a"
  by (auto simp: py_partition_def dest!: in_set_dropD dest: set_takeWhileD set_dropWhileD)

text \<open>A network location that \<open>urlsplit\<close> can have found.\<close>

definition netloc_ok :: "string \<Rightarrow> bool" where
  "netloc_ok n \<longleftrightarrow> set n \<inter> set ''/?#'' = {} \<and> ((CHR ''['' \<in> set n) = (CHR '']'' \<in> set n))"

lemma urlsplit_found:
  assumes "urlsplit u = Some p"
  shows "netloc_ok (up_netloc p) \<and> set (up_netloc p) \<subseteq> set u \<and> set (up_path p) \<subseteq> set u \<and>
    CHR ''?'' \<notin> set (up_path p) \<and> CHR ''#'' \<notin> set (up_path p) \<and>
    (set (up_netloc p) \<union> set (up_path p)) \<inter> {CHR 0x09, CHR 0x0A, CHR 0x0D} = {}"
proof -
  let ?t = "drop_scheme (clean_url u)"
  have clean: "set (clean_url u) \<subseteq> set u - {CHR 0x09, CHR 0x0A, CHR 0x0D}"
    by (auto simp: clean_url_def dest: set_dropWhileD)
  obtain h f0 t where hft: "py_partition (CHR '':'') (clean_url u) = (h, f0, t)" by (metis prod_cases3)
  have "?t = t \<or> ?t = clean_url u" using hft by (simp add: drop_scheme_def)
  then have "set ?t \<subseteq> set (clean_url u)" using partition_chars [OF hft] by auto
  with clean have t: "set ?t \<subseteq> set u - {CHR 0x09, CHR 0x0A, CHR 0x0D}" by blast
  have n: "set (fst (split_netloc ?t)) \<subseteq> set ?t" "set (snd (split_netloc ?t)) \<subseteq> set ?t"
    "set (fst (split_netloc ?t)) \<inter> set ''/?#'' = {}"
    by (auto simp: split_netloc_def dest: set_takeWhileD set_dropWhileD in_set_dropD)
  obtain a f b where ab: "py_partition (CHR ''#'') (snd (split_netloc ?t)) = (a, f, b)" by (metis prod_cases3)
  obtain x g y where xy: "py_partition (CHR ''?'') a = (x, g, y)" by (metis prod_cases3)
  from assms ab xy have p: "up_netloc p = fst (split_netloc ?t)" "up_path p = x"
    "(CHR ''['' \<in> set (fst (split_netloc ?t))) = (CHR '']'' \<in> set (fst (split_netloc ?t)))"
    by (auto simp: urlsplit_def urlsplit_netloc_def Let_def split: if_splits)
  have xa: "set x \<subseteq> set a" and a: "set a \<subseteq> set (snd (split_netloc ?t))"
    using partition_chars [OF ab] partition_chars [OF xy] by simp_all
  have "set x \<subseteq> set u - {CHR 0x09, CHR 0x0A, CHR 0x0D}" by (rule order_trans [OF order_trans [OF order_trans [OF xa a] n(2)] t])
  moreover have "set (up_netloc p) \<subseteq> set u - {CHR 0x09, CHR 0x0A, CHR 0x0D}" unfolding p(1) by (rule order_trans [OF n(1) t])
  moreover have "CHR ''?'' \<notin> set x" "CHR ''#'' \<notin> set x"
    using partition_chars [OF ab] partition_chars [OF xy] by blast+
  moreover have "netloc_ok (up_netloc p)" using n(3) p(1,3) by (simp add: netloc_ok_def)
  ultimately show ?thesis unfolding p(2) by blast
qed

lemma takeWhile_stop: "\<forall>c \<in> set w. P c \<Longrightarrow> \<not> P x \<Longrightarrow> takeWhile P (w @ x # s) = w \<and> dropWhile P (w @ x # s) = x # s"
  by (induction w) auto

lemma urlsplit_made:
  assumes "sch \<in> {''http'', ''https''}" and "netloc_ok n" and "set n \<inter> {CHR 0x09, CHR 0x0A, CHR 0x0D} = {}"
    and "set path \<inter> {CHR 0x09, CHR 0x0A, CHR 0x0D, CHR ''?'', CHR ''#''} = {}"
  defines "u \<equiv> sch @ ''://'' @ n @ ''/'' @ path"
  shows "urlsplit u = Some \<lparr>up_netloc = n, up_path = ''/'' @ path, up_query = []\<rparr>" "url_scheme u = sch" "url_fragment u = []"
proof -
  have "set u \<inter> {CHR 0x09, CHR 0x0A, CHR 0x0D} = {}" using assms(1,3,4) by (auto simp: u_def)
  then have "filter (\<lambda>c. c \<notin> {CHR 0x09, CHR 0x0A, CHR 0x0D}) u = u" by (intro filter_True) blast
  moreover have "dropWhile (\<lambda>c. (of_char c :: nat) \<le> 32) u = u" using assms(1) by (auto simp: u_def)
  ultimately have clean: "clean_url u = u" by (simp add: clean_url_def)
  have part: "py_partition (CHR '':'') u = (sch, True, ''//'' @ n @ ''/'' @ path)"
    using partition_word(1) [of "CHR '':''" sch "''//'' @ n @ ''/'' @ path"] assms(1) by (auto simp: u_def)
  have chars: "sch \<noteq> []" "is_lower (hd sch)" "list_all scheme_char sch" "str_lower sch = sch"
    using assms(1) by (auto simp: is_lower_def scheme_char_def lower_char_def)
  show "url_scheme u = sch" using part clean chars by (simp add: url_scheme_def)
  have drop: "drop_scheme (clean_url u) = ''//'' @ n @ ''/'' @ path" using part clean chars by (simp add: drop_scheme_def)
  have "takeWhile (\<lambda>c. c \<notin> set ''/?#'') (n @ CHR ''/'' # path) = n \<and>
      dropWhile (\<lambda>c. c \<notin> set ''/?#'') (n @ CHR ''/'' # path) = CHR ''/'' # path"
    by (rule takeWhile_stop) (use assms(2) in \<open>auto simp: netloc_ok_def\<close>)
  moreover have "starts_with ''//'' (''//'' @ n @ ''/'' @ path)" "drop 2 (''//'' @ n @ ''/'' @ path) = n @ CHR ''/'' # path"
    by (simp_all add: starts_with_def)
  ultimately have sp: "split_netloc (''//'' @ n @ ''/'' @ path) = (n, ''/'' @ path)"
    by (simp only: split_netloc_def if_True append.simps)
  have frag: "py_partition (CHR ''#'') (''/'' @ path) = (''/'' @ path, False, [])"
    "py_partition (CHR ''?'') (''/'' @ path) = (''/'' @ path, False, [])"
    using assms(4) by (auto intro!: partition_word(2))
  show "urlsplit u = Some \<lparr>up_netloc = n, up_path = ''/'' @ path, up_query = []\<rparr>"
    unfolding urlsplit_def urlsplit_netloc_def Let_def drop sp using frag assms(2) by (simp add: netloc_ok_def)
  show "url_fragment u = []" unfolding url_fragment_def drop sp using frag by simp
qed

text \<open>The shape of an accepted base URL.\<close>

lemma base_url_shape:
  assumes "parse_base_url b = Inr (base, prefix)"
  obtains sch n collection rest where "base = sch @ ''://'' @ n @ ''/'' @ prefix" and "prefix = join_with ''/'' (collection # rest)"
    and "sch \<in> {''http'', ''https''}" and "netloc_ok n" and "rest \<in> {[], [''data'']}" and "collection \<notin> {[], ''.'', ''..''}"
    and "CHR ''/'' \<notin> set collection" and "\<not> username_or_password n" and "fst (host_and_port n) \<noteq> []"
    and "\<forall>c \<in> set n \<union> set prefix. byte_in 0 0x7F c \<and> \<not> is_space c" and "set prefix \<inter> {CHR ''?'', CHR ''#''} = {}"
proof -
  from assms obtain p where p: "urlsplit b = Some p"
    by (auto simp: parse_base_url_def split: option.splits)
  let ?ss = "split_on (CHR ''/'') (strip_char (CHR ''/'') (up_path p))"
  from assms p have f: "plain_url b p" "length ?ss \<in> {1, 2}" "hd ?ss \<noteq> []" "length ?ss = 2 \<longrightarrow> ?ss ! 1 = ''data''" "hd ?ss \<notin> {''.'', ''..''}"
    and base: "prefix = join_with ''/'' ?ss" "base = url_scheme b @ ''://'' @ up_netloc p @ ''/'' @ prefix"
    by (auto simp: parse_base_url_def Let_def split: option.splits if_splits)
  obtain collection rest where ss: "?ss = collection # rest" by (cases ?ss) auto
  have rest: "rest \<in> {[], [''data'']}"
    using f(2,4) ss by (cases rest) (auto simp: length_Suc_conv)
  have "join_with [CHR ''/''] ?ss = strip_char (CHR ''/'') (up_path p)" by (rule join_split_on)
  then have "prefix = strip_char (CHR ''/'') (up_path p)" using base(1) by simp
  then have "set prefix \<subseteq> set (up_path p)" by (auto simp: strip_char_def dest!: set_dropWhileD)
  with urlsplit_found [OF p] have sets: "set prefix \<union> set (up_netloc p) \<subseteq> set b" "set prefix \<inter> {CHR ''?'', CHR ''#''} = {}" by auto
  have "CHR ''/'' \<notin> set collection" using split_on_no_sep [of "CHR ''/''"] ss by (metis list.set_intros(1))
  moreover have "\<forall>c \<in> set (up_netloc p) \<union> set prefix. byte_in 0 0x7F c \<and> \<not> is_space c"
    using f(1) sets(1) by (auto simp: plain_url_def is_ascii_text_def list_all_iff list_ex_iff)
  moreover have "url_scheme b \<in> {''http'', ''https''}" "\<not> username_or_password (up_netloc p)" "fst (host_and_port (up_netloc p)) \<noteq> []"
    using f(1) by (simp_all add: plain_url_def)
  moreover have "netloc_ok (up_netloc p)" using urlsplit_found [OF p] by blast
  ultimately show ?thesis using f(3,5) sets(2) base rest unfolding ss list.sel
    by (intro that [of "url_scheme b" "up_netloc p" collection rest]) blast+
qed

text \<open>The characters of an item's URL path, and the segments of its path.\<close>

definition path_segments :: "string \<Rightarrow> string list" where
  "path_segments path = split_on (CHR ''/'') path"

lemma safe_segments:
  "unsafe_segment_reason ss = None \<Longrightarrow> seg \<in> set ss \<Longrightarrow> seg \<notin> {[], ''.'', ''..''} \<and> \<not> list_ex control_char seg"
  by (induction ss) (auto split: if_splits)

lemma join_with_chars: "c \<in> set (join_with sep ws) \<Longrightarrow> c \<in> set sep \<or> (\<exists>w \<in> set ws. c \<in> set w)"
  by (induction sep ws rule: join_with.induct) auto

lemma encoded_path_chars: "c \<in> set (join_with ''/'' (map encode_segment ss)) \<Longrightarrow> url_char c \<or> c = CHR ''/''"
  using join_with_chars [of c "''/''" "map encode_segment ss"] encode_chars by auto

lemma encode_no_slash: "CHR ''/'' \<notin> set (encode_segment s)"
  using encode_chars url_char_facts(3) by fastforce

lemma split_encoded: "ss \<noteq> [] \<Longrightarrow> split_on (CHR ''/'') (join_with ''/'' (map encode_segment ss)) = map encode_segment ss"
  using split_on_join [of "map encode_segment ss" "CHR ''/''"] encode_no_slash by auto

lemma item_url_injective:
  assumes "item_url base p = item_url base q"
  shows "p = q"
proof -
  let ?s = "split_on (CHR ''/'')"
  from assms have "join_with ''/'' (map encode_segment (?s p)) = join_with ''/'' (map encode_segment (?s q))" by (simp add: item_url_def)
  then have "map encode_segment (?s p) = map encode_segment (?s q)" using split_encoded by (metis split_on_nonempty)
  then have "?s p = ?s q" using encode_injective by (metis injI inj_map_eq_map)
  then show ?thesis by (metis join_split_on)
qed

text \<open>A path whose URL the queue refuses although the manifest accepts it.\<close>

definition exportable :: "string \<Rightarrow> string \<Rightarrow> bool" where
  "exportable prefix path \<longleftrightarrow> path \<noteq> ''ALL_FILES'' \<and> (CHR ''/'' \<in> set prefix \<or> path \<noteq> ''data/ALL_FILES'')"

lemma split_prefix:
  assumes "rest \<in> {[], [''data'']}" and "CHR ''/'' \<notin> set collection"
  shows "split_on (CHR ''/'') (join_with ''/'' (collection # rest) @ ''/'' @ s) = collection # rest @ split_on (CHR ''/'') s"
    and "py_partition (CHR ''/'') (join_with ''/'' (collection # rest) @ ''/'' @ s) = (collection, True, concat (map (\<lambda>w. w @ ''/'') rest) @ s)"
    and "CHR ''/'' \<in> set (join_with ''/'' (collection # rest)) \<longleftrightarrow> rest \<noteq> []"
  using assms split_on_append [OF assms(2)] partition_word(1) [OF assms(2)] split_on_append [of "CHR ''/''" "''data''" s]
  by auto

lemma encode_ALL_FILES: "encode_segment ''ALL_FILES'' = ''ALL_FILES''" "encode_segment ''data'' = ''data''" "encode_segment ''.'' = ''.''"
  by code_simp+

lemma encoded_path_is:
  assumes "join_with ''/'' (map encode_segment (path_segments p)) = join_with ''/'' (map encode_segment (path_segments q))"
  shows "p = q"
  using item_url_injective [of "[]" p q] assms by (simp add: item_url_def path_segments_def)

lemma encoded_listing:
  "join_with ''/'' (map encode_segment (path_segments p)) = ''ALL_FILES'' \<Longrightarrow> p = ''ALL_FILES''"
  "join_with ''/'' (map encode_segment (path_segments p)) = ''data/ALL_FILES'' \<Longrightarrow> p = ''data/ALL_FILES''"
  by (rule encoded_path_is, simp add: path_segments_def encode_ALL_FILES)+

lemma path_parts_relative:
  assumes "\<forall>w \<in> set ws. plain_name w" and "ws \<noteq> []"
  shows "path_parts (parse_path (join_with ''/'' ws)) = ws"
proof -
  have "split_on (CHR ''/'') (join_with ''/'' ws) = ws" using assms split_on_join [of ws "CHR ''/''"] by (auto simp: plain_name_def)
  then have "posix_parts (join_with ''/'' ws) = ws" using assms by (simp add: posix_parts_def plain_name_def)
  moreover have "\<not> starts_with ''/'' (join_with ''/'' ws)"
    using assms by (cases ws; cases "tl ws"; cases "hd ws") (auto simp: starts_with_def plain_name_def)
  ultimately show ?thesis by (simp add: path_parts_def parse_path_def)
qed

lemma encode_plain_name: "s \<notin> {[], ''.''} \<Longrightarrow> plain_name (encode_segment s)"
  using encode_no_slash [of s] encode_nonempty [of s] encode_injective [of s "''.''"] encode_ALL_FILES(3)
  by (auto simp: plain_name_def)

lemma join_with_append: "ws \<noteq> [] \<Longrightarrow> vs \<noteq> [] \<Longrightarrow> join_with sep (ws @ vs) = join_with sep ws @ sep @ join_with sep vs"
proof (induction ws)
  case (Cons w ws)
  then show ?case by (cases ws; cases vs) auto
qed simp

lemma item_url_reads_back:
  assumes base: "parse_base_url b = Inr (base, prefix)" and clean: "CHR ''%'' \<notin> set prefix" "CHR 0x00 \<notin> set prefix"
    and safe: "unsafe_segment_reason (path_segments path) = None" and valid: "\<forall>s \<in> set (path_segments path). utf8_valid s"
    and exp: "exportable prefix path"
  shows "relative_path (item_url base path) = Inr \<lparr>pp_absolute = False, pp_names = path_segments (prefix @ ''/'' @ path)\<rparr>"
    and "check_queue_url (item_url base path) = Inr ()"
proof -
  from base obtain sch n collection rest where b: "base = sch @ ''://'' @ n @ ''/'' @ prefix"
    and prefix: "prefix = join_with ''/'' (collection # rest)" and sch: "sch \<in> {''http'', ''https''}" and n: "netloc_ok n"
    and rest: "rest \<in> {[], [''data'']}" and col: "collection \<notin> {[], ''.'', ''..''}" "CHR ''/'' \<notin> set collection"
    and user: "\<not> username_or_password n" and host: "fst (host_and_port n) \<noteq> []"
    and ascii: "\<forall>c \<in> set n \<union> set prefix. byte_in 0 0x7F c \<and> \<not> is_space c" and pc: "set prefix \<inter> {CHR ''?'', CHR ''#''} = {}"
    by (rule base_url_shape)
  let ?ss = "path_segments path" let ?q = "join_with ''/'' (map encode_segment ?ss)"
  let ?path = "prefix @ ''/'' @ ?q" let ?r = "concat (map (\<lambda>w. w @ ''/'') rest) @ ?q"
  have ne: "?ss \<noteq> []" by (simp add: path_segments_def)
  note seg = safe_segments [OF safe]
  have q: "\<forall>c \<in> set ?q. url_char c \<or> c = CHR ''/''" using encoded_path_chars by blast
  have qf: "byte_in 0 0x7F c \<and> \<not> is_space c \<and> c \<notin> {CHR ''?'', CHR ''#''}" if "c \<in> set ?q" for c
  proof (cases "c = CHR ''/''")
    case True
    then show ?thesis by (simp add: byte_in_def is_space_def)
  next
    case False
    with q that url_char_facts [of c] show ?thesis by auto
  qed
  have url: "item_url base path = sch @ ''://'' @ n @ ''/'' @ ?path" by (simp add: item_url_def b path_segments_def)
  have white: "set n \<inter> {CHR 0x09, CHR 0x0A, CHR 0x0D} = {}" "set ?path \<inter> {CHR 0x09, CHR 0x0A, CHR 0x0D, CHR ''?'', CHR ''#''} = {}"
  proof -
    have w: "c \<notin> {CHR 0x09, CHR 0x0A, CHR 0x0D}" if "\<not> is_space c" for c using that by (auto simp: is_space_def)
    then show "set n \<inter> {CHR 0x09, CHR 0x0A, CHR 0x0D} = {}" using ascii by blast
    have slash: "\<not> is_space (CHR ''/'')" by (simp add: is_space_def)
    have "\<not> is_space c \<and> c \<notin> {CHR ''?'', CHR ''#''}" if "c \<in> set ?path" for c
      using that ascii qf pc slash unfolding set_append by auto
    with w show "set ?path \<inter> {CHR 0x09, CHR 0x0A, CHR 0x0D, CHR ''?'', CHR ''#''} = {}" by blast
  qed
  note split = urlsplit_made [OF sch n white, folded url]
  have part: "py_partition (CHR ''/'') ?path = (collection, True, ?r)"
    unfolding prefix by (rule split_prefix(2) [OF rest col(2)])
  have first: "?path \<noteq> []" "hd ?path \<noteq> CHR ''/''" using col rest by (auto simp: prefix) (cases collection; auto)+
  then have drop: "dropWhile (\<lambda>c. c = CHR ''/'') (''/'' @ ?path) = ?path" by (cases ?path) auto
  have "?q \<noteq> []" using ne seg by (cases ?ss; cases "tl ?ss") (auto simp: encode_nonempty)
  moreover have "?r \<noteq> ''ALL_FILES'' \<and> ?r \<noteq> ''data/ALL_FILES''"
  proof (cases "rest = []")
    case True
    then have "CHR ''/'' \<notin> set prefix" using split_prefix(3) [OF rest col(2)] prefix by simp
    with exp have "path \<noteq> ''ALL_FILES''" "path \<noteq> ''data/ALL_FILES''" by (auto simp: exportable_def)
    then have "?q \<noteq> ''ALL_FILES''" "?q \<noteq> ''data/ALL_FILES''" using encoded_listing by blast+
    with True show ?thesis by simp
  next
    case False
    then have "?r = ''data/'' @ ?q" using rest by simp
    moreover have "?q \<noteq> ''ALL_FILES''" using exp encoded_listing(1) by (auto simp: exportable_def)
    ultimately show ?thesis by simp
  qed
  ultimately have r: "?r \<notin> {[], ''ALL_FILES'', ''data/ALL_FILES''}" by blast
  have plain: "\<forall>w \<in> set rest. plain_name w" "\<forall>w \<in> set (map encode_segment ?ss). plain_name w" "\<forall>w \<in> set ?ss. plain_name w"
  proof -
    show "\<forall>w \<in> set rest. plain_name w" using rest by (auto simp: plain_name_def)
    show "\<forall>w \<in> set (map encode_segment ?ss). plain_name w" using seg by (auto intro!: encode_plain_name)
    have "\<forall>w \<in> set ?ss. CHR ''/'' \<notin> set w" unfolding path_segments_def by (rule split_on_no_sep)
    then show "\<forall>w \<in> set ?ss. plain_name w" using seg by (simp add: plain_name_def)
  qed
  have "url_segments (item_url base path) = Inr (collection, ?r)"
    unfolding url_segments_def split(1) option.case url_parts.simps drop part Let_def prod.case using user r by simp
  moreover have names: "path_parts (parse_path ?r) = rest @ map encode_segment ?ss"
  proof -
    have "?r = join_with ''/'' (rest @ map encode_segment ?ss)" using rest ne join_with_append [of "[''data'']" "map encode_segment ?ss"] by auto
    moreover have "\<forall>w \<in> set (rest @ map encode_segment ?ss). plain_name w" using plain(1,2) unfolding set_append by blast
    ultimately show ?thesis using path_parts_relative [of "rest @ map encode_segment ?ss"] ne by simp
  qed
  moreover have "map unquote (rest @ map encode_segment ?ss) = rest @ ?ss"
    using rest valid unquote_encode by (auto simp: unquote_def map_idI)
  moreover have "\<forall>w \<in> set (rest @ ?ss). plain_name w" using plain(1,3) unfolding set_append by blast
  note segments_of_plain [OF this]
  moreover have "unquote collection = collection" using clean(1) rest by (auto simp: unquote_def prefix)
  moreover have "parse_path collection = \<lparr>pp_absolute = False, pp_names = [collection]\<rparr>"
    using col posix_parts_word [of collection] by (cases collection) (auto simp: parse_path_def starts_with_def plain_name_def)
  moreover have "path_segments (prefix @ ''/'' @ path) = collection # rest @ ?ss"
    unfolding prefix path_segments_def by (rule split_prefix(1) [OF rest col(2)])
  moreover have "\<not> is_unsafe_relative \<lparr>pp_absolute = False, pp_names = collection # rest @ ?ss\<rparr>"
  proof -
    have "CHR 0x00 \<notin> set w \<and> w \<noteq> ''..''" if "w \<in> set ?ss" for w
      using seg [OF that] by (auto simp: list_ex_iff control_char_def Let_def)
    then show ?thesis using col(1) rest clean(2) by (auto simp: is_unsafe_relative_def path_parts_def list_ex_iff prefix)
  qed
  ultimately show "relative_path (item_url base path) = Inr \<lparr>pp_absolute = False, pp_names = path_segments (prefix @ ''/'' @ path)\<rparr>"
    by (simp add: relative_path_def join_path_def)
  have "plain_url (item_url base path) \<lparr>up_netloc = n, up_path = ''/'' @ ?path, up_query = []\<rparr>"
  proof -
    have "\<forall>c \<in> set sch. byte_in 0 0x7F c \<and> \<not> is_space c" using sch by (auto simp: byte_in_def is_space_def)
    moreover have "\<forall>c \<in> set ''://''. byte_in 0 0x7F c \<and> \<not> is_space c" "\<forall>c \<in> set ''/''. byte_in 0 0x7F c \<and> \<not> is_space c"
      by (simp_all add: byte_in_def is_space_def)
    ultimately have "\<forall>c \<in> set (item_url base path). byte_in 0 0x7F c \<and> \<not> is_space c"
      using ascii qf unfolding url set_append by blast
    then show ?thesis using split sch host user by (simp add: plain_url_def is_ascii_text_def list_all_iff list_ex_iff)
  qed
  with r show "check_queue_url (item_url base path) = Inr ()"
    unfolding check_queue_url_def split(1) option.case url_parts.simps drop part Let_def prod.case by simp
qed

subsection \<open>The items of a manifest\<close>

text \<open>The items in the order of the listing.\<close>

fun decided :: "(string \<Rightarrow> string) \<Rightarrow> policy \<Rightarrow> string \<Rightarrow> string \<Rightarrow> manifest_state \<Rightarrow> entry list \<Rightarrow> manifest_item list" where
  "decided nfc po base prefix s [] = []"
| "decided nfc po base prefix s (e # es) =
     decide_item nfc po base prefix s e # decided nfc po base prefix (write_item nfc po base prefix e s) es"

definition listing_items :: "(string \<Rightarrow> string) \<Rightarrow> policy \<Rightarrow> string \<Rightarrow> string \<Rightarrow> entry list \<Rightarrow> manifest_item list" where
  "listing_items nfc po base prefix es = decided nfc po base prefix start_manifest es"

text \<open>An item is either rejected by the program itself or mapped and classified.\<close>

definition item_ok :: "policy \<Rightarrow> string \<Rightarrow> string \<Rightarrow> manifest_item \<Rightarrow> bool" where
  "item_ok po base prefix i \<longleftrightarrow>
     (case mi_url i of
        None \<Rightarrow> mi_disposition i = Rejected \<and> mi_destination i = None \<and> mi_rank i = length (po_rules po) + 1
      | Some u \<Rightarrow> u = item_url base (mi_path i) \<and> mi_destination i = Some (prefix @ ''/'' @ mi_path i) \<and>
          mi_path i \<noteq> ''ALL_FILES'' \<and> unsafe_segment_reason (path_segments (mi_path i)) = None \<and> mi_rank i \<le> length (po_rules po))"

definition item_of_entry :: "entry \<Rightarrow> manifest_item \<Rightarrow> bool" where
  "item_of_entry e i \<longleftrightarrow> mi_line i = en_line e \<and> mi_path i = entry_path e \<and> mi_size i = en_size e"

lemma decide_item_facts:
  assumes "i = decide_item nfc po base prefix s e"
  shows "item_of_entry e i" "item_ok po base prefix i" "mi_url i \<noteq> None \<Longrightarrow> map_of (ms_seen s) (mi_path i) = None"
proof -
  obtain rank r where c: "classify po (entry_path e) (en_name e) = (rank, r)" by fastforce
  have "unsafe_path_reason p n = None \<Longrightarrow> unsafe_segment_reason (path_segments p) = None" for p n
    by (simp add: unsafe_path_reason_def path_segments_def split: if_splits)
  with classify_first [OF c] show "item_of_entry e i" "item_ok po base prefix i"
    unfolding assms decide_item_def Let_def c prod.case
    by (auto simp: item_of_entry_def item_ok_def split: option.split)
  show "mi_url i \<noteq> None \<Longrightarrow> map_of (ms_seen s) (mi_path i) = None"
    unfolding assms decide_item_def Let_def c prod.case by (auto split: option.splits if_splits)
qed

definition bucket_items :: "manifest_state \<Rightarrow> nat \<times> nat \<Rightarrow> manifest_item list" where
  "bucket_items s k = (case map_of (ms_buckets s) k of None \<Rightarrow> [] | Some b \<Rightarrow> b)"

definition holds_items :: "policy \<Rightarrow> string \<Rightarrow> string \<Rightarrow> manifest_item list \<Rightarrow> manifest_state \<Rightarrow> bool" where
  "holds_items po base prefix is s \<longleftrightarrow>
     (\<forall>k. bucket_items s k = filter (\<lambda>i. bucket_key i = k) is) \<and> distinct (map fst (ms_buckets s)) \<and>
     mt_files (ms_totals s) = length is \<and>
     (\<forall>d. mt_disposition (ms_totals s) d = length (filter (\<lambda>i. mi_disposition i = d) is)) \<and>
     sum_list (map snd (mt_by_rule (ms_totals s))) = length is \<and>
     (\<forall>p. map_of (ms_seen s) p \<noteq> None \<longleftrightarrow> p \<in> mi_path ` set is) \<and>
     distinct (map mi_path (filter (\<lambda>i. mi_url i \<noteq> None) is)) \<and> list_all (item_ok po base prefix) is"

lemma sum_update:
  "sum_list (map snd (AList.update k (Suc (case map_of cs k of None \<Rightarrow> 0 | Some n \<Rightarrow> n)) cs)) = Suc (sum_list (map snd cs))"
  by (induction cs) auto

lemma holds_write:
  assumes "holds_items po base prefix is s"
  shows "holds_items po base prefix (is @ [decide_item nfc po base prefix s e]) (write_item nfc po base prefix e s)"
proof -
  define i where "i = decide_item nfc po base prefix s e"
  note f = decide_item_facts [OF i_def]
  let ?t = "write_item nfc po base prefix e s"
  have b: "ms_buckets ?t = AList.update (bucket_key i) (bucket_items s (bucket_key i) @ [i]) (ms_buckets s)"
    by (simp add: write_item_def Let_def i_def bucket_items_def)
  have "bucket_items ?t k = filter (\<lambda>i. bucket_key i = k) (is @ [i])" for k
  proof -
    have "bucket_items ?t k = (if k = bucket_key i then bucket_items s k @ [i] else bucket_items s k)"
      unfolding bucket_items_def [of ?t] b by (auto simp: update_conv' bucket_items_def)
    moreover have "bucket_items s k = filter (\<lambda>i. bucket_key i = k) is" using assms unfolding holds_items_def by blast
    ultimately show ?thesis by auto
  qed
  moreover have "distinct (map fst (ms_buckets ?t))" unfolding b using assms by (auto simp: holds_items_def intro: distinct_update)
  moreover have "map_of (ms_seen ?t) p \<noteq> None \<longleftrightarrow> p \<in> mi_path ` set (is @ [i])" for p
    using assms by (auto simp: holds_items_def write_item_def Let_def i_def [symmetric])
  moreover have "distinct (map mi_path (filter (\<lambda>i. mi_url i \<noteq> None) (is @ [i])))"
  proof -
    have "mi_path i \<notin> mi_path ` set is" if "mi_url i \<noteq> None"
      using assms f(3) [OF that] unfolding holds_items_def by metis
    with assms show ?thesis by (auto simp: holds_items_def)
  qed
  moreover have "ms_totals ?t = add_totals i (ms_totals s)" by (simp add: write_item_def Let_def i_def)
  ultimately show ?thesis
    using assms f(2) unfolding i_def [symmetric]
    by (auto simp: holds_items_def add_totals_def sum_update)
qed

lemma holds_decided:
  "holds_items po base prefix is s \<Longrightarrow>
    holds_items po base prefix (is @ decided nfc po base prefix s es) (fold (write_item nfc po base prefix) es s)"
proof (induction es arbitrary: "is" s)
  case (Cons e es)
  from Cons.IH [OF holds_write [OF Cons.prems, of nfc e]] show ?case by simp
qed simp

lemma holds_listing: "holds_items po base prefix (listing_items nfc po base prefix es) (write_items nfc po base prefix es)"
proof -
  have "holds_items po base prefix [] start_manifest" by (simp add: holds_items_def start_manifest_def bucket_items_def)
  from holds_decided [OF this] show ?thesis by (simp add: listing_items_def write_items_def)
qed

lemma decided_entries: "list_all2 item_of_entry es (decided nfc po base prefix s es)"
  by (induction es arbitrary: s) (auto intro: decide_item_facts(1))

subsection \<open>The order of the manifest\<close>

lemma stable_sort_unique:
  fixes f :: "'a \<Rightarrow> 'k::linorder"
  assumes "\<And>k. filter (\<lambda>x. f x = k) ys = filter (\<lambda>x. f x = k) xs" and "sorted (map f ys)"
  shows "ys = sort_key f xs"
proof -
  have "count (mset ys) x = count (mset xs) x" for x
  proof -
    have "count (mset zs) x = count (mset (filter (\<lambda>y. f y = f x) zs)) x" for zs :: "'a list" by simp
    then show ?thesis using assms(1) [of "f x"] by metis
  qed
  then have "mset ys = mset xs" by (simp add: multiset_eq_iff)
  moreover have "filter (\<lambda>x. f k = f x) ys = filter (\<lambda>x. f k = f x) xs" for k
    using assms(1) [of "f k"] by (simp add: eq_commute)
  ultimately show ?thesis using properties_for_sort_key [of ys xs f] assms(2) by metis
qed

lemma filter_buckets:
  assumes "distinct (map fst bs)" and "\<And>k b i. (k, b) \<in> set bs \<Longrightarrow> i \<in> set b \<Longrightarrow> f i = k"
  shows "filter (\<lambda>i. f i = k) (concat (map snd bs)) = (case map_of bs k of None \<Rightarrow> [] | Some b \<Rightarrow> b)"
  using assms
proof (induction bs)
  case (Cons x bs)
  obtain k' b where x: "x = (k', b)" by (cases x)
  have b: "\<forall>i \<in> set b. f i = k'" using Cons.prems(2) x by auto
  have "filter (\<lambda>i. f i = k) (concat (map snd bs)) = (case map_of bs k of None \<Rightarrow> [] | Some b \<Rightarrow> b)"
    using Cons by auto
  moreover have "map_of bs k' = None" using Cons.prems(1) x by (simp add: map_of_eq_None_iff)
  ultimately show ?case using b by (auto simp: x filter_empty_conv filter_id_conv)
qed simp

lemma sorted_buckets:
  assumes "sorted (map fst bs)" and "\<And>k b i. (k, b) \<in> set bs \<Longrightarrow> i \<in> set b \<Longrightarrow> f i = k"
  shows "sorted (map f (concat (map snd bs)))"
  using assms
proof (induction bs)
  case (Cons x bs)
  obtain k b where x: "x = (k, b)" by (cases x)
  have "map f b = map (\<lambda>_. k) b" using Cons.prems(2) x by auto
  then have b: "map f b = replicate (length b) k" by (simp add: map_replicate_const)
  have "sorted (map f (concat (map snd bs)))" using Cons by auto
  moreover have "k \<le> f i" if "i \<in> set (concat (map snd bs))" for i
    using that Cons.prems x by fastforce
  ultimately show ?case by (auto simp: x sorted_append b)
qed simp

text \<open>
  C25: the bucket files implement a stable sort.  The items of a manifest are exactly the items
  decided along the listing, ordered by disposition and rule rank, with items of the same rank in
  the order of the listing.
\<close>

theorem manifest_is_stable_sort:
  "manifest_items (write_items nfc po base prefix es) = sort_key bucket_key (listing_items nfc po base prefix es)"
proof -
  let ?s = "write_items nfc po base prefix es" let ?is = "listing_items nfc po base prefix es"
  let ?bs = "sort_key fst (ms_buckets ?s)"
  note h = holds_listing [of po base prefix nfc es, unfolded holds_items_def]
  have d0: "distinct (map fst (ms_buckets ?s))" using h by blast
  have "mset (map fst ?bs) = mset (map fst (ms_buckets ?s))" by simp
  then have d: "distinct (map fst ?bs)" using d0 mset_eq_imp_distinct_iff by blast
  have m: "map_of ?bs k = map_of (ms_buckets ?s) k" for k using map_of_inject_set [OF d d0] by simp
  have key: "bucket_key i = k" if "(k, b) \<in> set ?bs" "i \<in> set b" for k b i
  proof -
    have "map_of (ms_buckets ?s) k = Some b" using that(1) d0 by simp
    then have "bucket_items ?s k = b" by (simp add: bucket_items_def)
    then have "b = filter (\<lambda>i. bucket_key i = k) ?is" using h by blast
    with that(2) show ?thesis by simp
  qed
  have "filter (\<lambda>i. bucket_key i = k) (concat (map snd ?bs)) = filter (\<lambda>i. bucket_key i = k) ?is" for k
  proof -
    have "filter (\<lambda>i. bucket_key i = k) (concat (map snd ?bs)) = (case map_of ?bs k of None \<Rightarrow> [] | Some b \<Rightarrow> b)"
      by (rule filter_buckets [OF d key])
    also have "\<dots> = bucket_items ?s k" by (simp only: m bucket_items_def)
    also have "\<dots> = filter (\<lambda>i. bucket_key i = k) ?is" using h by blast
    finally show ?thesis .
  qed
  moreover have "sorted (map bucket_key (concat (map snd ?bs)))" by (rule sorted_buckets [OF _ key]) simp
  ultimately show ?thesis unfolding manifest_items_def by (rule stable_sort_unique)
qed

subsection \<open>A manifest reconciles\<close>

lemma entry_path_valid: "entry_ok e \<Longrightarrow> utf8_error (entry_path e) = None"
  using utf8_append [of "''/''" "en_name e"] utf8_append [of "en_directory e" "''/'' @ en_name e"]
  by (auto simp: entry_ok_def entry_path_def utf8_error.simps byte_in_def)

text \<open>What a listed item owes to the parser.\<close>

definition item_text_ok :: "manifest_item \<Rightarrow> bool" where
  "item_text_ok i \<longleftrightarrow> is_size_token (mi_size i) \<and> (\<forall>w \<in> set (path_segments (mi_path i)). utf8_valid w)"

lemma listing_items_text:
  assumes "parse_listing raw = (p, es)"
  shows "list_all item_text_ok (listing_items nfc po base prefix es)"
proof -
  have ok: "list_all entry_ok es" by (rule parsed_entries_ok [OF assms])
  have "item_text_ok i" if "item_of_entry e i" "entry_ok e" for e i
    using that entry_path_valid [OF that(2)] utf8_valid_segments
    by (auto simp: item_of_entry_def item_text_ok_def entry_ok_def utf8_valid_def path_segments_def)
  with ok decided_entries [of es nfc po base prefix start_manifest] show ?thesis
    unfolding listing_items_def list_all_length list_all2_conv_all_nth by metis
qed

lemma distinct_items_urls:
  assumes "holds_items po base prefix is s"
  shows "distinct (map mi_url (filter (\<lambda>i. mi_url i \<noteq> None) is))"
proof -
  let ?is = "filter (\<lambda>i. mi_url i \<noteq> None) is"
  have "mi_url i = Some (item_url base (mi_path i))" if "i \<in> set ?is" for i
    using assms that by (auto simp: holds_items_def list_all_iff item_ok_def split: option.splits)
  then have "map mi_url ?is = map (Some \<circ> item_url base) (map mi_path ?is)" by simp
  moreover have "inj (Some \<circ> item_url base)" using item_url_injective by (auto simp: inj_def)
  ultimately show ?thesis using assms distinct_map inj_on_subset by (metis holds_items_def subset_UNIV)
qed

lemma sum_dispositions:
  "length is = length (filter (\<lambda>i. mi_disposition i = Priority) is) + length (filter (\<lambda>i. mi_disposition i = Deferred) is) +
     length (filter (\<lambda>i. mi_disposition i = Rejected) is)"
proof (induction "is")
  case (Cons i "is")
  then show ?case by (cases "mi_disposition i") auto
qed simp

text \<open>
  A manifest reconciles with the parse report of its snapshot.  For a suitable base URL
  \<open>command_manifest\<close> never refuses its own totals: the files are the lines of class \<open>file\<close>, they
  are the sum over the dispositions and over the rules, every one of them is an item, and no URL
  is given to two items.
\<close>

theorem manifest_reconciles:
  assumes "parse_base_url base_url = Inr (base, prefix)" and "report (fst (parse_listing raw)) = Some r"
  shows "\<exists>s. command_manifest nfc po base_url raw r = Inr s \<and> mt_files (ms_totals s) = pr_classes r FileEntry \<and>
    mt_files (ms_totals s) = length (manifest_items s) \<and>
    mt_files (ms_totals s) = mt_disposition (ms_totals s) Priority + mt_disposition (ms_totals s) Deferred + mt_disposition (ms_totals s) Rejected \<and>
    mt_files (ms_totals s) = sum_list (map snd (mt_by_rule (ms_totals s))) \<and>
    distinct (map mi_url (filter (\<lambda>i. mi_url i \<noteq> None) (manifest_items s)))"
proof -
  obtain p es where run: "parse_listing raw = (p, es)" by fastforce
  let ?s = "write_items nfc po base prefix es" let ?is = "listing_items nfc po base prefix es"
  note h = holds_listing [of po base prefix nfc es]
  from every_line_is_accounted [OF run] assms(2) run have files: "length es = pr_classes r FileEntry" by auto
  have len: "length ?is = length es"
    using decided_entries [of es nfc po base prefix start_manifest] by (simp add: listing_items_def list_all2_lengthD)
  have "distinct (map mi_url (filter (\<lambda>i. mi_url i \<noteq> None) (sort_key bucket_key ?is)))"
    using distinct_items_urls [OF h] by (simp add: filter_sort_key) (metis distinct_map distinct_sort set_sort)
  moreover have "length (manifest_items ?s) = length ?is" by (simp add: manifest_is_stable_sort)
  ultimately show ?thesis
    using h assms(1) files len sum_dispositions [of ?is] run
    by (auto simp: command_manifest_def and_then_def manifest_is_stable_sort holds_items_def)
qed

subsection \<open>The exported queue\<close>

lemma size_token_chars:
  assumes "is_size_token t"
  shows "t \<noteq> [] \<and> (\<forall>c \<in> set t. \<not> is_space c)"
proof -
  define r where "r = dropWhile is_digit t"
  define q where "q = (if starts_with ''.'' r \<and> takeWhile is_digit (tl r) \<noteq> [] then dropWhile is_digit (tl r) else r)"
  have digits: "\<forall>c \<in> set (takeWhile is_digit w). \<not> is_space c" for w
    by (auto simp: is_digit_def is_space_def Let_def dest!: set_takeWhileD)
  have "\<not> is_space c" if "c \<in> set ''KMGTPE.''" for c using that by (auto simp: is_space_def)
  moreover from assms have "q = [] \<or> (length q = 1 \<and> hd q \<in> set ''KMGTPE'')" and ne: "takeWhile is_digit t \<noteq> []"
    unfolding is_size_token_def Let_def q_def r_def by blast+
  ultimately have q: "\<forall>c \<in> set q. \<not> is_space c" by (cases q) auto
  have r: "\<forall>c \<in> set r. \<not> is_space c"
  proof (cases "starts_with ''.'' r \<and> takeWhile is_digit (tl r) \<noteq> []")
    case True
    then have "q = dropWhile is_digit (tl r)" by (simp add: q_def)
    then have "set (tl r) = set (takeWhile is_digit (tl r)) \<union> set q" by (metis set_append takeWhile_dropWhile_id)
    then have "\<forall>c \<in> set (tl r). \<not> is_space c" using digits q by auto
    moreover have "r = CHR ''.'' # tl r" using True by (cases r) (auto simp: starts_with_def)
    moreover have "\<not> is_space (CHR ''.'')" by (simp add: is_space_def)
    ultimately show ?thesis by (metis set_ConsD)
  next
    case False
    then have "q = r" by (simp only: q_def if_False)
    with q show ?thesis by simp
  qed
  have t: "t = takeWhile is_digit t @ r" by (simp add: r_def)
  then have "set t = set (takeWhile is_digit t) \<union> set r" by (metis set_append)
  then show ?thesis using digits r ne by auto
qed

lemma split_ws_word:
  assumes "w \<noteq> []" and "\<forall>c \<in> set w. \<not> is_space c"
  shows "split_ws w = [w]" and "split_ws (w @ CHR '' '' # s) = w # split_ws s"
  using assms
proof (induction w)
  case (Cons c w)
  { case 1
    with Cons show ?case by (cases w) auto
  next
    case 2
    with Cons show ?case by (cases w) (auto simp: is_space_def)
  }
qed simp_all

lemma strip_line:
  assumes "w \<noteq> []" and "\<not> is_space (hd w)" and "\<not> is_space (last w)"
  shows "strip (w @ [newline]) = w"
proof -
  have "lstrip (w @ [newline]) = w @ [newline]" using assms by (cases w) (auto simp: lstrip_def)
  moreover have "lstrip (newline # rev w) = rev w"
    using assms by (cases w rule: rev_cases) (auto simp: lstrip_def is_space_def)
  ultimately show ?thesis by (simp add: strip_def)
qed

lemma strip_comment: "\<exists>t. strip (CHR ''#'' # s) = CHR ''#'' # t"
proof -
  have "\<exists>t. dropWhile is_space (w @ [CHR ''#'']) = t @ [CHR ''#'']" for w
    by (induction w) (simp_all add: is_space_def)
  then obtain t where t: "dropWhile is_space (rev s @ [CHR ''#'']) = t @ [CHR ''#'']" by blast
  have "lstrip (CHR ''#'' # s) = CHR ''#'' # s" by (simp add: lstrip_def is_space_def)
  with t have "strip (CHR ''#'' # s) = CHR ''#'' # rev t" by (simp add: strip_def lstrip_def)
  then show ?thesis by blast
qed

definition queue_text :: "string option \<Rightarrow> manifest_item \<Rightarrow> string" where
  "queue_text generation i = the (mi_url i) @ '' size='' @ mi_size i @ generation_token generation @ [newline]"

definition queued_item :: "string option \<Rightarrow> manifest_item \<Rightarrow> queue_entry" where
  "queued_item generation i = \<lparr>q_url = the (mi_url i),
     q_path = \<lparr>pp_absolute = False, pp_names = path_segments (the (mi_destination i))\<rparr>,
     q_size = Some (mi_size i), q_sha256 = None, q_generation = generation\<rparr>"

definition generation_ok :: "string option \<Rightarrow> bool" where
  "generation_ok generation \<longleftrightarrow> (\<forall>t. generation = Some t \<longrightarrow> t \<noteq> [] \<and> length t \<le> 128 \<and> list_all generation_char t)"

lemma generation_passes: "generation_ok (Some t) \<Longrightarrow> is_generation t"
proof -
  assume ok: "generation_ok (Some t)"
  have "\<not> generation_char newline" by (simp add: generation_char_def is_upper_def is_lower_def is_digit_def)
  with ok have "last t \<noteq> newline" unfolding generation_ok_def list_all_iff using last_in_set [of t] by metis
  with ok show ?thesis by (simp add: generation_ok_def is_generation_def)
qed

lemma generation_spaces: "generation_char c \<Longrightarrow> \<not> is_space c"
  by (auto simp: generation_char_def is_upper_def is_lower_def is_digit_def is_space_def Let_def)

lemma read_queue_text:
  assumes "mi_url i = Some u" and "\<forall>c \<in> set u. \<not> is_space c" and "hd u = CHR ''h''" and "u \<noteq> []"
    and size: "is_size_token (mi_size i)" and gen: "generation_ok generation"
    and "relative_path u = Inr \<lparr>pp_absolute = False, pp_names = path_segments (the (mi_destination i))\<rparr>" and "u \<notin> set (qs_seen s)"
  shows "queue_line (queue_text generation i) s =
    s\<lparr>qs_seen := u # qs_seen s, qs_entries := qs_entries s @ [queued_item generation i]\<rparr>"
proof -
  let ?f = "(''size='' @ mi_size i) # (case generation of None \<Rightarrow> [] | Some t \<Rightarrow> [''generation='' @ t])"
  let ?w = "u @ '' size='' @ mi_size i @ generation_token generation"
  note tok = size_token_chars [OF size]
  have g: "generation = None \<or> (\<exists>c cs. generation = Some (c # cs) \<and> (\<forall>x \<in> set (c # cs). \<not> is_space x))"
    using gen generation_spaces by (cases generation; cases "the generation") (auto simp: generation_ok_def list_all_iff)
  have spaces: "\<not> is_space x" if "x \<in> set ''size='' \<or> x \<in> set ''generation=''" for x using that by (auto simp: is_space_def)
  have fields: "split_ws ?w = u # ?f"
  proof -
    have size_word: "\<forall>c \<in> set (''size='' @ mi_size i). \<not> is_space c" using tok spaces unfolding set_append by blast
    have "split_ws ?w = u # split_ws ((''size='' @ mi_size i) @ generation_token generation)"
      using split_ws_word(2) [OF assms(4,2), of "(''size='' @ mi_size i) @ generation_token generation"] by simp
    also have "split_ws ((''size='' @ mi_size i) @ generation_token generation) = ?f"
      using g
    proof
      assume "generation = None"
      then show ?thesis using split_ws_word(1) [OF _ size_word] by (simp add: generation_token_def)
    next
      assume "\<exists>c cs. generation = Some (c # cs) \<and> (\<forall>x \<in> set (c # cs). \<not> is_space x)"
      then obtain c cs where t: "generation = Some (c # cs)" "\<forall>x \<in> set (c # cs). \<not> is_space x" by blast
      have "\<forall>x \<in> set (''generation='' @ c # cs). \<not> is_space x" using t(2) spaces unfolding set_append by blast
      then have "split_ws (''generation='' @ c # cs) = [''generation='' @ c # cs]" using split_ws_word(1) by blast
      then show ?thesis using split_ws_word(2) [OF _ size_word, of "''generation='' @ c # cs"] t(1) by (simp add: generation_token_def)
    qed
    finally show ?thesis .
  qed
  have "last ?w \<in> set (mi_size i) \<or> (\<exists>c cs. generation = Some (c # cs) \<and> last ?w \<in> set (c # cs))"
    using g tok by (auto simp: generation_token_def)
  then have "\<not> is_space (last ?w)" using tok g by auto
  moreover have "\<not> is_space (hd ?w)" "?w \<noteq> []" using assms(3,4) by (simp_all add: is_space_def)
  ultimately have stripped: "strip (queue_text generation i) = ?w"
    using strip_line [of ?w] assms(1) by (simp add: queue_text_def)
  have "py_partition (CHR ''='') (''size='' @ mi_size i) = (''size'', True, mi_size i)"
    "py_partition (CHR ''='') (''generation='' @ t) = (''generation'', True, t)" for t
    using partition_word(1) [of "CHR ''=''" "''size''" "mi_size i"] partition_word(1) [of "CHR ''=''" "''generation''" t] by simp_all
  then have tokens: "parse_queue_line_tokens ?f [] = Inr ((''size'', mi_size i) # (case generation of None \<Rightarrow> [] | Some t \<Rightarrow> [(''generation'', t)]))"
    using tok g by (auto simp: QUEUE_LINE_TOKEN_KEYS_def)
  have "?w \<noteq> [] \<and> \<not> starts_with ''#'' ?w" using assms(3,4) by (cases u) (auto simp: starts_with_def)
  then show ?thesis
    unfolding queue_line_def stripped Let_def fields list.sel tokens using assms(1,7,8)
    by (auto simp: queued_item_def split: option.split)
qed

lemma queue_comment: "queue_line (CHR ''#'' # t) s = s"
proof -
  from strip_comment obtain u where "strip (CHR ''#'' # t) = CHR ''#'' # u" by blast
  then show ?thesis by (simp add: queue_line_def Let_def starts_with_def)
qed


text \<open>An item that the queue export writes and the downloader reads.\<close>

definition queue_ready :: "manifest_item \<Rightarrow> bool" where
  "queue_ready i \<longleftrightarrow> (\<exists>u. mi_url i = Some u \<and> check_queue_url u = Inr () \<and> (\<forall>c \<in> set u. \<not> is_space c) \<and> u \<noteq> [] \<and> hd u = CHR ''h'' \<and>
     relative_path u = Inr \<lparr>pp_absolute = False, pp_names = path_segments (the (mi_destination i))\<rparr>) \<and> is_size_token (mi_size i)"

lemma export_items_ok:
  assumes "\<forall>i \<in> set is. mi_disposition i = d \<longrightarrow> queue_ready i"
    and "distinct (map mi_url (filter (\<lambda>i. mi_disposition i = d) is))"
    and "\<forall>i \<in> set is. mi_disposition i = d \<longrightarrow> mi_url i \<notin> Some ` set seen"
  shows "export_items d generation is seen = Inr (map (queue_text generation) (filter (\<lambda>i. mi_disposition i = d) is))"
  using assms
proof (induction "is" arbitrary: seen)
  case (Cons i "is")
  show ?case
  proof (cases "mi_disposition i = d")
    case True
    with Cons.prems(1) obtain u where u: "mi_url i = Some u" "check_queue_url u = Inr ()" by (auto simp: queue_ready_def)
    have "export_items d generation is (u # seen) = Inr (map (queue_text generation) (filter (\<lambda>i. mi_disposition i = d) is))"
      using Cons.prems u True by (intro Cons.IH) (auto simp: image_iff)
    moreover have "u \<notin> set seen" using Cons.prems(3) True u by auto
    ultimately show ?thesis using True u by (simp add: and_then_def queue_text_def)
  qed (use Cons in simp)
qed simp

lemma read_queue_texts:
  assumes "\<forall>i \<in> set is. queue_ready i" and "generation_ok generation"
    and "distinct (map mi_url is)" and "\<forall>i \<in> set is. mi_url i \<notin> Some ` set (qs_seen s)"
  shows "qs_rejected (fold queue_line (map (queue_text generation) is) s) = qs_rejected s \<and>
    qs_entries (fold queue_line (map (queue_text generation) is) s) = qs_entries s @ map (queued_item generation) is"
  using assms
proof (induction "is" arbitrary: s)
  case (Cons i "is")
  from Cons.prems(1) obtain u where u: "mi_url i = Some u" "\<forall>c \<in> set u. \<not> is_space c" "u \<noteq> []" "hd u = CHR ''h''"
    "relative_path u = Inr \<lparr>pp_absolute = False, pp_names = path_segments (the (mi_destination i))\<rparr>" "is_size_token (mi_size i)"
    by (auto simp: queue_ready_def)
  have "u \<notin> set (qs_seen s)" using Cons.prems(4) u(1) by auto
  note line = read_queue_text [OF u(1,2,4,3,6) Cons.prems(2) u(5) this]
  have "\<forall>j \<in> set is. mi_url j \<notin> Some ` set (qs_seen (queue_line (queue_text generation i) s))"
    using Cons.prems(3,4) u(1) by (auto simp: line image_iff)
  from Cons.IH [OF _ Cons.prems(2) _ this] Cons.prems(1,3) show ?case by (simp add: line)
qed simp

lemma listed_item_ready:
  assumes "parse_base_url b = Inr (base, prefix)" and "CHR ''%'' \<notin> set prefix" "CHR 0x00 \<notin> set prefix"
    and "item_ok po base prefix i" and "item_text_ok i" and "mi_disposition i \<noteq> Rejected" and "exportable prefix (mi_path i)"
  shows "queue_ready i"
proof -
  from assms(4,6) have i: "mi_url i = Some (item_url base (mi_path i))" "mi_destination i = Some (prefix @ ''/'' @ mi_path i)"
    "unsafe_segment_reason (path_segments (mi_path i)) = None"
    by (auto simp: item_ok_def split: option.splits)
  from assms(5) have t: "is_size_token (mi_size i)" "\<forall>w \<in> set (path_segments (mi_path i)). utf8_valid w"
    by (simp_all add: item_text_ok_def)
  note r = item_url_reads_back [OF assms(1,2,3) i(3) t(2) assms(7)]
  from assms(1) obtain sch n where "base = sch @ ''://'' @ n @ ''/'' @ prefix" "sch \<in> {''http'', ''https''}" by (rule base_url_shape)
  then have h: "item_url base (mi_path i) \<noteq> []" "hd (item_url base (mi_path i)) = CHR ''h''" by (auto simp: item_url_def)
  from r(2) have "\<forall>c \<in> set (item_url base (mi_path i)). \<not> is_space c"
    by (auto simp: check_queue_url_def plain_url_def list_ex_iff Let_def split: option.splits prod.splits if_splits)
  with h r i t(1) show ?thesis by (simp add: queue_ready_def)
qed

text \<open>
  C26: the exported queue reads back.  For a disposition other than \<open>rejected\<close>, a well-formed
  generation and a collection name without percent escapes, the queue that \<open>command_queue\<close> writes
  of the manifest of a listing is read by the downloader without a rejected line, and its entries
  are the items of that disposition in the order of the manifest, each with the destination, the
  size token and the generation the manifest gave it.
\<close>

theorem exported_queue_reads_back:
  assumes "parse_base_url b = Inr (base, prefix)" and "CHR ''%'' \<notin> set prefix" "CHR 0x00 \<notin> set prefix"
    and "d \<noteq> Rejected" and "generation_ok generation"
    and "\<forall>i \<in> set (manifest_items (write_items nfc po base prefix (snd (parse_listing raw)))).
      mi_disposition i = d \<longrightarrow> exportable prefix (mi_path i)"
  shows "\<exists>ls. command_queue sha d generation (manifest_items (write_items nfc po base prefix (snd (parse_listing raw)))) = Inr ls \<and>
    qs_rejected (read_queues [ls]) = [] \<and>
    qs_entries (read_queues [ls]) = map (queued_item generation)
      (filter (\<lambda>i. mi_disposition i = d) (manifest_items (write_items nfc po base prefix (snd (parse_listing raw)))))"
proof -
  obtain p es where run: "parse_listing raw = (p, es)" by fastforce
  let ?l = "listing_items nfc po base prefix es"
  define ms where "ms = manifest_items (write_items nfc po base prefix es)"
  define out where "out = filter (\<lambda>i. mi_disposition i = d) ms"
  have ms: "ms = sort_key bucket_key ?l" unfolding ms_def by (rule manifest_is_stable_sort)
  note h = holds_listing [of po base prefix nfc es]
  have "item_ok po base prefix i \<and> item_text_ok i" if "i \<in> set ms" for i
    using that h listing_items_text [OF run, of nfc po base prefix] by (auto simp: ms holds_items_def list_all_iff)
  then have ready: "\<forall>i \<in> set ms. mi_disposition i = d \<longrightarrow> queue_ready i"
    using listed_item_ready [OF assms(1,2,3)] assms(4,6) run by (auto simp: ms_def)
  have "distinct (map mi_url (filter (\<lambda>i. mi_url i \<noteq> None) ms))"
    using distinct_items_urls [OF h] unfolding ms by (simp add: filter_sort_key) (metis distinct_map distinct_sort set_sort)
  then have "distinct (map mi_url (filter (\<lambda>i. mi_disposition i = d) (filter (\<lambda>i. mi_url i \<noteq> None) ms)))" by (rule distinct_map_filter)
  moreover have "filter (\<lambda>i. mi_disposition i = d) (filter (\<lambda>i. mi_url i \<noteq> None) ms) = out"
    unfolding out_def filter_filter by (rule filter_cong) (use ready in \<open>auto simp: queue_ready_def\<close>)
  ultimately have dist: "distinct (map mi_url out)" by simp
  have "export_items d generation ms [] = Inr (map (queue_text generation) out)"
    using export_items_ok [of ms d "[]" generation] ready dist by (simp add: out_def)
  moreover have "\<not> (generation \<noteq> None \<and> \<not> is_generation (the generation))"
    using generation_passes [of "the generation"] assms(5) by (cases generation) simp_all
  ultimately have run: "command_queue sha d generation ms =
      Inr ((''# manifest_sha256='' @ sha @ [newline]) # (''# disposition='' @ disposition_text d @ [newline]) # map (queue_text generation) out)"
    unfolding command_queue_def by (simp add: and_then_def)
  have "\<forall>i \<in> set out. queue_ready i" using ready by (simp add: out_def)
  note read_queue_texts [OF this assms(5) dist, of start_queue_scan]
  then show ?thesis using run \<open>parse_listing raw = (p, es)\<close>
    by (simp add: ms_def [symmetric] out_def [symmetric] read_queues_def start_queue_scan_def queue_comment)
qed


subsection \<open>Examples\<close>

definition example_manifest_listing :: string where
  "example_manifest_listing = ''./a b:'' @ [newline, newline] @ ''- 1.5K x.bin'' @ [newline] @ ''- 2 y#.txt'' @ [newline] @
     ''- 3 x.bin'' @ [newline] @ ''- 4 w.bin'' @ [newline]"

definition example_policy :: policy where
  "example_policy = \<lparr>po_version = ''1'', po_sha256 = [],
     po_rules = [\<lparr>ru_id = ''binaries'', ru_prefix = [], ru_extensions = [''.bin''], ru_names = [], ru_disposition = Priority, ru_reason = ''first''\<rparr>],
     po_default = \<lparr>ru_id = ''default'', ru_prefix = [], ru_extensions = [], ru_names = [], ru_disposition = Deferred, ru_reason = ''later''\<rparr>\<rparr>"

definition example_base :: string where "example_base = ''http://x.onion/c''"

lemma example_base_parses: "parse_base_url example_base = Inr (example_base, ''c'')"
  by code_simp

lemma example_manifest_lines:
  "file_lines example_manifest_listing = [''./a b:'', [], ''- 1.5K x.bin'', ''- 2 y#.txt'', ''- 3 x.bin'', ''- 4 w.bin'']"
  by code_simp

lemma example_manifest_short: "parse_listing example_manifest_listing = parse_short example_manifest_listing"
  by (rule parse_listing_short) (simp add: example_manifest_lines MAX_LINE_BYTES_def)

lemma example_manifest_items:
  "map (\<lambda>i. (mi_line i, mi_path i, mi_url i, mi_disposition i, mi_rule i))
     (manifest_items (write_items (\<lambda>p. p) example_policy example_base ''c'' (snd (parse_listing example_manifest_listing)))) =
   [(3, ''a b/x.bin'', Some ''http://x.onion/c/a%20b/x.bin'', Priority, ''binaries''),
    (6, ''a b/w.bin'', Some ''http://x.onion/c/a%20b/w.bin'', Priority, ''binaries''),
    (4, ''a b/y#.txt'', Some ''http://x.onion/c/a%20b/y%23.txt'', Deferred, ''default''),
    (5, ''a b/x.bin'', None, Rejected, ''builtin:duplicate_path'')]"
  unfolding example_manifest_short by code_simp

theorem manifest_reconciles_witness:
  "\<exists>r s. report (fst (parse_listing example_manifest_listing)) = Some r \<and>
    command_manifest (\<lambda>p. p) example_policy example_base example_manifest_listing r = Inr s \<and>
    mt_files (ms_totals s) = length (manifest_items s) \<and> mt_files (ms_totals s) = 4"
proof -
  have "map_option (\<lambda>r. pr_classes r FileEntry) (report (fst (parse_listing example_manifest_listing))) = Some 4"
    unfolding example_manifest_short by code_simp
  then obtain r where r: "report (fst (parse_listing example_manifest_listing)) = Some r" "pr_classes r FileEntry = 4" by auto
  from manifest_reconciles [OF example_base_parses r(1), of "\<lambda>p. p" example_policy] r show ?thesis by auto
qed

theorem exported_queue_reads_back_witness:
  "\<exists>ls. command_queue ''0'' Priority (Some ''g1'')
      (manifest_items (write_items (\<lambda>p. p) example_policy example_base ''c'' (snd (parse_listing example_manifest_listing)))) = Inr ls \<and>
    map q_url (qs_entries (read_queues [ls])) = [''http://x.onion/c/a%20b/x.bin'', ''http://x.onion/c/a%20b/w.bin''] \<and>
    qs_rejected (read_queues [ls]) = []"
proof -
  let ?is = "manifest_items (write_items (\<lambda>p. p) example_policy example_base ''c'' (snd (parse_listing example_manifest_listing)))"
  have gen: "generation_ok (Some ''g1'')" by (simp add: generation_ok_def generation_char_def is_lower_def is_digit_def)
  have "map mi_path ?is = map (fst \<circ> snd) (map (\<lambda>i. (mi_line i, mi_path i, mi_url i, mi_disposition i, mi_rule i)) ?is)" by simp
  then have paths: "map mi_path ?is = [''a b/x.bin'', ''a b/w.bin'', ''a b/y#.txt'', ''a b/x.bin'']"
    unfolding example_manifest_items by simp
  have "list_all (exportable ''c'') (map mi_path ?is)" unfolding paths by (simp add: exportable_def)
  then have ok: "\<forall>i \<in> set ?is. mi_disposition i = Priority \<longrightarrow> exportable ''c'' (mi_path i)" by (simp add: list_all_iff)
  have "map (\<lambda>i. the (mi_url i)) (filter (\<lambda>i. mi_disposition i = Priority) ?is) =
      map (the \<circ> (fst \<circ> snd \<circ> snd)) (filter (\<lambda>x. fst (snd (snd (snd x))) = Priority)
        (map (\<lambda>i. (mi_line i, mi_path i, mi_url i, mi_disposition i, mi_rule i)) ?is))"
    by (simp add: filter_map comp_def)
  then have urls: "map (\<lambda>i. the (mi_url i)) (filter (\<lambda>i. mi_disposition i = Priority) ?is) =
      [''http://x.onion/c/a%20b/x.bin'', ''http://x.onion/c/a%20b/w.bin'']"
    unfolding example_manifest_items by simp
  have clean: "CHR ''%'' \<notin> set ''c''" "CHR 0x00 \<notin> set ''c''" by simp_all
  from exported_queue_reads_back [OF example_base_parses clean, of Priority "Some ''g1''" "\<lambda>p. p" example_policy example_manifest_listing "''0''"]
    gen ok obtain ls where "command_queue ''0'' Priority (Some ''g1'') ?is = Inr ls" "qs_rejected (read_queues [ls]) = []"
    "qs_entries (read_queues [ls]) = map (queued_item (Some ''g1'')) (filter (\<lambda>i. mi_disposition i = Priority) ?is)" by auto
  then show ?thesis using urls by (auto simp: queued_item_def comp_def)
qed

definition hidden_listing :: string where
  "hidden_listing = ''./data:'' @ [newline, newline] @ ''- 1 ALL_FILES'' @ [newline] @ ''- 2 y.txt'' @ [newline]"

lemma hidden_listing_lines: "file_lines hidden_listing = [''./data:'', [], ''- 1 ALL_FILES'', ''- 2 y.txt'']"
  by code_simp

lemma hidden_listing_short: "parse_listing hidden_listing = parse_short hidden_listing"
  by (rule parse_listing_short) (simp add: hidden_listing_lines MAX_LINE_BYTES_def)

definition hidden_report :: parse_report where
  "hidden_report = the (report (fst (parse_short hidden_listing)))"

text \<open>
  An accepted manifest may have no queue.  A file \<open>ALL_FILES\<close> in the directory \<open>data\<close> of a
  listing gets a source URL and a disposition when the base URL has no \<open>data\<close> segment of its own,
  but its URL is one that \<open>check_queue_url\<close> refuses, so the export of every item of that
  disposition fails.
\<close>

theorem accepted_manifest_without_queue:
  "(case command_manifest (\<lambda>p. p) example_policy example_base hidden_listing hidden_report of
      Inl x \<Rightarrow> False
    | Inr s \<Rightarrow> map mi_disposition (manifest_items s) = [Deferred, Deferred] \<and>
        command_queue ''0'' Deferred None (manifest_items s) = Inl (UnsafeQueueUrl ''http://x.onion/c/data/ALL_FILES''))"
  unfolding command_manifest_def hidden_listing_short by code_simp

end
