(* ===== verification/Snapshots.thy ===== *)
theory Snapshots
  imports Manifest
begin

text \<open>
  The snapshot store and the snapshot diff of \<open>src/inventory.py\<close>: \<open>_load_sizes\<close> and
  \<open>diff_snapshots\<close>, and \<open>command_snapshot\<close>, \<open>load_snapshot\<close>, \<open>command_activate\<close> on a store of
  snapshot directories with its activation log.

  \<open>nfc\<close> is \<open>unicodedata.normalize("NFC", path)\<close>, \<open>sha\<close> the SHA-256 hex digest.
\<close>

subsection \<open>One side of a diff\<close>

record snapshot_side =
  sd_sizes :: "(string \<times> string) list"
  sd_dups :: "string list"
  sd_unsafe :: "string list"
  sd_files :: nat
  sd_listing :: nat
  sd_dup_lines :: nat

definition empty_side :: snapshot_side where
  "empty_side = \<lparr>sd_sizes = [], sd_dups = [], sd_unsafe = [], sd_files = 0, sd_listing = 0, sd_dup_lines = 0\<rparr>"

definition add_size :: "entry \<Rightarrow> snapshot_side \<Rightarrow> snapshot_side" where
  "add_size e s =
     (let path = entry_path e; s = s\<lparr>sd_files := sd_files s + 1\<rparr> in
      if path = ''ALL_FILES'' then s\<lparr>sd_listing := sd_listing s + 1\<rparr>
      else if map_of (sd_sizes s) path \<noteq> None
      then s\<lparr>sd_dups := List.insert path (sd_dups s), sd_dup_lines := sd_dup_lines s + 1\<rparr>
      else let s = s\<lparr>sd_sizes := sd_sizes s @ [(path, en_size e)]\<rparr> in
        if unsafe_path_reason path (en_name e) \<noteq> None then s\<lparr>sd_unsafe := List.insert path (sd_unsafe s)\<rparr> else s)"

definition load_sizes :: "string \<Rightarrow> snapshot_side" where
  "load_sizes raw = fold add_size (snd (parse_listing raw)) empty_side"

subsection \<open>The diff\<close>

datatype category = Added | Removed | MetadataChanged | Ambiguous | Unchanged

definition DIFF_CATEGORIES :: "category list" where
  "DIFF_CATEGORIES = [Added, Removed, MetadataChanged, Ambiguous, Unchanged]"

record diff_record =
  df_path :: string
  df_category :: category
  df_old :: "string option"
  df_new :: "string option"
  df_reasons :: "string list"

text \<open>What one path is before normalization is looked at.\<close>

definition compare_path :: "snapshot_side \<Rightarrow> snapshot_side \<Rightarrow> string \<Rightarrow> diff_record" where
  "compare_path old new path =
     (let before = map_of (sd_sizes old) path; after = map_of (sd_sizes new) path;
          reasons = (if path \<in> set (sd_dups old) then [''duplicate_path_in_old''] else []) @
            (if path \<in> set (sd_dups new) then [''duplicate_path_in_new''] else []) @
            (if path \<in> set (sd_unsafe old) \<or> path \<in> set (sd_unsafe new) then [''unsafe_path''] else [])
      in \<lparr>df_path = path,
          df_category = (if reasons \<noteq> [] then Ambiguous else if before = None then Added else if after = None then Removed
            else if before \<noteq> after then MetadataChanged else Unchanged),
          df_old = before, df_new = after, df_reasons = reasons\<rparr>)"

definition diff_paths :: "snapshot_side \<Rightarrow> snapshot_side \<Rightarrow> string list" where
  "diff_paths old new = sort (remdups (map fst (sd_sizes old) @ map fst (sd_sizes new)))"

text \<open>
  The second pass changes the records in place: an added record whose normalized path is that of
  removed ones makes all of them ambiguous.  \<open>removed\<close> was collected before the pass.
\<close>

definition make_twin :: "diff_record \<Rightarrow> diff_record" where
  "make_twin r = r\<lparr>df_category := Ambiguous, df_reasons := [''nfc_equivalent_add_remove'']\<rparr>"

definition twin_step :: "(string \<Rightarrow> string) \<Rightarrow> string list \<Rightarrow> nat \<Rightarrow> diff_record list \<Rightarrow> diff_record list" where
  "twin_step nfc removed k rs =
     (let r = rs ! k;
          twins = (if df_category r = Added then filter (\<lambda>p. nfc p = nfc (df_path r)) removed else [])
      in if twins = [] then rs
         else map (\<lambda>x. if df_path x = df_path r \<or> df_path x \<in> set twins then make_twin x else x) rs)"

definition mark_twins :: "(string \<Rightarrow> string) \<Rightarrow> diff_record list \<Rightarrow> diff_record list" where
  "mark_twins nfc rs =
     fold (twin_step nfc (map df_path (filter (\<lambda>r. df_category r = Removed) rs))) [0..<length rs] rs"

record diff_totals =
  dt_old_files :: nat
  dt_new_files :: nat
  dt_old_unique :: nat
  dt_new_unique :: nat
  dt_old_duplicates :: nat
  dt_new_duplicates :: nat
  dt_old_listing :: nat
  dt_new_listing :: nat
  dt_categories :: "category \<Rightarrow> nat"

definition diff_snapshots :: "(string \<Rightarrow> string) \<Rightarrow> snapshot_side \<Rightarrow> snapshot_side \<Rightarrow> inventory_error + (diff_record list \<times> diff_totals)" where
  "diff_snapshots nfc old new =
     (let compared = map (compare_path old new) (diff_paths old new);
          records = mark_twins nfc (filter (\<lambda>r. df_category r \<noteq> Unchanged) compared);
          categories = (\<lambda>c. (if c = Unchanged then length (filter (\<lambda>r. df_category r = Unchanged) compared) else 0) +
            length (filter (\<lambda>r. df_category r = c) records));
          totals = \<lparr>dt_old_files = sd_files old, dt_new_files = sd_files new,
            dt_old_unique = length (sd_sizes old), dt_new_unique = length (sd_sizes new),
            dt_old_duplicates = sd_dup_lines old, dt_new_duplicates = sd_dup_lines new,
            dt_old_listing = sd_listing old, dt_new_listing = sd_listing new, dt_categories = categories\<rparr>
      in if sd_files old \<noteq> length (sd_sizes old) + sd_dup_lines old + sd_listing old \<or>
            sd_files new \<noteq> length (sd_sizes new) + sd_dup_lines new + sd_listing new \<or>
            sum_list (map categories DIFF_CATEGORIES) \<noteq> length (diff_paths old new)
         then Inl DiffDoesNotReconcile else Inr (records, totals))"

subsection \<open>Sides are consistent\<close>

definition side_ok :: "snapshot_side \<Rightarrow> bool" where
  "side_ok s \<longleftrightarrow> distinct (map fst (sd_sizes s)) \<and> sd_files s = length (sd_sizes s) + sd_dup_lines s + sd_listing s \<and>
     set (sd_dups s) \<subseteq> fst ` set (sd_sizes s) \<and> set (sd_unsafe s) \<subseteq> fst ` set (sd_sizes s) \<and>
     ''ALL_FILES'' \<notin> fst ` set (sd_sizes s)"

lemma side_ok_add: "side_ok s \<Longrightarrow> side_ok (add_size e s)"
  by (auto simp: side_ok_def add_size_def Let_def map_of_eq_None_iff)

lemma side_ok_load: "side_ok (load_sizes raw)"
proof -
  have "side_ok (fold add_size es s)" if "side_ok s" for es s
    using that by (induction es arbitrary: s) (auto simp: side_ok_add)
  then show ?thesis by (simp add: load_sizes_def side_ok_def empty_side_def)
qed

subsection \<open>The second pass in one step\<close>

text \<open>Whether a record ends up as one of a pair that differs in normalization only.\<close>

definition has_twin :: "(string \<Rightarrow> string) \<Rightarrow> diff_record list \<Rightarrow> diff_record \<Rightarrow> bool" where
  "has_twin nfc rs r \<longleftrightarrow>
     (df_category r = Added \<and> (\<exists>x \<in> set rs. df_category x = Removed \<and> nfc (df_path x) = nfc (df_path r))) \<or>
     (df_category r = Removed \<and> (\<exists>x \<in> set rs. df_category x = Added \<and> nfc (df_path x) = nfc (df_path r)))"

text \<open>The records after the first \<open>k\<close> of them were looked at.\<close>

definition twins_until :: "(string \<Rightarrow> string) \<Rightarrow> nat \<Rightarrow> diff_record list \<Rightarrow> diff_record list" where
  "twins_until nfc k rs =
     map (\<lambda>r. if (df_category r = Added \<and> r \<in> set (take k rs) \<and> has_twin nfc rs r) \<or>
              (df_category r = Removed \<and> (\<exists>x \<in> set (take k rs). df_category x = Added \<and> nfc (df_path x) = nfc (df_path r)))
            then make_twin r else r) rs"

lemma make_twin_simps [simp]: "df_path (make_twin r) = df_path r" "df_category (make_twin r) = Ambiguous"
    "df_old (make_twin r) = df_old r" "df_new (make_twin r) = df_new r"
  by (simp_all add: make_twin_def)

lemma same_path: "distinct (map df_path rs) \<Longrightarrow> x \<in> set rs \<Longrightarrow> y \<in> set rs \<Longrightarrow> df_path x = df_path y \<longleftrightarrow> x = y"
  by (auto simp: distinct_map inj_on_def)

lemma make_twin_again [simp]: "make_twin (make_twin r) = make_twin r"
  by (simp add: make_twin_def)

lemma twin_step_until:
  assumes "distinct (map df_path rs)" and "k < length rs"
  shows "twin_step nfc (map df_path (filter (\<lambda>r. df_category r = Removed) rs)) k (twins_until nfc k rs) = twins_until nfc (Suc k) rs"
proof -
  define r where "r = rs ! k"
  define removed where "removed = map df_path (filter (\<lambda>r. df_category r = Removed) rs)"
  define twins where "twins = (if df_category r = Added then filter (\<lambda>p. nfc p = nfc (df_path r)) removed else [])"
  define marked where "marked = (\<lambda>k x. (df_category x = Added \<and> x \<in> set (take k rs) \<and> has_twin nfc rs x) \<or>
    (df_category x = Removed \<and> (\<exists>y \<in> set (take k rs). df_category y = Added \<and> nfc (df_path y) = nfc (df_path x))))"
  have until: "twins_until nfc k rs = map (\<lambda>x. if marked k x then make_twin x else x) rs" for k
    unfolding twins_until_def marked_def by (rule refl)
  have r: "r \<in> set rs" using assms(2) by (simp add: r_def)
  have fresh: "r \<notin> set (take k rs)"
    using assms unfolding r_def by (metis distinct_map distinct_take id_take_nth_drop not_distinct_conv_prefix take_Suc_conv_app_nth)
  have "\<not> (df_category r = Added \<and> marked k r)" using fresh by (auto simp: marked_def)
  then have cat: "df_category (twins_until nfc k rs ! k) = Added \<longleftrightarrow> df_category r = Added" "df_path (twins_until nfc k rs ! k) = df_path r"
    using assms(2) by (auto simp: until r_def)
  have take: "set (take (Suc k) rs) = insert r (set (take k rs))" using assms(2) by (simp add: take_Suc_conv_app_nth r_def)
  have twins: "twins \<noteq> [] \<longleftrightarrow> df_category r = Added \<and> has_twin nfc rs r"
    by (auto simp: has_twin_def filter_empty_conv twins_def removed_def)
  have step: "twin_step nfc removed k (twins_until nfc k rs) =
      (if twins = [] then twins_until nfc k rs
       else map (\<lambda>x. if df_path x = df_path r \<or> df_path x \<in> set twins then make_twin x else x) (twins_until nfc k rs))"
    by (simp add: twin_step_def Let_def cat twins_def)
  have "twin_step nfc removed k (twins_until nfc k rs) = twins_until nfc (Suc k) rs"
  proof (cases "twins = []")
    case True
    then have "marked (Suc k) x = marked k x" if "x \<in> set rs" for x
      using twins that unfolding marked_def take has_twin_def by auto
    with True show ?thesis unfolding step by (simp add: until)
  next
    case False
    have hit: "(df_path x = df_path r \<or> df_path x \<in> set twins) \<longleftrightarrow> x = r \<or> (df_category x = Removed \<and> nfc (df_path x) = nfc (df_path r))"
      if "x \<in> set rs" for x
    proof -
      have "df_path x \<in> df_path ` {y \<in> set rs. df_category y = Removed \<and> nfc (df_path y) = nfc (df_path r)} \<longleftrightarrow>
          df_category x = Removed \<and> nfc (df_path x) = nfc (df_path r)"
        using same_path [OF assms(1) that] that by blast
      moreover have "set twins = df_path ` {y \<in> set rs. df_category y = Removed \<and> nfc (df_path y) = nfc (df_path r)}"
        using False twins by (auto simp: twins_def removed_def)
      ultimately show ?thesis using same_path [OF assms(1) that r] by simp
    qed
    have "marked (Suc k) x \<longleftrightarrow> marked k x \<or> x = r \<or> (df_category x = Removed \<and> nfc (df_path x) = nfc (df_path r))" for x
      using False twins unfolding marked_def take by (cases "df_category x") (auto simp: eq_commute)
    then show ?thesis using False unfolding step by (simp add: until) (use hit in blast)
  qed
  then show ?thesis by (simp only: removed_def)
qed

lemma mark_twins_once:
  assumes "distinct (map df_path rs)"
  shows "mark_twins nfc rs = map (\<lambda>r. if has_twin nfc rs r then make_twin r else r) rs"
proof -
  have "fold (twin_step nfc (map df_path (filter (\<lambda>r. df_category r = Removed) rs))) [0..<k] rs = twins_until nfc k rs"
    if "k \<le> length rs" for k
    using that
  proof (induction k)
    case 0
    then show ?case by (auto simp: twins_until_def map_idI)
  next
    case (Suc k)
    then show ?case using twin_step_until [OF assms, of k nfc] by simp
  qed
  then have "mark_twins nfc rs = twins_until nfc (length rs) rs" by (simp add: mark_twins_def)
  also have "\<dots> = map (\<lambda>r. if has_twin nfc rs r then make_twin r else r) rs"
    by (auto simp: twins_until_def has_twin_def)
  finally show ?thesis .
qed


subsection \<open>Every path once\<close>

lemma diff_paths_facts:
  "distinct (diff_paths old new)" "sorted (diff_paths old new)" "diff_paths new old = diff_paths old new"
  "set (diff_paths old new) = fst ` set (sd_sizes old) \<union> fst ` set (sd_sizes new)"
proof -
  show s: "distinct (diff_paths old new)" "sorted (diff_paths old new)" for old new by (simp_all add: diff_paths_def)
  show t: "set (diff_paths old new) = fst ` set (sd_sizes old) \<union> fst ` set (sd_sizes new)" for old new
    by (auto simp: diff_paths_def)
  show "diff_paths new old = diff_paths old new" using s t by (intro sorted_distinct_set_unique) auto
qed

lemma compare_path_path [simp]: "df_path (compare_path old new p) = p"
  by (simp add: compare_path_def Let_def)

text \<open>The paths that get a record, and the records before the second pass.\<close>

definition changed_paths :: "snapshot_side \<Rightarrow> snapshot_side \<Rightarrow> string list" where
  "changed_paths old new = filter (\<lambda>p. df_category (compare_path old new p) \<noteq> Unchanged) (diff_paths old new)"

definition final_record :: "(string \<Rightarrow> string) \<Rightarrow> snapshot_side \<Rightarrow> snapshot_side \<Rightarrow> string \<Rightarrow> diff_record" where
  "final_record nfc old new p =
     (let r = compare_path old new p in
      if has_twin nfc (map (compare_path old new) (changed_paths old new)) r then make_twin r else r)"

lemma diff_records:
  "mark_twins nfc (filter (\<lambda>r. df_category r \<noteq> Unchanged) (map (compare_path old new) (diff_paths old new))) =
    map (final_record nfc old new) (changed_paths old new)"
proof -
  let ?rs = "map (compare_path old new) (changed_paths old new)"
  have rs: "filter (\<lambda>r. df_category r \<noteq> Unchanged) (map (compare_path old new) (diff_paths old new)) = ?rs"
    by (simp add: changed_paths_def filter_map comp_def)
  have "distinct (map df_path ?rs)" by (simp add: comp_def changed_paths_def diff_paths_facts(1))
  from mark_twins_once [OF this] show ?thesis unfolding rs by (simp add: final_record_def Let_def)
qed

lemma final_record_path [simp]: "df_path (final_record nfc old new p) = p"
  by (simp add: final_record_def Let_def)

lemma final_record_changed:
  "df_category (compare_path old new p) \<noteq> Unchanged \<Longrightarrow> df_category (final_record nfc old new p) \<noteq> Unchanged"
  by (simp add: final_record_def Let_def)

lemma count_categories:
  "\<forall>r \<in> set rs. df_category r \<noteq> Unchanged \<Longrightarrow>
    sum_list (map (\<lambda>c. length (filter (\<lambda>r. df_category r = c) rs)) DIFF_CATEGORIES) = length rs"
proof (induction rs)
  case (Cons r rs)
  then show ?case by (cases "df_category r") (simp_all add: DIFF_CATEGORIES_def)
qed (simp add: DIFF_CATEGORIES_def)

lemma length_filter_map_fun: "length (filter P (map f xs)) = length (filter (\<lambda>x. P (f x)) xs)"
  by (induction xs) auto

lemma diff_runs:
  assumes "side_ok old" and "side_ok new"
  shows "\<exists>t. diff_snapshots nfc old new = Inr (map (final_record nfc old new) (changed_paths old new), t) \<and>
    sum_list (map (dt_categories t) DIFF_CATEGORIES) = length (diff_paths old new) \<and>
    dt_categories t Unchanged = length (diff_paths old new) - length (changed_paths old new) \<and>
    (\<forall>c. c \<noteq> Unchanged \<longrightarrow> dt_categories t c = length (filter (\<lambda>r. df_category r = c) (map (final_record nfc old new) (changed_paths old new))))"
proof -
  let ?ps = "diff_paths old new" and ?cs = "map (compare_path old new) (diff_paths old new)"
  define rs where "rs = map (final_record nfc old new) (changed_paths old new)"
  have changed: "\<forall>r \<in> set rs. df_category r \<noteq> Unchanged"
    by (auto simp: rs_def changed_paths_def final_record_changed)
  have none: "filter (\<lambda>r. df_category r = Unchanged) rs = []" using changed by (simp add: filter_empty_conv)
  have same: "length (filter (\<lambda>r. df_category r = Unchanged) ?cs) = length ?ps - length rs" "length rs \<le> length ?ps"
    using sum_length_filter_compl [of "\<lambda>p. df_category (compare_path old new p) = Unchanged" ?ps]
      length_filter_map_fun [of "\<lambda>r. df_category r = Unchanged" "compare_path old new" ?ps]
    by (simp_all only: rs_def changed_paths_def length_map)
  let ?n = "\<lambda>c. (if c = Unchanged then length (filter (\<lambda>r. df_category r = Unchanged) ?cs) else 0) + length (filter (\<lambda>r. df_category r = c) rs)"
  have "sum_list (map ?n DIFF_CATEGORIES) = length ?ps - length rs +
      sum_list (map (\<lambda>c. length (filter (\<lambda>r. df_category r = c) rs)) DIFF_CATEGORIES)"
    using same(1) by (simp add: DIFF_CATEGORIES_def)
  with count_categories [OF changed] same(2) have "sum_list (map ?n DIFF_CATEGORIES) = length ?ps" by simp
  moreover have "length (changed_paths old new) = length rs" by (simp add: rs_def)
  ultimately show ?thesis
    unfolding diff_snapshots_def diff_records Let_def rs_def [symmetric] using assms same(1) none by (simp add: side_ok_def)
qed

text \<open>
  C27: a diff covers every path once.  For any two listings \<open>diff_snapshots\<close> does not refuse its own
  totals: the records are in the order of their paths, no path has two, the category counts add up to
  the number of paths of both listings, and a path without a record is in both listings once, with the
  same size token and a name that can be mapped.
\<close>

theorem diff_covers_every_path:
  "\<exists>rs t. diff_snapshots nfc (load_sizes a) (load_sizes b) = Inr (rs, t) \<and>
    sorted (map df_path rs) \<and> distinct (map df_path rs) \<and>
    sum_list (map (dt_categories t) DIFF_CATEGORIES) = card (fst ` set (sd_sizes (load_sizes a)) \<union> fst ` set (sd_sizes (load_sizes b))) \<and>
    (\<forall>p \<in> fst ` set (sd_sizes (load_sizes a)) \<union> fst ` set (sd_sizes (load_sizes b)). p \<notin> df_path ` set rs \<longrightarrow>
      (\<exists>token. map_of (sd_sizes (load_sizes a)) p = Some token \<and> map_of (sd_sizes (load_sizes b)) p = Some token) \<and>
      p \<notin> set (sd_dups (load_sizes a)) \<union> set (sd_dups (load_sizes b)) \<union> set (sd_unsafe (load_sizes a)) \<union> set (sd_unsafe (load_sizes b)))"
proof -
  let ?a = "load_sizes a" and ?b = "load_sizes b"
  from diff_runs [OF side_ok_load side_ok_load, of nfc a b]
  obtain t where t: "diff_snapshots nfc ?a ?b = Inr (map (final_record nfc ?a ?b) (changed_paths ?a ?b), t)"
    "sum_list (map (dt_categories t) DIFF_CATEGORIES) = length (diff_paths ?a ?b)" by blast
  have paths: "map df_path (map (final_record nfc ?a ?b) (changed_paths ?a ?b)) = changed_paths ?a ?b" by (simp add: comp_def)
  have "length (diff_paths ?a ?b) = card (fst ` set (sd_sizes ?a) \<union> fst ` set (sd_sizes ?b))"
    using diff_paths_facts(1,4) by (metis distinct_card)
  moreover have "(\<exists>token. map_of (sd_sizes ?a) p = Some token \<and> map_of (sd_sizes ?b) p = Some token) \<and>
      p \<notin> set (sd_dups ?a) \<union> set (sd_dups ?b) \<union> set (sd_unsafe ?a) \<union> set (sd_unsafe ?b)"
    if p: "p \<in> fst ` set (sd_sizes ?a) \<union> fst ` set (sd_sizes ?b)" and n: "p \<notin> set (changed_paths ?a ?b)" for p
  proof -
    have "p \<in> set (diff_paths ?a ?b)" using p by (simp add: diff_paths_facts(4))
    with n have u: "df_category (compare_path ?a ?b p) = Unchanged" by (simp add: changed_paths_def)
    then have "p \<notin> set (sd_dups ?a) \<union> set (sd_dups ?b) \<union> set (sd_unsafe ?a) \<union> set (sd_unsafe ?b)"
      "map_of (sd_sizes ?a) p = map_of (sd_sizes ?b) p" "map_of (sd_sizes ?a) p \<noteq> None"
      by (auto simp: compare_path_def Let_def split: if_splits)
    then show ?thesis by auto
  qed
  moreover have "sorted (changed_paths ?a ?b)" "distinct (changed_paths ?a ?b)"
    by (simp_all add: changed_paths_def diff_paths_facts sorted_wrt_filter)
  ultimately show ?thesis using t paths by (intro exI [of _ t] exI [of _ "map (final_record nfc ?a ?b) (changed_paths ?a ?b)"])
    (simp only: paths set_map [symmetric], blast)
qed

subsection \<open>A diff can be read in both directions\<close>

fun reversed :: "category \<Rightarrow> category" where
  "reversed Added = Removed"
| "reversed Removed = Added"
| "reversed c = c"

lemma reversed_iff [simp]: "reversed c = Added \<longleftrightarrow> c = Removed" "reversed c = Removed \<longleftrightarrow> c = Added" "reversed c = Unchanged \<longleftrightarrow> c = Unchanged"
    "reversed c = Ambiguous \<longleftrightarrow> c = Ambiguous"
  by (cases c; simp)+

text \<open>What a record says, its reasons aside.\<close>

definition record_core :: "diff_record \<Rightarrow> string \<times> category \<times> string option \<times> string option" where
  "record_core r = (df_path r, df_category r, df_old r, df_new r)"

lemma compare_path_reversed:
  assumes "p \<in> set (diff_paths old new)"
  shows "df_category (compare_path new old p) = reversed (df_category (compare_path old new p))"
    and "df_old (compare_path new old p) = df_new (compare_path old new p)" and "df_new (compare_path new old p) = df_old (compare_path old new p)"
proof -
  have "map_of (sd_sizes old) p \<noteq> None \<or> map_of (sd_sizes new) p \<noteq> None"
    using assms by (auto simp: diff_paths_facts(4) map_of_eq_None_iff)
  then show "df_category (compare_path new old p) = reversed (df_category (compare_path old new p))"
    by (auto simp: compare_path_def Let_def)
qed (simp_all add: compare_path_def Let_def)

lemma changed_paths_reversed: "changed_paths new old = changed_paths old new"
  unfolding changed_paths_def diff_paths_facts(3) [of new old] by (rule filter_cong) (simp_all add: compare_path_reversed)

lemma final_record_reversed:
  assumes "p \<in> set (changed_paths old new)"
  shows "record_core (final_record nfc new old p) =
    (p, reversed (df_category (final_record nfc old new p)), df_new (final_record nfc old new p), df_old (final_record nfc old new p))"
proof -
  have in_paths: "q \<in> set (diff_paths old new)" if "q \<in> set (changed_paths old new)" for q using that by (simp add: changed_paths_def)
  note rev_path = compare_path_reversed [OF in_paths]
  have "has_twin nfc (map (compare_path new old) (changed_paths new old)) (compare_path new old p) =
      has_twin nfc (map (compare_path old new) (changed_paths old new)) (compare_path old new p)"
    using rev_path(1) assms by (auto simp: has_twin_def changed_paths_reversed)
  then show ?thesis using rev_path [OF assms] by (simp add: record_core_def final_record_def Let_def)
qed

text \<open>
  A diff can be read in both directions.  The diff of two listings in the other order has the same
  paths, with added and removed exchanged and the size tokens exchanged.
\<close>

theorem diff_reversed:
  "\<exists>rs t rs' t'. diff_snapshots nfc (load_sizes a) (load_sizes b) = Inr (rs, t) \<and>
    diff_snapshots nfc (load_sizes b) (load_sizes a) = Inr (rs', t') \<and>
    map record_core rs' = map (\<lambda>r. (df_path r, reversed (df_category r), df_new r, df_old r)) rs \<and>
    (\<forall>c. dt_categories t' (reversed c) = dt_categories t c)"
proof -
  let ?a = "load_sizes a" and ?b = "load_sizes b"
  define ps where "ps = changed_paths ?a ?b"
  have ps': "changed_paths ?b ?a = ps" unfolding ps_def by (rule changed_paths_reversed)
  from diff_runs [OF side_ok_load side_ok_load, of nfc a b]
  obtain t where t: "diff_snapshots nfc ?a ?b = Inr (map (final_record nfc ?a ?b) ps, t)"
    "dt_categories t Unchanged = length (diff_paths ?a ?b) - length ps"
    "\<And>c. c \<noteq> Unchanged \<Longrightarrow> dt_categories t c = length (filter (\<lambda>r. df_category r = c) (map (final_record nfc ?a ?b) ps))"
    unfolding ps_def by blast
  from diff_runs [OF side_ok_load side_ok_load, of nfc b a]
  obtain t' where t': "diff_snapshots nfc ?b ?a = Inr (map (final_record nfc ?b ?a) ps, t')"
    "dt_categories t' Unchanged = length (diff_paths ?a ?b) - length ps"
    "\<And>c. c \<noteq> Unchanged \<Longrightarrow> dt_categories t' c = length (filter (\<lambda>r. df_category r = c) (map (final_record nfc ?b ?a) ps))"
    unfolding ps' diff_paths_facts(3) [of ?b ?a] by blast
  have core: "record_core (final_record nfc ?b ?a p) = (p, reversed (df_category (final_record nfc ?a ?b p)),
      df_new (final_record nfc ?a ?b p), df_old (final_record nfc ?a ?b p))" if "p \<in> set ps" for p
    using final_record_reversed that unfolding ps_def by blast
  then have cat: "df_category (final_record nfc ?b ?a p) = reversed (df_category (final_record nfc ?a ?b p))" if "p \<in> set ps" for p
    using that by (simp add: record_core_def)
  have "dt_categories t' (reversed c) = dt_categories t c" for c
  proof (cases "c = Unchanged")
    case True
    then show ?thesis by (simp add: t(2) t'(2))
  next
    case False
    have "reversed x = reversed c \<longleftrightarrow> x = c" for x by (cases x; cases c) simp_all
    then have "filter (\<lambda>p. df_category (final_record nfc ?b ?a p) = reversed c) ps = filter (\<lambda>p. df_category (final_record nfc ?a ?b p) = c) ps"
      using cat by (intro filter_cong) simp_all
    then show ?thesis using False by (simp add: t(3) t'(3) filter_map comp_def)
  qed
  moreover have "map record_core (map (final_record nfc ?b ?a) ps) =
      map (\<lambda>r. (df_path r, reversed (df_category r), df_new r, df_old r)) (map (final_record nfc ?a ?b) ps)"
    using core by simp
  ultimately show ?thesis using t(1) t'(1) by blast
qed


subsection \<open>The snapshot store\<close>

text \<open>A snapshot directory: its name, \<open>raw.txt\<close>, and what \<open>snapshot.json\<close> and \<open>parse-report.json\<close> record.\<close>

record snapshot_dir =
  sn_name :: string
  sn_raw :: string
  sn_accepted :: bool
  sn_sha :: string
  sn_bytes :: nat
  sn_max_issues :: int
  sn_report :: parse_report

record activation =
  ac_snapshot :: string
  ac_previous :: "string option"
  ac_dir :: string

record snapshot_store =
  ss_snapshots :: "snapshot_dir list"
  ss_rejected :: "snapshot_dir list"
  ss_activations :: "activation list"

definition MAX_SNAPSHOT_BYTES :: nat where "MAX_SNAPSHOT_BYTES = 2 ^ 30"

definition short_sha :: "string \<Rightarrow> string" where "short_sha h = take 16 h"

definition snapshot_name :: "string \<Rightarrow> string \<Rightarrow> string" where
  "snapshot_name day h = day @ ''-'' @ short_sha h"

definition holds_short :: "string \<Rightarrow> snapshot_dir list \<Rightarrow> bool" where
  "holds_short h ds = list_ex (\<lambda>d. ends_with (''-'' @ short_sha h) (sn_name d)) ds"

text \<open>
  \<open>command_snapshot\<close>: the result says whether the listing was accepted.  \<open>day\<close> is the date of the
  import.  A failure removes the staging directory and leaves the store as it was.
\<close>

definition command_snapshot :: "(string \<Rightarrow> string) \<Rightarrow> string \<Rightarrow> int \<Rightarrow> string \<Rightarrow> snapshot_store \<Rightarrow> (inventory_error + bool) \<times> snapshot_store" where
  "command_snapshot sha day max_issues raw st =
     (let h = sha raw in
      if MAX_SNAPSHOT_BYTES < length raw then (Inl SnapshotTooLarge, st)
      else if holds_short h (ss_snapshots st) \<or> holds_short h (ss_rejected st) then (Inl SnapshotExists, st)
      else case report (fst (parse_listing raw)) of
        None \<Rightarrow> (Inl ParseAccountingError, st)
      | Some r \<Rightarrow>
          let accepted = (int (structural_issue_total r) \<le> max_issues \<and> 1 \<le> pr_classes r FileEntry);
              d = \<lparr>sn_name = snapshot_name day h, sn_raw = raw, sn_accepted = accepted, sn_sha = h, sn_bytes = length raw,
                   sn_max_issues = max_issues, sn_report = r\<rparr>
          in if sn_name d \<in> sn_name ` set (if accepted then ss_snapshots st else ss_rejected st) then (Inl SnapshotExists, st)
             else (Inr accepted,
                   if accepted then st\<lparr>ss_snapshots := ss_snapshots st @ [d]\<rparr> else st\<lparr>ss_rejected := ss_rejected st @ [d]\<rparr>))"

text \<open>\<open>load_snapshot\<close>: only an accepted directory whose bytes are still those it records.\<close>

definition load_snapshot :: "(string \<Rightarrow> string) \<Rightarrow> snapshot_dir \<Rightarrow> inventory_error + snapshot_dir" where
  "load_snapshot sha d =
     (if \<not> sn_accepted d then Inl NotAccepted
      else if sha (sn_raw d) \<noteq> sn_sha d then Inl SnapshotChanged else Inr d)"

definition is_snapshot_prefix :: "string \<Rightarrow> bool" where
  "is_snapshot_prefix p = (8 \<le> length p \<and> length p \<le> 64 \<and> list_all is_lower_hex p)"

definition command_activate :: "(string \<Rightarrow> string) \<Rightarrow> string \<Rightarrow> snapshot_store \<Rightarrow> (inventory_error + string) \<times> snapshot_store" where
  "command_activate sha snapshot st =
     (let prefix = str_lower snapshot in
      if \<not> is_snapshot_prefix prefix then (Inl BadSnapshotPrefix, st)
      else case filter (\<lambda>d. starts_with prefix (sn_sha d)) (ss_snapshots st) of
        [] \<Rightarrow> (Inl NoSnapshotMatches, st)
      | [d] \<Rightarrow>
          (case load_snapshot sha d of
             Inl x \<Rightarrow> (Inl x, st)
           | Inr d \<Rightarrow>
               let previous = (if ss_activations st = [] then None else Some (ac_snapshot (last (ss_activations st)))) in
               (Inr (sn_sha d), st\<lparr>ss_activations := ss_activations st @ [\<lparr>ac_snapshot = sn_sha d, ac_previous = previous, ac_dir = sn_name d\<rparr>]\<rparr>))
      | _ \<Rightarrow> (Inl SeveralSnapshotsMatch, st))"

text \<open>\<open>command_diff\<close>: both directories are loaded before they are compared.\<close>

definition command_diff :: "(string \<Rightarrow> string) \<Rightarrow> (string \<Rightarrow> string) \<Rightarrow> snapshot_dir \<Rightarrow> snapshot_dir \<Rightarrow> inventory_error + (diff_record list \<times> diff_totals)" where
  "command_diff nfc sha old new =
     and_then (load_snapshot sha old) (\<lambda>old. and_then (load_snapshot sha new) (\<lambda>new.
     diff_snapshots nfc (load_sizes (sn_raw old)) (load_sizes (sn_raw new))))"

subsection \<open>Steps of a store\<close>

text \<open>The commands on a store, and a change of the stored bytes from outside.\<close>

definition overwrite_raw :: "nat \<Rightarrow> string \<Rightarrow> snapshot_store \<Rightarrow> snapshot_store" where
  "overwrite_raw k raw st = st\<lparr>ss_snapshots := (ss_snapshots st)[k := (ss_snapshots st ! k)\<lparr>sn_raw := raw\<rparr>]\<rparr>"

inductive store_step :: "(string \<Rightarrow> string) \<Rightarrow> snapshot_store \<Rightarrow> snapshot_store \<Rightarrow> bool" for sha where
  import_step: "command_snapshot sha day max_issues raw st = (out, st') \<Longrightarrow> store_step sha st st'"
| activate_step: "command_activate sha snapshot st = (out, st') \<Longrightarrow> store_step sha st st'"
| outside_step: "k < length (ss_snapshots st) \<Longrightarrow> st' = overwrite_raw k raw st \<Longrightarrow> store_step sha st st'"

inductive_cases store_stepE: "store_step sha st st'"

definition empty_store :: snapshot_store where
  "empty_store = \<lparr>ss_snapshots = [], ss_rejected = [], ss_activations = []\<rparr>"

inductive store_reachable :: "(string \<Rightarrow> string) \<Rightarrow> snapshot_store \<Rightarrow> bool" for sha where
  "store_reachable sha empty_store"
| "store_reachable sha st \<Longrightarrow> store_step sha st st' \<Longrightarrow> store_reachable sha st'"

text \<open>What an accepted directory keeps, whatever happens to its bytes.\<close>

definition snapshot_ok :: "snapshot_dir \<Rightarrow> bool" where
  "snapshot_ok d \<longleftrightarrow> sn_accepted d \<and> (\<exists>day. sn_name d = snapshot_name day (sn_sha d)) \<and> match_hex64 (sn_sha d) \<and>
     int (structural_issue_total (sn_report d)) \<le> sn_max_issues d \<and> 1 \<le> pr_classes (sn_report d) FileEntry"

definition rejected_ok :: "snapshot_dir \<Rightarrow> bool" where
  "rejected_ok d \<longleftrightarrow> \<not> sn_accepted d \<and> (\<exists>day. sn_name d = snapshot_name day (sn_sha d)) \<and> match_hex64 (sn_sha d)"

fun chained :: "string option \<Rightarrow> activation list \<Rightarrow> bool" where
  "chained p [] = True"
| "chained p (a # as) = (ac_previous a = p \<and> chained (Some (ac_snapshot a)) as)"

definition activation_ok :: "snapshot_dir list \<Rightarrow> activation \<Rightarrow> bool" where
  "activation_ok ds a \<longleftrightarrow> (ac_dir a, ac_snapshot a) \<in> (\<lambda>d. (sn_name d, sn_sha d)) ` set ds"

definition store_ok :: "snapshot_store \<Rightarrow> bool" where
  "store_ok st \<longleftrightarrow> list_all snapshot_ok (ss_snapshots st) \<and> list_all rejected_ok (ss_rejected st) \<and>
     distinct (map (\<lambda>d. short_sha (sn_sha d)) (ss_snapshots st @ ss_rejected st)) \<and>
     chained None (ss_activations st) \<and> list_all (activation_ok (ss_snapshots st)) (ss_activations st)"

lemma chained_append:
  "chained p (as @ [a]) \<longleftrightarrow> chained p as \<and> ac_previous a = (if as = [] then p else Some (ac_snapshot (last as)))"
  by (induction as arbitrary: p) auto

lemma name_holds_short:
  assumes "match_hex64 h" and "match_hex64 h'" and "sn_name d = snapshot_name day h'"
  shows "ends_with (''-'' @ short_sha h) (sn_name d) \<longleftrightarrow> short_sha h' = short_sha h"
proof -
  have "length (short_sha h) = length (short_sha h')" using assms by (simp add: short_sha_def match_hex64_def)
  then show ?thesis using assms(3) by (auto simp: ends_with_iff snapshot_name_def)
qed

lemma holds_short_iff:
  assumes "match_hex64 h" and "\<forall>d \<in> set ds. match_hex64 (sn_sha d) \<and> (\<exists>day. sn_name d = snapshot_name day (sn_sha d))"
  shows "holds_short h ds \<longleftrightarrow> short_sha h \<in> (\<lambda>d. short_sha (sn_sha d)) ` set ds"
proof -
  have "ends_with (''-'' @ short_sha h) (sn_name d) \<longleftrightarrow> short_sha h = short_sha (sn_sha d)" if "d \<in> set ds" for d
    using assms(2) that name_holds_short [OF assms(1), of "sn_sha d" d] by auto
  then show ?thesis unfolding holds_short_def list_ex_iff by blast
qed

lemma store_ok_import:
  assumes ok: "store_ok st" and sha: "match_hex64 (sha raw)" and run: "command_snapshot sha day max_issues raw st = (out, st')"
  shows "store_ok st'"
proof (cases "st' = st")
  case False
  let ?h = "sha raw"
  from run False obtain r where r: "report (fst (parse_listing raw)) = Some r"
    and free: "\<not> holds_short ?h (ss_snapshots st)" "\<not> holds_short ?h (ss_rejected st)"
    by (auto simp: command_snapshot_def Let_def split: if_splits option.splits)
  define ok' where "ok' = (int (structural_issue_total r) \<le> max_issues \<and> 1 \<le> pr_classes r FileEntry)"
  define d where "d = \<lparr>sn_name = snapshot_name day ?h, sn_raw = raw, sn_accepted = ok', sn_sha = ?h, sn_bytes = length raw,
    sn_max_issues = max_issues, sn_report = r\<rparr>"
  have st': "st' = (if ok' then st\<lparr>ss_snapshots := ss_snapshots st @ [d]\<rparr> else st\<lparr>ss_rejected := ss_rejected st @ [d]\<rparr>)"
    using run False r free unfolding command_snapshot_def Let_def by (auto simp: d_def ok'_def split: if_splits)
  have named: "\<forall>d \<in> set (ss_snapshots st). match_hex64 (sn_sha d) \<and> (\<exists>day. sn_name d = snapshot_name day (sn_sha d))"
    "\<forall>d \<in> set (ss_rejected st). match_hex64 (sn_sha d) \<and> (\<exists>day. sn_name d = snapshot_name day (sn_sha d))"
    using ok by (simp_all add: store_ok_def list_all_iff snapshot_ok_def rejected_ok_def)
  from free have new: "short_sha ?h \<notin> (\<lambda>d. short_sha (sn_sha d)) ` set (ss_snapshots st @ ss_rejected st)"
    unfolding holds_short_iff [OF sha named(1)] holds_short_iff [OF sha named(2)] by auto
  have "activation_ok (ss_snapshots st @ [d]) a" if "activation_ok (ss_snapshots st) a" for a
    using that by (auto simp: activation_ok_def)
  then have act: "list_all (activation_ok (ss_snapshots st @ [d])) (ss_activations st)" using ok by (auto simp: store_ok_def list_all_iff)
  show ?thesis
  proof (cases ok')
    case True
    then have "snapshot_ok d" using sha by (auto simp: snapshot_ok_def d_def ok'_def)
    then show ?thesis using ok act new True by (auto simp: st' store_ok_def) (auto simp: d_def)
  next
    case False
    then have "rejected_ok d" using sha by (auto simp: rejected_ok_def d_def)
    then show ?thesis using ok new False by (auto simp: st' store_ok_def) (auto simp: d_def)
  qed
qed (use ok in simp)

text \<open>What a successful activation has checked.\<close>

lemma activate_success:
  assumes "command_activate sha snapshot st = (Inr h, st')"
  obtains d where "filter (\<lambda>d. starts_with (str_lower snapshot) (sn_sha d)) (ss_snapshots st) = [d]" and "is_snapshot_prefix (str_lower snapshot)"
    and "sn_accepted d" and "sha (sn_raw d) = sn_sha d" and "h = sn_sha d"
    and "st' = st\<lparr>ss_activations := ss_activations st @ [\<lparr>ac_snapshot = sn_sha d,
      ac_previous = (if ss_activations st = [] then None else Some (ac_snapshot (last (ss_activations st)))), ac_dir = sn_name d\<rparr>]\<rparr>"
proof -
  let ?ds = "filter (\<lambda>d. starts_with (str_lower snapshot) (sn_sha d)) (ss_snapshots st)"
  from assms have p: "is_snapshot_prefix (str_lower snapshot)" by (auto simp: command_activate_def Let_def split: if_splits)
  from assms p obtain d where "?ds = [d]"
    by (auto simp: command_activate_def Let_def split: list.splits)
  with assms p show ?thesis
    by (intro that [of d]) (auto simp: command_activate_def load_snapshot_def Let_def split: if_splits)
qed

lemma activate_failure: "command_activate sha snapshot st = (Inl x, st') \<Longrightarrow> st' = st"
  by (auto simp: command_activate_def Let_def split: if_splits list.splits sum.splits)

lemma store_ok_activate:
  assumes "store_ok st" and "command_activate sha snapshot st = (out, st')"
  shows "store_ok st'"
proof (cases out)
  case (Inl x)
  with assms activate_failure [of sha snapshot st x st'] show ?thesis by simp
next
  case (Inr h)
  with assms(2) have "command_activate sha snapshot st = (Inr h, st')" by simp
  then obtain d where d: "filter (\<lambda>d. starts_with (str_lower snapshot) (sn_sha d)) (ss_snapshots st) = [d]"
    and st': "st' = st\<lparr>ss_activations := ss_activations st @ [\<lparr>ac_snapshot = sn_sha d,
      ac_previous = (if ss_activations st = [] then None else Some (ac_snapshot (last (ss_activations st)))), ac_dir = sn_name d\<rparr>]\<rparr>"
    by (rule activate_success)
  from d have "d \<in> set (ss_snapshots st)" by (metis filter_is_subset list.set_intros(1) subsetD)
  with assms(1) show ?thesis by (auto simp: st' store_ok_def chained_append activation_ok_def)
qed

lemma store_ok_outside:
  assumes "store_ok st" and "k < length (ss_snapshots st)"
  shows "store_ok (overwrite_raw k raw st)"
proof -
  let ?d = "(ss_snapshots st ! k)\<lparr>sn_raw := raw\<rparr>" and ?ds = "ss_snapshots st"
  have same: "map f (?ds[k := ?d]) = map f ?ds" if "f ?d = f (?ds ! k)" for f :: "snapshot_dir \<Rightarrow> 'a"
    using that assms(2) by (simp add: map_update) (metis length_map list_update_id nth_map)
  have "list_all snapshot_ok (?ds[k := ?d])"
  proof -
    have "snapshot_ok (?ds ! k)" using assms by (simp add: store_ok_def list_all_iff)
    then have "snapshot_ok ?d" by (simp add: snapshot_ok_def)
    moreover have "list_all snapshot_ok ?ds" using assms(1) by (simp add: store_ok_def)
    moreover have "set (?ds[k := ?d]) \<subseteq> insert ?d (set ?ds)" by (rule set_update_subset_insert)
    ultimately show ?thesis unfolding list_all_iff by blast
  qed
  moreover have "map (\<lambda>d. short_sha (sn_sha d)) (?ds[k := ?d]) = map (\<lambda>d. short_sha (sn_sha d)) ?ds" by (rule same) simp
  moreover have "set (map (\<lambda>d. (sn_name d, sn_sha d)) (?ds[k := ?d])) = set (map (\<lambda>d. (sn_name d, sn_sha d)) ?ds)"
    by (rule arg_cong [of _ _ set], rule same) simp
  then have "activation_ok (?ds[k := ?d]) = activation_ok ?ds" unfolding set_map by (simp add: activation_ok_def fun_eq_iff)
  ultimately show ?thesis using assms(1) by (simp add: store_ok_def overwrite_raw_def)
qed

text \<open>
  C28: the activation log of a store is a chain.  Whatever imports, activations and changes of the
  stored bytes from outside have led to a store, every directory under \<open>snapshots\<close> was accepted within
  its own limit and lists a file, no two directories share the digest prefix in their names, each
  activation names the one before it, and each names the digest of a directory that is still there.
\<close>

theorem activations_are_chained:
  assumes "store_reachable sha st" and "\<And>t. match_hex64 (sha t)"
  shows "store_ok st"
  using assms(1)
proof (induction rule: store_reachable.induct)
  case 1
  show ?case by (simp add: store_ok_def empty_store_def)
next
  case (2 st st')
  from 2(2) show ?case
    by (rule store_stepE) (use 2(3) assms(2) store_ok_import store_ok_activate store_ok_outside in blast)+
qed

text \<open>
  C29: an activation verifies what it activates.  \<open>command_activate\<close> succeeds exactly when the argument
  is 8 to 64 hex digits, one directory matches it and the bytes of that directory still have the
  digest it records; then it appends one record for that digest, and in every other case the store
  is as it was.
\<close>

theorem activation_verifies_bytes:
  assumes "store_ok st" and "command_activate sha snapshot st = (out, st')"
  shows "((\<exists>h. out = Inr h) \<longleftrightarrow> is_snapshot_prefix (str_lower snapshot) \<and>
      (\<exists>d. filter (\<lambda>d. starts_with (str_lower snapshot) (sn_sha d)) (ss_snapshots st) = [d] \<and> sha (sn_raw d) = sn_sha d)) \<and>
    (\<forall>h. out = Inr h \<longrightarrow> (\<exists>d \<in> set (ss_snapshots st). h = sha (sn_raw d) \<and> starts_with (str_lower snapshot) h \<and>
      map ac_snapshot (ss_activations st') = map ac_snapshot (ss_activations st) @ [h])) \<and>
    (\<forall>x. out = Inl x \<longrightarrow> st' = st)"
proof (intro conjI allI impI)
  show "st' = st" if "out = Inl x" for x using assms(2) activate_failure that by blast
  show "\<exists>d \<in> set (ss_snapshots st). h = sha (sn_raw d) \<and> starts_with (str_lower snapshot) h \<and>
      map ac_snapshot (ss_activations st') = map ac_snapshot (ss_activations st) @ [h]" if "out = Inr h" for h
  proof -
    from assms(2) that have "command_activate sha snapshot st = (Inr h, st')" by simp
    then obtain d where d: "filter (\<lambda>d. starts_with (str_lower snapshot) (sn_sha d)) (ss_snapshots st) = [d]" "sha (sn_raw d) = sn_sha d" "h = sn_sha d"
      and st': "st' = st\<lparr>ss_activations := ss_activations st @ [\<lparr>ac_snapshot = sn_sha d,
        ac_previous = (if ss_activations st = [] then None else Some (ac_snapshot (last (ss_activations st)))), ac_dir = sn_name d\<rparr>]\<rparr>"
      by (rule activate_success)
    have "d \<in> set (filter (\<lambda>d. starts_with (str_lower snapshot) (sn_sha d)) (ss_snapshots st))" unfolding d(1) by simp
    with d(2,3) st' show ?thesis by (intro bexI [of _ d]) auto
  qed
  show "(\<exists>h. out = Inr h) \<longleftrightarrow> is_snapshot_prefix (str_lower snapshot) \<and>
      (\<exists>d. filter (\<lambda>d. starts_with (str_lower snapshot) (sn_sha d)) (ss_snapshots st) = [d] \<and> sha (sn_raw d) = sn_sha d)"
  proof
    assume "\<exists>h. out = Inr h"
    with assms(2) obtain h where "command_activate sha snapshot st = (Inr h, st')" by blast
    then show "is_snapshot_prefix (str_lower snapshot) \<and>
      (\<exists>d. filter (\<lambda>d. starts_with (str_lower snapshot) (sn_sha d)) (ss_snapshots st) = [d] \<and> sha (sn_raw d) = sn_sha d)"
      by (rule activate_success) blast
  next
    assume r: "is_snapshot_prefix (str_lower snapshot) \<and>
      (\<exists>d. filter (\<lambda>d. starts_with (str_lower snapshot) (sn_sha d)) (ss_snapshots st) = [d] \<and> sha (sn_raw d) = sn_sha d)"
    then obtain d where d: "filter (\<lambda>d. starts_with (str_lower snapshot) (sn_sha d)) (ss_snapshots st) = [d]" "sha (sn_raw d) = sn_sha d" by blast
    have "d \<in> set (filter (\<lambda>d. starts_with (str_lower snapshot) (sn_sha d)) (ss_snapshots st))" unfolding d(1) by simp
    then have "sn_accepted d" using assms(1) by (auto simp: store_ok_def list_all_iff snapshot_ok_def)
    with r d assms(2) show "\<exists>h. out = Inr h" by (auto simp: command_activate_def load_snapshot_def Let_def)
  qed
qed


subsection \<open>Examples\<close>

definition example_report :: parse_report where
  "example_report = the (report (fst (parse_short example_manifest_listing)))"

definition example_dir :: snapshot_dir where
  "example_dir = \<lparr>sn_name = ''2026-01-01-0000000000000000'', sn_raw = example_manifest_listing, sn_accepted = True,
     sn_sha = paths_sha example_manifest_listing, sn_bytes = length example_manifest_listing, sn_max_issues = 0, sn_report = example_report\<rparr>"

definition example_imported :: snapshot_store where
  "example_imported = \<lparr>ss_snapshots = [example_dir], ss_rejected = [], ss_activations = []\<rparr>"

definition example_activated :: snapshot_store where
  "example_activated = snd (command_activate paths_sha ''00000000'' (snd (command_activate paths_sha ''000000000'' example_imported)))"

lemma example_import: "command_snapshot paths_sha ''2026-01-01'' 0 example_manifest_listing empty_store = (Inr True, example_imported)"
proof -
  have "(case report (fst (parse_short example_manifest_listing)) of None \<Rightarrow> False
      | Some r \<Rightarrow> structural_issue_total r = 0 \<and> pr_classes r FileEntry = 4)" by code_simp
  then have r: "report (fst (parse_listing example_manifest_listing)) = Some example_report"
    and f: "structural_issue_total example_report = 0" "pr_classes example_report FileEntry = 4"
    by (auto simp: example_manifest_short example_report_def split: option.splits)
  have n: "snapshot_name ''2026-01-01'' (paths_sha example_manifest_listing) = ''2026-01-01-0000000000000000''" by code_simp
  have "length example_manifest_listing < 100" by code_simp
  then have "\<not> MAX_SNAPSHOT_BYTES < length example_manifest_listing" by (simp add: MAX_SNAPSHOT_BYTES_def)
  with r f n show ?thesis
    by (simp add: command_snapshot_def Let_def empty_store_def holds_short_def example_imported_def example_dir_def)
qed

lemma example_activations:
  "fst (command_activate paths_sha ''000000000'' example_imported) = Inr (paths_sha example_manifest_listing)"
  "map (\<lambda>a. (ac_snapshot a, ac_previous a)) (ss_activations example_activated) =
    [(paths_sha example_manifest_listing, None), (paths_sha example_manifest_listing, Some (paths_sha example_manifest_listing))]"
proof -
  have p: "starts_with ''000000000'' (paths_sha example_manifest_listing)" "starts_with ''00000000'' (paths_sha example_manifest_listing)"
    "is_snapshot_prefix ''000000000''" "is_snapshot_prefix ''00000000''" by code_simp+
  have l: "str_lower ''000000000'' = ''000000000''" "str_lower ''00000000'' = ''00000000''" by code_simp+
  show "fst (command_activate paths_sha ''000000000'' example_imported) = Inr (paths_sha example_manifest_listing)"
    unfolding command_activate_def l using p by (simp add: example_imported_def example_dir_def load_snapshot_def Let_def)
  show "map (\<lambda>a. (ac_snapshot a, ac_previous a)) (ss_activations example_activated) =
    [(paths_sha example_manifest_listing, None), (paths_sha example_manifest_listing, Some (paths_sha example_manifest_listing))]"
    unfolding example_activated_def command_activate_def l using p by (simp add: example_imported_def example_dir_def load_snapshot_def Let_def)
qed

lemma example_store_reachable: "store_reachable paths_sha example_imported"
  by (rule store_reachable.intros(2) [OF store_reachable.intros(1) import_step [OF example_import]])

theorem activations_are_chained_witness:
  "store_ok example_activated \<and> length (ss_activations example_activated) = 2"
proof -
  have step: "store_step paths_sha st (snd (command_activate paths_sha p st))" for p st by (rule activate_step) (rule prod.collapse [symmetric])
  have "store_reachable paths_sha example_activated"
    unfolding example_activated_def by (intro store_reachable.intros(2) [OF _ step] example_store_reachable)
  moreover have "length (ss_activations example_activated) = 2" using arg_cong [OF example_activations(2), of length] by simp
  ultimately show ?thesis using activations_are_chained paths_sha_hex by blast
qed

theorem activation_verifies_bytes_witness:
  "\<exists>d \<in> set (ss_snapshots example_imported). fst (command_activate paths_sha ''000000000'' example_imported) = Inr (paths_sha (sn_raw d))"
proof -
  obtain out st' where run: "command_activate paths_sha ''000000000'' example_imported = (out, st')" by fastforce
  have "store_ok example_imported" using store_ok_import [OF _ paths_sha_hex example_import] by (simp add: store_ok_def empty_store_def)
  from activation_verifies_bytes [OF this run] run example_activations(1) show ?thesis by auto
qed


lemma example_sizes:
  "sd_sizes (load_sizes example_manifest_listing) = [(''a b/x.bin'', ''1.5K''), (''a b/y#.txt'', ''2''), (''a b/w.bin'', ''4'')]"
  "sd_sizes (load_sizes hidden_listing) = [(''data/ALL_FILES'', ''1''), (''data/y.txt'', ''2'')]"
  unfolding load_sizes_def example_manifest_short hidden_listing_short by code_simp+

lemma example_diff:
  "(case diff_snapshots (\<lambda>p. p) (load_sizes example_manifest_listing) (load_sizes example_manifest_listing) of
      Inl x \<Rightarrow> False | Inr (rs, t) \<Rightarrow> map (\<lambda>r. (df_path r, df_category r)) rs = [(''a b/x.bin'', Ambiguous)])"
  unfolding load_sizes_def example_manifest_short by code_simp

theorem diff_covers_every_path_witness:
  "\<exists>rs t. diff_snapshots (\<lambda>p. p) (load_sizes example_manifest_listing) (load_sizes example_manifest_listing) = Inr (rs, t) \<and>
    sum_list (map (dt_categories t) DIFF_CATEGORIES) = 3 \<and> map df_path rs = [''a b/x.bin''] \<and>
    map_of (sd_sizes (load_sizes example_manifest_listing)) ''a b/w.bin'' = Some ''4''"
proof -
  let ?a = "load_sizes example_manifest_listing"
  from diff_covers_every_path [of "\<lambda>p. p" example_manifest_listing example_manifest_listing]
  obtain rs t where d: "diff_snapshots (\<lambda>p. p) ?a ?a = Inr (rs, t)"
    and n: "sum_list (map (dt_categories t) DIFF_CATEGORIES) = card (fst ` set (sd_sizes ?a) \<union> fst ` set (sd_sizes ?a))"
    and same: "\<forall>p \<in> fst ` set (sd_sizes ?a) \<union> fst ` set (sd_sizes ?a). p \<notin> df_path ` set rs \<longrightarrow>
      (\<exists>token. map_of (sd_sizes ?a) p = Some token \<and> map_of (sd_sizes ?a) p = Some token) \<and>
      p \<notin> set (sd_dups ?a) \<union> set (sd_dups ?a) \<union> set (sd_unsafe ?a) \<union> set (sd_unsafe ?a)"
    by blast
  have "map (\<lambda>r. (df_path r, df_category r)) rs = [(''a b/x.bin'', Ambiguous)]" using example_diff unfolding d by simp
  then have "map fst (map (\<lambda>r. (df_path r, df_category r)) rs) = [''a b/x.bin'']" by simp
  then have rs: "map df_path rs = [''a b/x.bin'']" by (simp add: comp_def)
  have "''a b/w.bin'' \<notin> set (map df_path rs)" unfolding rs by simp
  moreover have "''a b/w.bin'' \<in> fst ` set (sd_sizes ?a)" unfolding example_sizes by simp
  ultimately obtain token where "map_of (sd_sizes ?a) ''a b/w.bin'' = Some token" using same by (auto simp: set_map)
  then have "map_of (sd_sizes ?a) ''a b/w.bin'' = Some ''4''" unfolding example_sizes by simp
  with d n rs show ?thesis unfolding example_sizes by simp
qed

end
