(* ===== verification/Publishing.thy ===== *)
theory Publishing
  imports Transfers Inspection
begin

text \<open>
  The telemetry snapshot: \<open>telemetry_snapshot\<close> of \<open>src/tod-dl.py\<close>, which
  joins the projection, the runtime samples and the state of the controller, and \<open>publish\<close> and
  \<open>_loop\<close> of \<open>src/download_telemetry.py\<close>, which write the file the monitor reads.  The clocks, the
  disk usage, the device numbers and the texts of \<open>isoformat\<close> are inputs, \<open>dumps\<close> is \<open>json.dumps\<close> with
  sorted keys, and the file is what the last successful \<open>os.replace\<close> left.
\<close>

subsection \<open>The rows of the workers\<close>

record snapshot_env =
  se_sha :: "string \<Rightarrow> string"
  se_mono :: rat
  se_clocks :: env
  se_time :: "nat \<Rightarrow> rat"
  se_iso :: "rat \<Rightarrow> string"
  se_utc :: rat
  se_free_destination :: int
  se_free_state :: int
  se_device_destination :: nat
  se_device_state :: nat
  se_manifest :: jobject
  se_rpc :: bool

text \<open>\<open>estimate_eta_seconds\<close> of a sample is null or a float; the popped keys are those a snapshot must not have.\<close>

definition POPPED_KEYS :: "string list" where
  "POPPED_KEYS = [''url'', ''phase_started'', ''last_progress_monotonic'']"

definition url_basename :: "string \<Rightarrow> string option" where
  "url_basename u = map_option (\<lambda>p. unquote (path_name (up_path p))) (urlsplit u)"

definition worker_row :: "snapshot_env \<Rightarrow> json \<Rightarrow> sample \<Rightarrow> jobject option" where
  "worker_row e admission s =
     map_option (\<lambda>basename.
       filter (\<lambda>kv. fst kv \<notin> set POPPED_KEYS) (sample_object (se_sha e) admission s) @
       [(''item_id'', JStr (se_sha e (s_url s))), (''basename'', JStr basename),
        (''phase_age_s'', JFloat (max 0 (se_mono e - s_phase_started s))), (''resume_baseline_bytes'', JNull),
        (''last_progress_age_s'', rat_json (map_option (\<lambda>t. max 0 (se_mono e - t)) (s_last_progress s))),
        (''eta_seconds'', rat_json (estimate_eta_seconds (s_received s) (s_total s) (s_speed s)))])
       (url_basename (s_url s))"

definition idle_row :: "nat \<Rightarrow> jobject" where
  "idle_row n =
     [(''worker_id'', nat_json n), (''item_id'', JNull), (''generation'', JNull), (''attempt_id'', JNull),
      (''attempt_number'', JNull), (''phase'', JStr ''idle''), (''reason'', JNull), (''phase_age_s'', JNull),
      (''engine_instance_id'', JNull), (''engine_job_id'', JNull), (''pid'', JNull), (''sample_age_s'', JNull),
      (''received_bytes'', JNull), (''total_bytes'', JNull), (''total_source'', JStr ''unavailable''),
      (''resume_baseline_bytes'', JNull), (''speed_bps'', JNull), (''last_progress_age_s'', JNull),
      (''sample_sequence'', JNull), (''connections'', JNull), (''eta_seconds'', JNull)]"

text \<open>The rows with their numbers, in the order of the numbers; \<open>None\<close> is the \<open>ValueError\<close> of a URL.\<close>

fun worker_rows_of :: "snapshot_env \<Rightarrow> json \<Rightarrow> sample list \<Rightarrow> (nat \<times> jobject) list option" where
  "worker_rows_of e admission [] = Some []"
| "worker_rows_of e admission (s # ss) =
     (case (worker_row e admission s, worker_rows_of e admission ss) of
        (Some row, Some rows) \<Rightarrow> Some ((s_worker s, row) # rows)
      | _ \<Rightarrow> None)"

definition worker_rows :: "snapshot_env \<Rightarrow> json \<Rightarrow> nat \<Rightarrow> sample list \<Rightarrow> jobject list option" where
  "worker_rows e admission workers act =
     map_option (\<lambda>rows. map snd (sort_key fst (rows @
       map (\<lambda>n. (n, idle_row n)) (filter (\<lambda>n. n \<notin> s_worker ` set act) [1..<Suc workers]))))
       (worker_rows_of e admission act)"

subsection \<open>The other parts\<close>

text \<open>The conditions that the admission provider reports, as a value of the snapshot.\<close>

definition admission_json :: "env \<Rightarrow> downloader \<Rightarrow> json" where
  "admission_json h s =
     (case admission_conditions h s of None \<Rightarrow> JNull | Some cs \<Rightarrow> JObj (map (\<lambda>(name, t). (name, JStr t)) cs))"

definition filesystem_row :: "config \<Rightarrow> nat \<Rightarrow> string list \<Rightarrow> int \<Rightarrow> json" where
  "filesystem_row g device roles free =
     JObj [(''filesystem_id'', JStr (show_nat device)), (''roles'', JArr (map JStr roles)), (''free_bytes'', JInt free),
       (''reserve_bytes'', JInt (g_reserve g)), (''headroom_bytes'', JInt (free - g_reserve g))]"

definition filesystem_rows :: "config \<Rightarrow> snapshot_env \<Rightarrow> json list" where
  "filesystem_rows g e =
     (if se_device_destination e = se_device_state e
      then [filesystem_row g (se_device_destination e) [''destination'', ''state''] (se_free_destination e)]
      else [filesystem_row g (se_device_destination e) [''destination''] (se_free_destination e),
            filesystem_row g (se_device_state e) [''state''] (se_free_state e)])"

definition metric_json :: "('a \<Rightarrow> json) \<Rightarrow> 'a metric \<Rightarrow> json" where
  "metric_json f m = JObj [(''value'', case fst m of None \<Rightarrow> JNull | Some v \<Rightarrow> f v), (''quality'', JStr (snd m))]"

definition metrics_json :: "(rat \<Rightarrow> string) \<Rightarrow> metrics \<Rightarrow> json" where
  "metrics_json stamp m =
     JObj [(''retained_bytes'', metric_json JInt (m_retained m)), (''complete_bytes'', metric_json JInt (m_complete m)),
       (''session_received_bytes'', metric_json JInt (m_session_received m)),
       (''known_total_bytes'', metric_json JInt (m_known_total m)),
       (''known_remaining_bytes'', metric_json JInt (m_known_remaining m)),
       (''unknown_size_items'', metric_json JInt (m_unknown m)), (''speed_bps'', metric_json JInt (m_speed m)),
       (''average_speed_bps'', metric_json JInt (m_average_speed m)), (''eta_seconds'', metric_json JFloat (m_eta m)),
       (''eta_reason'', JStr (m_eta_reason m)),
       (''estimated_finish_at'', metric_json (\<lambda>t. JStr (stamp t)) (m_finish m)),
       (''session_elapsed_s'', metric_json JFloat (m_elapsed m))]"

definition counts_json :: "(bucket \<Rightarrow> int) \<Rightarrow> json" where
  "counts_json c = JObj (map (\<lambda>b. (bucket_text b, JInt (c b))) DISPLAY_BUCKETS)"

definition event_json :: "event \<Rightarrow> json" where
  "event_json v =
     JObj [(''at'', JStr (e_at v)), (''severity'', JStr (e_severity v)), (''category'', JStr (e_category v)),
       (''item_id'', text_json (e_item v)), (''worker_id'', case e_worker v of None \<Rightarrow> JNull | Some n \<Rightarrow> nat_json n),
       (''message'', JStr (e_message v))]"

definition validation_json :: "validation \<Rightarrow> json" where
  "validation_json v =
     JObj [(''item_id'', JStr (v_item v)), (''method'', JStr ''sha256''), (''phase'', JStr ''hashing''),
       (''processed_bytes'', JInt (v_processed v)), (''total_bytes'', JInt (v_total v)), (''sample_age_s'', JInt 0)]"

subsection \<open>The snapshot\<close>

text \<open>
  \<open>time_status_copy\<close> and \<open>errors_copy\<close> are read from the publisher again, so they may be newer than the
  arguments, which are copies; \<open>Inl\<close> is the text of the exception.  \<open>se_time e k\<close> is the \<open>k\<close>-th reading
  of the wall clock.
\<close>

definition run_json :: "config \<Rightarrow> snapshot_env \<Rightarrow> rat \<Rightarrow> downloader \<Rightarrow> publisher \<Rightarrow> summary \<Rightarrow> string \<Rightarrow> string option \<Rightarrow> sample list \<Rightarrow> json" where
  "run_json g e started s p durable lifecycle reason act =
     JObj [(''lifecycle'', JStr lifecycle), (''reason'', text_json reason),
       (''created_at'', jget (se_manifest e) ''started_at''),
       (''session_started_at'', if map_of (se_manifest e) ''resumed_at'' = None
         then jget (se_manifest e) ''started_at'' else jget (se_manifest e) ''resumed_at''),
       (''selected_count'', JInt (sm_selected durable)), (''counts'', counts_json (sm_counts durable)),
       (''skipped_existing_count'', JInt (sm_skipped durable)),
       (''last_completion_at'', text_json (sm_last_completion durable)),
       (''last_payload_progress_at'', text_json (tp_last_payload p)), (''completed_at'', text_json (tp_completed_at p)),
       (''stopped_at'', text_json (tp_stopped_at p)),
       (''engine_selection_status'', JStr (if se_rpc e then ''aria2 loopback RPC counters enabled'' else ''aria2 counters unavailable'')),
       (''metrics'', metrics_json (se_iso e) (reduce_projected_metrics (sm_selected durable) (sm_counts durable BComplete)
          (sm_complete_bytes durable) act started (se_mono e) (se_utc e))),
       (''remaining_run_time_s'', rat_json (map_option (\<lambda>d. max 0 (d - se_mono e)) (x_deadline s)))]"

definition health_json :: "config \<Rightarrow> snapshot_env \<Rightarrow> downloader \<Rightarrow> publisher \<Rightarrow> summary \<Rightarrow> sample list \<Rightarrow> json" where
  "health_json g e s p durable act =
     JObj [(''filesystems'', JArr (filesystem_rows g e)),
       (''filesystem_layout_error'', if se_device_destination e = se_device_state e then JNull
         else JStr ''destination and state use different filesystems''),
       (''tor_preflight'', jget (se_manifest e) ''tor_isolation_preflight''),
       (''cooldown_remaining_s'', JFloat (max 0 (x_cooldown_until s - se_time e 0))),
       (''retry_eligible_at'', case sm_retry_at durable of None \<Rightarrow> JNull
         | Some t \<Rightarrow> if t \<noteq> 0 \<and> se_time e 1 < t then JStr (se_iso e t) else JNull),
       (''retry_remaining_s'', rat_json (map_option (\<lambda>t. max 0 (t - se_time e 2)) (sm_retry_at durable))),
       (''retry_pending_count'', nat_json (sm_retry_count durable)), (''retry_error'', text_json (sm_retry_error durable)),
       (''telemetry_errors'', JArr (map JStr (tp_errors p))),
       (''active_without_counters'', nat_json (length (remdups (map s_url act))))]"

definition telemetry_snapshot :: "config \<Rightarrow> snapshot_env \<Rightarrow> rat \<Rightarrow> downloader \<Rightarrow> publisher \<Rightarrow> json \<Rightarrow> string \<Rightarrow> string option \<Rightarrow>
    sample list \<Rightarrow> json list \<Rightarrow> json list \<Rightarrow> string + jobject" where
  "telemetry_snapshot g e started s p admission lifecycle reason act validation events =
     (case x_projection s of
        None \<Rightarrow> Inl ''telemetry projection is unavailable''
      | Some pr \<Rightarrow>
          (case worker_rows e admission (g_workers g) act of
             None \<Rightarrow> Inl ''Invalid URL''
           | Some rows \<Rightarrow>
               let durable = copy_projection pr in
               Inr [(''state_revision'', JInt (sm_revision durable)),
                 (''run'', run_json g e started s p durable lifecycle reason act),
                 (''workers'', JArr (map JObj rows)), (''validation'', JArr validation),
                 (''health'', health_json g e s p durable act), (''recent_events'', JArr events)]))"

subsection \<open>Publishing\<close>

definition TELEMETRY_SCHEMA_VERSION :: int where "TELEMETRY_SCHEMA_VERSION = 2"
definition PUBLISH_INTERVAL_SECONDS :: rat where "PUBLISH_INTERVAL_SECONDS = 1 / 2"
definition MAX_SNAPSHOT_FILE :: nat where "MAX_SNAPSHOT_FILE = 256 * 1024"
definition MAX_TELEMETRY_ERRORS :: nat where "MAX_TELEMETRY_ERRORS = 20"

text \<open>The part of the publisher that only its thread uses.\<close>

record feed =
  fd_run :: string
  fd_started :: rat
  fd_sequence :: int
  fd_file :: "json option"
  fd_next :: rat

definition published :: "snapshot_env \<Rightarrow> string \<Rightarrow> feed \<Rightarrow> publisher \<Rightarrow> jobject \<Rightarrow> jobject" where
  "published e now f p snapshot =
     snapshot @ [(''schema_version'', JInt TELEMETRY_SCHEMA_VERSION), (''run_id'', JStr (fd_run f)), (''session_id'', JStr (tp_session p)),
       (''sequence'', JInt (fd_sequence f)), (''published_at'', JStr now),
       (''session_elapsed_s'', JFloat (max 0 (se_mono e - fd_started f)))]"

text \<open>\<open>write_fails\<close> is the text of an \<open>OSError\<close> while the file is written.\<close>

definition publish :: "(json \<Rightarrow> string) \<Rightarrow> config \<Rightarrow> snapshot_env \<Rightarrow> downloader \<Rightarrow> string \<Rightarrow> string option \<Rightarrow> publisher \<Rightarrow> feed \<Rightarrow>
    string option \<times> feed" where
  "publish dumps g e s now write_fails p f =
     (let act = tp_aged_active_copy (se_mono e) p;
          admission = admission_json (se_clocks e) s
      in case telemetry_snapshot g e (fd_started f) s p admission (tp_lifecycle p) (tp_reason p) act
           (map (\<lambda>kv. validation_json (snd kv)) (tp_validation p)) (map event_json (tp_events p)) of
        Inl text \<Rightarrow> (Some text, f)
      | Inr snapshot \<Rightarrow>
          let f = f\<lparr>fd_sequence := fd_sequence f + 1\<rparr>; value = JObj (published e now f p snapshot) in
          if MAX_SNAPSHOT_FILE < length (dumps value) + 1 then (Some ''telemetry snapshot exceeds 256 KiB'', f)
          else (case write_fails of Some text \<Rightarrow> (Some text, f) | None \<Rightarrow> (None, f\<lparr>fd_file := Some value\<rparr>)))"

text \<open>
  One turn of \<open>_loop\<close> after its wait: \<open>due\<close> is the clock it compares with the next publication,
  \<open>after\<close> the clock when the publication is over.
\<close>

definition publish_turn :: "(json \<Rightarrow> string) \<Rightarrow> config \<Rightarrow> snapshot_env \<Rightarrow> downloader \<Rightarrow> string \<Rightarrow> string option \<Rightarrow> rat \<Rightarrow> rat \<Rightarrow>
    publisher \<times> feed \<Rightarrow> publisher \<times> feed" where
  "publish_turn dumps g e s now write_fails due after pf =
     (let (p, f) = pf in
      if due < fd_next f then (p, f)
      else
        let (failure, f) = publish dumps g e s now write_fails p f;
            p = (case failure of None \<Rightarrow> p
              | Some text \<Rightarrow> p\<lparr>tp_errors := push_bounded MAX_TELEMETRY_ERRORS (''telemetry write failed: '' @ text) (tp_errors p)\<rparr>);
            next_publish = fd_next f + PUBLISH_INTERVAL_SECONDS
        in (p, f\<lparr>fd_next := (if next_publish < after then after + PUBLISH_INTERVAL_SECONDS else next_publish)\<rparr>))"

end
