(* ===== verification/Monitor.thy ===== *)
theory Monitor
  imports Publishing
begin

text \<open>
  What \<open>src/monitor.py\<close> computes outside its terminal application: the check of a snapshot, its age, the
  choice among several runs; and what the check makes of the files that the publisher writes.  What
  \<open>fromisoformat\<close> and \<open>json.loads\<close> give are inputs.
\<close>

subsection \<open>The check of a snapshot\<close>

text \<open>\<open>TypeFailure\<close> and \<open>ValueFailure\<close> are exceptions that no caller expects.\<close>

datatype snapshot_failure = SnapshotError string | TypeFailure | ValueFailure

definition checked :: "bool \<Rightarrow> string \<Rightarrow> snapshot_failure + 'a \<Rightarrow> snapshot_failure + 'a" where
  "checked good message m = (if good then m else Inl (SnapshotError message))"

definition onward :: "snapshot_failure + 'a \<Rightarrow> ('a \<Rightarrow> snapshot_failure + 'b) \<Rightarrow> snapshot_failure + 'b" where
  "onward m f = (case m of Inl x \<Rightarrow> Inl x | Inr v \<Rightarrow> f v)"

fun every :: "('a \<Rightarrow> snapshot_failure + unit) \<Rightarrow> 'a list \<Rightarrow> snapshot_failure + unit" where
  "every f [] = Inr ()"
| "every f (x # xs) = onward (f x) (\<lambda>_. every f xs)"

definition FINAL_LIFECYCLES :: "string list" where "FINAL_LIFECYCLES = [''finished'', ''stopped'']"

definition REQUIRED_COUNTS :: "string list" where
  "REQUIRED_COUNTS = [''queued'', ''busy'', ''retry'', ''exhausted'', ''complete'', ''existing_unverified'',
     ''review_required'', ''unavailable'', ''excluded'', ''unknown'']"

definition require_string :: "json \<Rightarrow> string \<Rightarrow> snapshot_failure + unit" where
  "require_string v name = checked (is_nonempty_str v) (name @ '' must be a nonempty string'') (Inr ())"

definition require_nonnegative :: "json \<Rightarrow> string \<Rightarrow> snapshot_failure + rat" where
  "require_nonnegative v name =
     (case as_number v of
        Some n \<Rightarrow> checked (0 \<le> n) (name @ '' must be a nonnegative number'') (Inr n)
      | None \<Rightarrow> Inl (SnapshotError (name @ '' must be a nonnegative number'')))"

definition optional_string :: "json \<Rightarrow> string \<Rightarrow> snapshot_failure + unit" where
  "optional_string v name = (if v = JNull then Inr () else require_string v name)"

fun sum_counts :: "jobject \<Rightarrow> string list \<Rightarrow> snapshot_failure + rat" where
  "sum_counts counts [] = Inr 0"
| "sum_counts counts (name # names) =
     onward (require_nonnegative (jget counts name) (''run.counts.'' @ name)) (\<lambda>n.
     onward (sum_counts counts names) (\<lambda>m. Inr (n + m)))"

definition worker_name :: "nat \<Rightarrow> string" where
  "worker_name k = ''workers['' @ show_nat k @ '']''"

fun validate_workers :: "nat \<Rightarrow> rat list \<Rightarrow> json list \<Rightarrow> snapshot_failure + unit" where
  "validate_workers k seen [] = Inr ()"
| "validate_workers k seen (v # vs) =
     (case v of
        JObj worker \<Rightarrow>
          onward (require_nonnegative (jget worker ''worker_id'') (worker_name k @ ''.worker_id'')) (\<lambda>n.
          checked (n \<notin> set seen) ''worker IDs must be unique''
            (onward (every (\<lambda>name. if jget worker name = JNull then Inr ()
                else onward (require_nonnegative (jget worker name) (worker_name k @ ''.'' @ name)) (\<lambda>_. Inr ()))
                [''received_bytes'', ''total_bytes'', ''speed_bps'', ''eta_seconds'']) (\<lambda>_.
             validate_workers (Suc k) (n # seen) vs)))
      | _ \<Rightarrow> Inl (SnapshotError (worker_name k @ '' must be an object'')))"

definition filesystem_name :: "nat \<Rightarrow> string" where
  "filesystem_name k = ''health.filesystems['' @ show_nat k @ '']''"

fun validate_filesystems :: "nat \<Rightarrow> json list \<Rightarrow> snapshot_failure + unit" where
  "validate_filesystems k [] = Inr ()"
| "validate_filesystems k (v # vs) =
     (case v of
        JObj fsys \<Rightarrow>
          onward (require_string (jget fsys ''filesystem_id'') (filesystem_name k @ ''.filesystem_id'')) (\<lambda>_.
          checked (case jget fsys ''roles'' of JArr (_ # _) \<Rightarrow> True | _ \<Rightarrow> False) (filesystem_name k @ ''.roles must be nonempty'')
            (validate_filesystems (Suc k) vs))
      | _ \<Rightarrow> Inl (SnapshotError (filesystem_name k @ '' must be an object'')))"

definition object_of :: "json \<Rightarrow> string \<Rightarrow> snapshot_failure + jobject" where
  "object_of v message = (case v of JObj kvs \<Rightarrow> Inr kvs | _ \<Rightarrow> Inl (SnapshotError message))"

definition array_of :: "json \<Rightarrow> string \<Rightarrow> snapshot_failure + json list" where
  "array_of v message = (case v of JArr vs \<Rightarrow> Inr vs | _ \<Rightarrow> Inl (SnapshotError message))"

definition validate_run :: "jobject \<Rightarrow> snapshot_failure + unit" where
  "validate_run run =
     onward (require_string (jget run ''lifecycle'') ''run.lifecycle'') (\<lambda>_.
     onward (require_nonnegative (jget run ''selected_count'') ''run.selected_count'') (\<lambda>selected.
     (case jget run ''counts'' of
        JObj counts \<Rightarrow>
          checked (set (map fst counts) = set REQUIRED_COUNTS) ''run.counts must contain every version-1 bucket''
            (onward (sum_counts counts REQUIRED_COUNTS) (\<lambda>total.
             checked (total = selected) ''run.counts must sum to run.selected_count'' (Inr ())))
      | _ \<Rightarrow> Inl (SnapshotError ''run.counts must contain every version-1 bucket''))))"

definition validate_version_2 :: "jobject \<Rightarrow> jobject \<Rightarrow> snapshot_failure + unit" where
  "validate_version_2 run health =
     onward (every (\<lambda>name. optional_string (jget run name) (''run.'' @ name))
       [''last_payload_progress_at'', ''completed_at'', ''stopped_at'']) (\<lambda>_.
     onward (array_of (jget health ''filesystems'') ''health.filesystems must be an array'') (validate_filesystems 0))"

definition validate_snapshot :: "json \<Rightarrow> snapshot_failure + jobject" where
  "validate_snapshot v =
     onward (object_of v ''snapshot must be a JSON object'') (\<lambda>snapshot.
     if \<not> hashable (jget snapshot ''schema_version'') then Inl TypeFailure
     else checked (eq_int (jget snapshot ''schema_version'') 1 \<or> eq_int (jget snapshot ''schema_version'') 2)
       ''unsupported telemetry schema version''
     (onward (every (\<lambda>name. require_string (jget snapshot name) name) [''run_id'', ''session_id'', ''published_at'']) (\<lambda>_.
      onward (every (\<lambda>name. onward (require_nonnegative (jget snapshot name) name) (\<lambda>_. Inr ()))
        [''sequence'', ''session_elapsed_s'', ''state_revision'']) (\<lambda>_.
      onward (object_of (jget snapshot ''run'') ''run must be an object'') (\<lambda>run.
      onward (validate_run run) (\<lambda>_.
      onward (every (\<lambda>name. onward (array_of (jget snapshot name) (name @ '' must be an array'')) (\<lambda>_. Inr ()))
        [''workers'', ''validation'', ''recent_events'']) (\<lambda>_.
      onward (array_of (jget snapshot ''workers'') []) (\<lambda>workers.
      onward (validate_workers 0 [] workers) (\<lambda>_.
      onward (object_of (jget snapshot ''health'') ''health must be an object'') (\<lambda>health.
      onward (if eq_int (jget snapshot ''schema_version'') 2 then validate_version_2 run health else Inr ()) (\<lambda>_.
      Inr snapshot)))))))))))"

text \<open>\<open>read_snapshot\<close>: the outer \<open>Inl\<close> is the text of an \<open>OSError\<close>, the inner that of a \<open>JSONDecodeError\<close>.\<close>

definition read_snapshot :: "string + (string + json) \<Rightarrow> snapshot_failure + jobject" where
  "read_snapshot file =
     (case file of
        Inl text \<Rightarrow> Inl (SnapshotError (''cannot read snapshot: '' @ text))
      | Inr (Inl text) \<Rightarrow> Inl (SnapshotError (''malformed JSON: '' @ text))
      | Inr (Inr v) \<Rightarrow> validate_snapshot v)"

subsection \<open>The age of a snapshot and the choice of a run\<close>

definition run_of :: "jobject \<Rightarrow> jobject" where
  "run_of snapshot = (case jget snapshot ''run'' of JObj kvs \<Rightarrow> kvs | _ \<Rightarrow> [])"

definition health_of :: "jobject \<Rightarrow> jobject" where
  "health_of snapshot = (case jget snapshot ''health'' of JObj kvs \<Rightarrow> kvs | _ \<Rightarrow> [])"

definition str_value :: "json \<Rightarrow> string" where
  "str_value v = (case v of JStr s \<Rightarrow> s | _ \<Rightarrow> [])"

definition is_final :: "jobject \<Rightarrow> bool" where
  "is_final snapshot = (jget (run_of snapshot) ''lifecycle'' \<in> JStr ` set FINAL_LIFECYCLES)"

text \<open>\<open>instant t\<close> is what \<open>fromisoformat\<close> reads: an instant and whether it has a zone, or \<open>None\<close>.\<close>

definition published_age :: "(string \<Rightarrow> (rat \<times> bool) option) \<Rightarrow> rat \<Rightarrow> jobject \<Rightarrow> rat option" where
  "published_age instant now snapshot =
     (case instant (str_value (jget snapshot ''published_at'')) of
        Some (t, True) \<Rightarrow> Some (max 0 (now - t))
      | _ \<Rightarrow> None)"

definition freshness :: "(string \<Rightarrow> (rat \<times> bool) option) \<Rightarrow> rat \<Rightarrow> jobject \<Rightarrow> string" where
  "freshness instant now snapshot =
     (if is_final snapshot then ''recorded''
      else case published_age instant now snapshot of
        None \<Rightarrow> ''disconnected''
      | Some age \<Rightarrow> if 15 < age then ''disconnected'' else if 5 < age then ''stale'' else ''live'')"

text \<open>\<open>select_snapshot\<close> without a run: what \<open>read_snapshot\<close> gives for each run directory.\<close>

fun live_candidates :: "(snapshot_failure + jobject) list \<Rightarrow> snapshot_failure + jobject list" where
  "live_candidates [] = Inr []"
| "live_candidates (r # rs) =
     (case r of
        Inl (SnapshotError _) \<Rightarrow> live_candidates rs
      | Inl x \<Rightarrow> Inl x
      | Inr snapshot \<Rightarrow>
          onward (live_candidates rs) (\<lambda>candidates. Inr (if is_final snapshot then candidates else snapshot # candidates)))"

definition select_snapshot :: "(snapshot_failure + jobject) option \<Rightarrow> (snapshot_failure + jobject) list \<Rightarrow> snapshot_failure + jobject" where
  "select_snapshot wanted runs =
     (case wanted of
        Some r \<Rightarrow> r
      | None \<Rightarrow>
          onward (live_candidates runs) (\<lambda>candidates.
            case candidates of
              [snapshot] \<Rightarrow> Inr snapshot
            | _ \<Rightarrow> Inl (SnapshotError ''select --run-id; no unique live telemetry session exists'')))"


subsection \<open>Every published snapshot is accepted\<close>

lemma onward_Inr [simp]: "onward (Inr v) f = f v" by (simp add: onward_def)
lemma checked_True [simp]: "checked True message m = m" by (simp add: checked_def)

lemma every_ok: "(\<And>x. x \<in> set xs \<Longrightarrow> f x = Inr ()) \<Longrightarrow> every f xs = Inr ()"
  by (induction xs) auto

lemma require_number [simp]: "as_number v = Some n \<Longrightarrow> 0 \<le> n \<Longrightarrow> require_nonnegative v name = Inr n"
  by (simp add: require_nonnegative_def)

lemma required_buckets: "REQUIRED_COUNTS = map bucket_text DISPLAY_BUCKETS"
  by (simp add: REQUIRED_COUNTS_def DISPLAY_BUCKETS_def)

lemma count_values: "jget (map (\<lambda>b. (bucket_text b, JInt (c b))) DISPLAY_BUCKETS) (bucket_text b) = JInt (c b)"
  by (cases b) (simp_all add: DISPLAY_BUCKETS_def jget_def)

lemma sum_counts_buckets:
  assumes "\<And>b. 0 \<le> c b"
  shows "sum_counts (map (\<lambda>b. (bucket_text b, JInt (c b))) DISPLAY_BUCKETS) (map bucket_text bs) = Inr (of_int (\<Sum>b \<leftarrow> bs. c b))"
proof (induction bs)
  case (Cons b bs)
  have "require_nonnegative (JInt (c b)) (''run.counts.'' @ bucket_text b) = Inr (of_int (c b))" using assms by simp
  with Cons show ?case by (simp add: count_values)
qed simp

lemma count_where_nonneg: "0 \<le> count_where P xs"
  unfolding count_where_def by (rule sum_list_nonneg) auto

lemma buckets_partition: "(\<Sum>b \<leftarrow> DISPLAY_BUCKETS. count_where (\<lambda>r. f r = b) rs) = int (length rs)"
proof (induction rs)
  case (Cons r rs)
  have "(\<Sum>b \<leftarrow> DISPLAY_BUCKETS. if f r = b then 1 else 0 :: int) = 1" by (cases "f r") (simp_all add: DISPLAY_BUCKETS_def)
  moreover have "(\<Sum>b \<leftarrow> DISPLAY_BUCKETS. count_where (\<lambda>r. f r = b) (r # rs)) =
      (\<Sum>b \<leftarrow> DISPLAY_BUCKETS. if f r = b then 1 else 0) + (\<Sum>b \<leftarrow> DISPLAY_BUCKETS. count_where (\<lambda>r. f r = b) rs)"
    by (simp add: count_where_def sum_list_addf)
  ultimately show ?case using Cons by simp
qed (simp add: count_where_def DISPLAY_BUCKETS_def)

definition worker_fields :: "string list" where
  "worker_fields = [''received_bytes'', ''total_bytes'', ''speed_bps'', ''eta_seconds'']"

text \<open>A row with a number whose fields are null or not negative.\<close>

definition row_ok :: "nat \<Rightarrow> jobject \<Rightarrow> bool" where
  "row_ok n row \<longleftrightarrow> jget row ''worker_id'' = JInt (int n) \<and>
     (\<forall>name \<in> set worker_fields. jget row name = JNull \<or> (\<exists>q. as_number (jget row name) = Some q \<and> 0 \<le> q))"

lemma validate_rows_ok:
  assumes "\<forall>x \<in> set xs. row_ok (fst x) (snd x)" and "distinct (map fst xs)" and "\<forall>x \<in> set xs. (of_nat (fst x) :: rat) \<notin> set seen"
  shows "validate_workers k seen (map (\<lambda>x. JObj (snd x)) xs) = Inr ()"
  using assms
proof (induction xs arbitrary: k seen)
  case (Cons x xs)
  from Cons.prems(1) have id: "jget (snd x) ''worker_id'' = JInt (int (fst x))"
    and ok: "\<forall>name \<in> set worker_fields. jget (snd x) name = JNull \<or> (\<exists>q. as_number (jget (snd x) name) = Some q \<and> 0 \<le> q)"
    by (simp_all add: row_ok_def)
  have "every (\<lambda>name. if jget (snd x) name = JNull then Inr ()
      else onward (require_nonnegative (jget (snd x) name) (worker_name k @ ''.'' @ name)) (\<lambda>_. Inr ())) worker_fields = Inr ()"
    by (rule every_ok) (use ok in auto)
  moreover have "validate_workers (Suc k) (of_nat (fst x) # seen) (map (\<lambda>x. JObj (snd x)) xs) = Inr ()"
  proof (rule Cons.IH)
    show "\<forall>y \<in> set xs. (of_nat (fst y) :: rat) \<notin> set (of_nat (fst x) # seen)"
    proof
      fix y assume y: "y \<in> set xs"
      with Cons.prems(2) have "fst y \<noteq> fst x" by (metis distinct.simps(2) image_eqI list.simps(9) set_map)
      with y Cons.prems(3) show "(of_nat (fst y) :: rat) \<notin> set (of_nat (fst x) # seen)" by simp
    qed
  qed (use Cons.prems in simp_all)
  ultimately show ?case using id Cons.prems(3) by (simp add: worker_fields_def)
qed simp

definition sample_ok :: "sample \<Rightarrow> bool" where
  "sample_ok s \<longleftrightarrow> (\<forall>n \<in> {s_received s, s_total s, s_speed s}. \<forall>k. n = Some k \<longrightarrow> 0 \<le> k)"

lemma eta_nonneg: "estimate_eta_seconds r t v = Some q \<Longrightarrow> 0 \<le> q"
  by (auto simp: estimate_eta_seconds_def split: option.splits if_splits)

lemma opt_int_ok: "(\<forall>k. n = Some k \<longrightarrow> 0 \<le> k) \<Longrightarrow> opt_int n = JNull \<or> (\<exists>q. as_number (opt_int n) = Some q \<and> 0 \<le> q)"
  by (cases n) auto

lemma rat_json_ok: "(\<forall>k. n = Some k \<longrightarrow> 0 \<le> k) \<Longrightarrow> rat_json n = JNull \<or> (\<exists>q. as_number (rat_json n) = Some q \<and> 0 \<le> q)"
  by (cases n) (auto simp: rat_json_def)

lemma worker_row_ok:
  assumes "worker_row e admission s = Some row" and "sample_ok s"
  shows "row_ok (s_worker s) row"
proof -
  from assms(1) have vals: "jget row ''worker_id'' = nat_json (s_worker s)" "jget row ''received_bytes'' = opt_int (s_received s)"
    "jget row ''total_bytes'' = opt_int (s_total s)" "jget row ''speed_bps'' = opt_int (s_speed s)"
    "jget row ''eta_seconds'' = rat_json (estimate_eta_seconds (s_received s) (s_total s) (s_speed s))"
    by (auto simp: worker_row_def POPPED_KEYS_def sample_object_def jget_def)
  moreover have "\<forall>k. estimate_eta_seconds (s_received s) (s_total s) (s_speed s) = Some k \<longrightarrow> 0 \<le> k" using eta_nonneg by blast
  ultimately show ?thesis using assms(2) opt_int_ok rat_json_ok
    unfolding row_ok_def worker_fields_def by (auto simp: sample_ok_def nat_json_def)
qed

lemma idle_row_ok: "row_ok n (idle_row n)"
  by (simp add: row_ok_def worker_fields_def idle_row_def jget_def nat_json_def)

lemma worker_rows_of_numbers: "worker_rows_of e admission act = Some rows \<Longrightarrow> map fst rows = map s_worker act"
  by (induction act arbitrary: rows) (auto split: option.splits)

lemma worker_rows_of_ok:
  "worker_rows_of e admission act = Some rows \<Longrightarrow> \<forall>s \<in> set act. sample_ok s \<Longrightarrow> x \<in> set rows \<Longrightarrow> row_ok (fst x) (snd x)"
proof (induction act arbitrary: rows)
  case (Cons a act)
  then obtain row others where "worker_row e admission a = Some row" "worker_rows_of e admission act = Some others"
    "rows = (s_worker a, row) # others" by (auto split: option.splits)
  with Cons worker_row_ok [of e admission a row] show ?case by auto
qed simp

lemma mset_numbers: "mset (map fst (sort_key fst (rows @ map (\<lambda>n. (n, f n)) ns))) = mset (map fst rows @ ns)"
proof -
  have "image_mset fst (image_mset (\<lambda>n. (n, f n)) (mset ns)) = mset ns" by (induction ns) simp_all
  then show ?thesis by (simp only: mset_map mset_sort mset_append image_mset_union)
qed

lemma distinct_fill: "distinct xs \<Longrightarrow> distinct ns \<Longrightarrow> distinct (xs @ filter (\<lambda>n. n \<notin> set xs) ns)"
  by auto

lemma published_workers_ok:
  assumes "worker_rows e admission workers act = Some rows" and "\<forall>s \<in> set act. sample_ok s" and "distinct (map s_worker act)"
  shows "validate_workers 0 [] (map JObj rows) = Inr ()"
proof -
  from assms(1) obtain shown where shown: "worker_rows_of e admission act = Some shown"
    and rows: "rows = map snd (sort_key fst (shown @ map (\<lambda>n. (n, idle_row n)) (filter (\<lambda>n. n \<notin> s_worker ` set act) [1..<Suc workers])))"
    by (auto simp: worker_rows_def)
  let ?all = "sort_key fst (shown @ map (\<lambda>n. (n, idle_row n)) (filter (\<lambda>n. n \<notin> s_worker ` set act) [1..<Suc workers]))"
  have fst: "map fst shown = map s_worker act" by (rule worker_rows_of_numbers [OF shown])
  have "distinct (map fst shown @ filter (\<lambda>n. n \<notin> s_worker ` set act) [1..<Suc workers])"
    unfolding fst using distinct_fill [OF assms(3) distinct_upt] unfolding set_map .
  then have "distinct (map fst ?all)" by (rule iffD2 [OF mset_eq_imp_distinct_iff [OF mset_numbers]])
  moreover have "\<forall>x \<in> set ?all. row_ok (fst x) (snd x)"
  proof
    fix x assume "x \<in> set ?all"
    then have "x \<in> set shown \<or> (\<exists>n. x = (n, idle_row n))" unfolding set_sort by auto
    then show "row_ok (fst x) (snd x)" using worker_rows_of_ok [OF shown assms(2)] idle_row_ok by auto
  qed
  ultimately have "validate_workers 0 [] (map (\<lambda>x. JObj (snd x)) ?all) = Inr ()" by (intro validate_rows_ok) auto
  then show ?thesis unfolding rows by (simp add: comp_def)
qed

text \<open>What a published snapshot needs of the publisher: texts that are not empty and one sample per worker.\<close>

definition publisher_ok :: "publisher \<Rightarrow> bool" where
  "publisher_ok p \<longleftrightarrow> tp_session p \<noteq> [] \<and> tp_lifecycle p \<noteq> [] \<and> tp_last_payload p \<noteq> Some [] \<and> tp_completed_at p \<noteq> Some [] \<and>
     tp_stopped_at p \<noteq> Some [] \<and> (\<forall>s \<in> set (map snd (tp_active p)). sample_ok s) \<and> distinct (map s_worker (map snd (tp_active p)))"

lemma aged_samples:
  "map s_worker (tp_aged_active_copy t p) = map s_worker (map snd (tp_active p))"
  "\<forall>s \<in> set (map snd (tp_active p)). sample_ok s \<Longrightarrow> \<forall>s \<in> set (tp_aged_active_copy t p). sample_ok s"
  by (auto simp: tp_aged_active_copy_def sample_ok_def split: option.splits)

lemma optional_text [simp]: "v \<noteq> Some [] \<Longrightarrow> optional_string (text_json v) name = Inr ()"
  by (cases v) (auto simp: optional_string_def require_string_def text_json_def)

lemma filesystems_ok: "validate_filesystems 0 (filesystem_rows g e) = Inr ()"
proof -
  have "show_nat n \<noteq> []" for n by (subst show_nat.simps) simp
  then show ?thesis by (auto simp: filesystem_rows_def filesystem_row_def require_string_def jget_def)
qed

lemma published_counts_ok:
  assumes "\<And>b. 0 \<le> c b" and "(\<Sum>b \<leftarrow> DISPLAY_BUCKETS. c b) = n" and "jget run ''lifecycle'' = JStr l" and "l \<noteq> []"
    and "jget run ''selected_count'' = JInt n" and "jget run ''counts'' = counts_json c"
  shows "validate_run run = Inr ()"
proof -
  have "0 \<le> n" unfolding assms(2) [symmetric] using assms(1) by (intro sum_list_nonneg) auto
  moreover have "sum_counts (map (\<lambda>b. (bucket_text b, JInt (c b))) DISPLAY_BUCKETS) REQUIRED_COUNTS = Inr (of_int n)"
    unfolding required_buckets sum_counts_buckets [OF assms(1)] assms(2) ..
  moreover have "set (map fst (map (\<lambda>b. (bucket_text b, JInt (c b))) DISPLAY_BUCKETS)) = set REQUIRED_COUNTS"
    unfolding required_buckets by (simp add: comp_def)
  ultimately show ?thesis using assms(3-6) by (simp add: validate_run_def require_string_def counts_json_def)
qed

lemma publish_file:
  assumes "publish dumps g e s now None p f = (None, f')" and "fd_file f' = Some v"
  obtains admission events vals snapshot where "telemetry_snapshot g e (fd_started f) s p admission (tp_lifecycle p) (tp_reason p)
      (tp_aged_active_copy (se_mono e) p) vals events = Inr snapshot"
    and "v = JObj (published e now (f\<lparr>fd_sequence := fd_sequence f + 1\<rparr>) p snapshot)"
proof -
  let ?t = "telemetry_snapshot g e (fd_started f) s p (admission_json (se_clocks e) s) (tp_lifecycle p) (tp_reason p)
      (tp_aged_active_copy (se_mono e) p) (map (\<lambda>kv. validation_json (snd kv)) (tp_validation p)) (map event_json (tp_events p))"
  show thesis
  proof (cases ?t)
    case (Inl t)
    then show thesis using assms(1) by (simp add: publish_def Let_def)
  next
    case (Inr snapshot)
    then have "v = JObj (published e now (f\<lparr>fd_sequence := fd_sequence f + 1\<rparr>) p snapshot)"
      using assms by (auto simp: publish_def Let_def split: if_splits)
    with Inr that show thesis by blast
  qed
qed

lemma snapshot_parts:
  assumes "telemetry_snapshot g e started s p admission lifecycle reason act vals events = Inr snapshot" and "x_projection s = Some pr"
  obtains rows where "worker_rows e admission (g_workers g) act = Some rows"
    and "snapshot = [(''state_revision'', JInt (sm_revision (copy_projection pr))),
       (''run'', run_json g e started s p (copy_projection pr) lifecycle reason act),
       (''workers'', JArr (map JObj rows)), (''validation'', JArr vals),
       (''health'', health_json g e s p (copy_projection pr) act), (''recent_events'', JArr events)]"
  using assms by (cases "worker_rows e admission (g_workers g) act") (simp_all add: telemetry_snapshot_def Let_def)

lemma published_run_ok:
  assumes "agrees sha m rs pr" and "p_selected pr = int (length rs)" and "publisher_ok p"
  obtains run where "run_json g e started s p (copy_projection pr) (tp_lifecycle p) reason act = JObj run" and "validate_run run = Inr ()"
    and "\<And>health. jget health ''filesystems'' = JArr (filesystem_rows g e) \<Longrightarrow> validate_version_2 run health = Inr ()"
proof -
  define run where "run = (case run_json g e started s p (copy_projection pr) (tp_lifecycle p) reason act of JObj kvs \<Rightarrow> kvs | _ \<Rightarrow> [])"
  have counts: "p_counts pr = (\<lambda>b. count_where (\<lambda>r. bucket_of m r = b) rs)" using assms(1) unfolding agrees_def by blast
  have "validate_run run = Inr ()"
  proof (rule published_counts_ok)
    show "0 \<le> p_counts pr b" for b using counts count_where_nonneg by simp
    show "(\<Sum>b \<leftarrow> DISPLAY_BUCKETS. p_counts pr b) = p_selected pr" unfolding counts assms(2) by (rule buckets_partition)
    show "tp_lifecycle p \<noteq> []" using assms(3) by (simp add: publisher_ok_def)
  qed (simp_all add: run_def run_json_def jget_def copy_projection_def Let_def)
  moreover have "jget run ''last_payload_progress_at'' = text_json (tp_last_payload p)" "jget run ''completed_at'' = text_json (tp_completed_at p)"
    "jget run ''stopped_at'' = text_json (tp_stopped_at p)" by (simp_all add: run_def run_json_def jget_def)
  then have "validate_version_2 run health = Inr ()" if "jget health ''filesystems'' = JArr (filesystem_rows g e)" for health
    using that assms(3) filesystems_ok [of g e] by (simp add: validate_version_2_def array_of_def publisher_ok_def)
  moreover have "run_json g e started s p (copy_projection pr) (tp_lifecycle p) reason act = JObj run" by (simp add: run_def run_json_def)
  ultimately show thesis using that by blast
qed



definition example_snapshot_env :: snapshot_env where
  "example_snapshot_env = \<lparr>se_sha = (\<lambda>u. u), se_mono = 6, se_clocks = example_env, se_time = (\<lambda>_. 0), se_iso = (\<lambda>_. ''t''), se_utc = 0,
     se_free_destination = 10, se_free_state = 10, se_device_destination = 1, se_device_state = 2, se_manifest = [], se_rpc = True\<rparr>"

definition example_feed :: feed where
  "example_feed = \<lparr>fd_run = ''run-1'', fd_started = 0, fd_sequence = 4, fd_file = None, fd_next = 0\<rparr>"

definition example_controller :: downloader where
  "example_controller = init_downloader\<lparr>x_projection := Some (init_projection 0 0 0 (g_max_attempts example_config)),
     x_worker_ids := [(''a'', 1)]\<rparr>"

lemma monitored_synced: "synced en example_config example_controller"
proof -
  have "run_rows rid empty_db = []" "revision_of rid empty_db = 0" "keyed sha rid empty_db" "wf_db empty_db" for rid sha
    by (simp_all add: run_rows_def run_urls_def revision_of_def empty_db_def keyed_def wf_db_def)
  then show ?thesis
    by (simp add: synced_def projects_def example_controller_def init_downloader_def agrees_init) (simp add: init_projection_def)
qed

lemma example_publication:
  assumes "\<forall>s \<in> set (tp_aged_active_copy 6 p). url_basename (s_url s) \<noteq> None" and "x_projection s = Some pr"
  obtains v f' where "publish (\<lambda>_. []) example_config example_snapshot_env s ''now'' None p example_feed = (None, f')" and "fd_file f' = Some v"
proof -
  have rows: "worker_rows_of example_snapshot_env admission act \<noteq> None" if "\<forall>s \<in> set act. url_basename (s_url s) \<noteq> None" for admission act
    using that by (induction act) (auto simp: worker_row_def split: option.splits)
  have "\<exists>snapshot. telemetry_snapshot example_config example_snapshot_env started s p admission l r (tp_aged_active_copy 6 p) vals events = Inr snapshot"
    for started admission l r vals events
    using rows [OF assms(1), of admission] assms(2) by (auto simp: telemetry_snapshot_def worker_rows_def Let_def)
  moreover have "se_mono example_snapshot_env = 6" by (simp add: example_snapshot_env_def)
  ultimately obtain snapshot where t: "telemetry_snapshot example_config example_snapshot_env (fd_started example_feed) s p
      (admission_json (se_clocks example_snapshot_env) s) (tp_lifecycle p) (tp_reason p)
      (tp_aged_active_copy (se_mono example_snapshot_env) p) (map (\<lambda>kv. validation_json (snd kv)) (tp_validation p)) (map event_json (tp_events p)) =
      Inr snapshot" by metis
  have "publish (\<lambda>_. []) example_config example_snapshot_env s ''now'' None p example_feed =
      (None, example_feed\<lparr>fd_sequence := fd_sequence example_feed + 1, fd_file := Some (JObj (published example_snapshot_env ''now''
        (example_feed\<lparr>fd_sequence := fd_sequence example_feed + 1\<rparr>) p snapshot))\<rparr>)"
    by (simp add: publish_def Let_def t MAX_SNAPSHOT_FILE_def)
  then show thesis by (rule that) simp
qed



subsection \<open>A slot that is released too early\<close>

named_theorems accepted_iff

lemma onward_Inr_iff [accepted_iff]: "onward m f = Inr v \<longleftrightarrow> (\<exists>u. m = Inr u \<and> f u = Inr v)"
  by (cases m) (simp_all add: onward_def)

lemma checked_Inr_iff [accepted_iff]: "checked b t m = Inr v \<longleftrightarrow> b \<and> m = Inr v"
  by (simp add: checked_def)

definition number_of :: "json \<Rightarrow> rat option" where
  "number_of v = (case v of JObj row \<Rightarrow> as_number (jget row ''worker_id'') | _ \<Rightarrow> None)"

lemma valid_workers_distinct:
  "validate_workers k seen vs = Inr () \<Longrightarrow> distinct (map number_of vs) \<and> set (map number_of vs) \<inter> Some ` set seen = {}"
proof (induction k seen vs rule: validate_workers.induct)
  case (2 k seen v vs)
  from 2(2) obtain worker n where v: "v = JObj worker" "as_number (jget worker ''worker_id'') = Some n" "n \<notin> set seen"
    and rest: "validate_workers (Suc k) (n # seen) vs = Inr ()"
    by (auto simp: accepted_iff require_nonnegative_def split: json.splits option.splits)
  then have "number_of v = Some n" by (simp add: number_of_def)
  with 2(1) [OF v(1) rest] v show ?case by (auto simp: checked_def)
qed simp

lemma rows_show_workers:
  assumes "worker_rows e admission workers act = Some rows" and "distinct (map number_of (map JObj rows))"
  shows "distinct (map s_worker act)"
proof -
  from assms(1) obtain shown where shown: "worker_rows_of e admission act = Some shown"
    and rows: "rows = map snd (sort_key fst (shown @ map (\<lambda>n. (n, idle_row n)) (filter (\<lambda>n. n \<notin> s_worker ` set act) [1..<Suc workers])))"
    by (auto simp: worker_rows_def)
  have ids: "\<forall>x \<in> set shown. number_of (JObj (snd x)) = Some (of_nat (fst x))"
    using shown
  proof (induction act arbitrary: shown)
    case (Cons a act)
    then obtain row others where row: "worker_row e admission a = Some row" "worker_rows_of e admission act = Some others"
      "shown = (s_worker a, row) # others" by (auto split: option.splits)
    then have "jget row ''worker_id'' = nat_json (s_worker a)" by (auto simp: worker_row_def POPPED_KEYS_def sample_object_def jget_def)
    with Cons row show ?case by (simp add: number_of_def nat_json_def)
  qed simp
  let ?all = "shown @ map (\<lambda>n. (n, idle_row n)) (filter (\<lambda>n. n \<notin> s_worker ` set act) [1..<Suc workers])"
  have "distinct (map (\<lambda>x. number_of (JObj (snd x))) (sort_key fst ?all))" using assms(2) by (simp add: rows comp_def)
  then have "distinct (map (\<lambda>x. number_of (JObj (snd x))) ?all)"
    by (rule iffD1 [OF mset_eq_imp_distinct_iff, rotated]) (simp only: mset_map mset_sort)
  then have "distinct (map (\<lambda>x. number_of (JObj (snd x))) shown)" by (simp only: map_append distinct_append)
  moreover have "map (\<lambda>x. number_of (JObj (snd x))) shown = map (Some \<circ> of_nat) (map fst shown)" using ids by simp
  ultimately have "distinct (map fst shown)" by (metis distinct_map)
  then show ?thesis by (simp only: worker_rows_of_numbers [OF shown])
qed

lemma accepted_has_distinct_workers:
  assumes "publish dumps g e s now None p f = (None, f')" and "fd_file f' = Some v" and "validate_snapshot v = Inr snapshot"
  shows "distinct (map s_worker (map snd (tp_active p)))"
proof (rule publish_file [OF assms(1,2)])
  fix admission events vals snap
  assume t: "telemetry_snapshot g e (fd_started f) s p admission (tp_lifecycle p) (tp_reason p) (tp_aged_active_copy (se_mono e) p) vals events = Inr snap"
    and v: "v = JObj (published e now (f\<lparr>fd_sequence := fd_sequence f + 1\<rparr>) p snap)"
  then obtain pr where pr: "x_projection s = Some pr" by (auto simp: telemetry_snapshot_def split: option.splits)
  show ?thesis
  proof (rule snapshot_parts [OF t pr])
    fix rows
    assume rows: "worker_rows e admission (g_workers g) (tp_aged_active_copy (se_mono e) p) = Some rows"
      and snap: "snap = [(''state_revision'', JInt (sm_revision (copy_projection pr))),
         (''run'', run_json g e (fd_started f) s p (copy_projection pr) (tp_lifecycle p) (tp_reason p) (tp_aged_active_copy (se_mono e) p)),
         (''workers'', JArr (map JObj rows)), (''validation'', JArr vals),
         (''health'', health_json g e s p (copy_projection pr) (tp_aged_active_copy (se_mono e) p)), (''recent_events'', JArr events)]"
    define obj where "obj = published e now (f\<lparr>fd_sequence := fd_sequence f + 1\<rparr>) p snap"
    have w: "jget obj ''workers'' = JArr (map JObj rows)" by (simp add: obj_def published_def snap jget_def)
    from assms(3) have "validate_workers 0 [] (map JObj rows) = Inr ()"
      unfolding v obj_def [symmetric] validate_snapshot_def object_of_def json.case onward_Inr
      by (auto simp: accepted_iff array_of_def w split: if_splits)
    from valid_workers_distinct [OF this] rows_show_workers [OF rows] show ?thesis by (simp only: aged_samples(1))
  qed
qed


text \<open>The first half of \<open>clear_transfer_telemetry\<close>: the slot is free, the sample is still there.\<close>

definition released :: "string \<Rightarrow> downloader \<Rightarrow> downloader" where
  "released u s = s\<lparr>x_active := AList.delete u (x_active s), x_worker_ids := AList.delete u (x_worker_ids s),
     x_active_attempts := AList.delete u (x_active_attempts s)\<rparr>"

lemma distinct_values_delete:
  assumes "distinct (map snd xs)" and "map_of xs u = Some k" and "distinct (map fst xs)"
  shows "set (map snd (AList.delete u xs)) = set (map snd xs) - {k}"
proof -
  have "x \<in> set xs \<Longrightarrow> snd x = k \<longleftrightarrow> fst x = u" for x
    using assms by (metis (no_types, lifting) distinct_map inj_on_def map_of_SomeD map_of_is_SomeI prod.collapse snd_conv fst_conv option.inject)
  then have "AList.delete u xs = filter (\<lambda>x. snd x \<noteq> k) xs" unfolding AList.delete_eq by (intro filter_cong) auto
  then show ?thesis by auto
qed

text \<open>
  C37: a worker slot is shown twice.  \<open>clear_transfer_telemetry\<close> gives the slot back before it removes
  the sample.  When all workers are busy and the next transfer is admitted between the two steps, it
  gets the same slot, and a snapshot published in that moment has two rows for one worker, which the
  monitor refuses as a whole.
\<close>

theorem released_slot_is_shown_twice:
  assumes "set (map snd (x_worker_ids s)) = {1..g_workers g}" and "distinct (map snd (x_worker_ids s))"
    and "distinct (map fst (x_worker_ids s))" and "map_of (x_worker_ids s) u = Some k"
    and "map_of (tp_active p) u = Some old" and "s_worker old = k" and "w \<noteq> u"
    and "reserve_worker_id g (released u s) = Some j"
    and "publish dumps g e (released u s) now None (tp_set_active t w j n ''cooldown'' None p) f = (None, f')" and "fd_file f' = Some v"
  shows "j = k \<and> (\<exists>x. validate_snapshot v = Inl x)"
proof
  have "set (map snd (x_worker_ids (released u s))) = {1..g_workers g} - {k}"
    using distinct_values_delete [OF assms(2,4,3)] assms(1) by (simp add: released_def)
  moreover have "j \<notin> set (map snd (x_worker_ids (released u s)))" "j \<in> {1..g_workers g}"
    using assms(8) by (auto simp: reserve_worker_id_def find_Some_iff simp del: upt_Suc)
  ultimately show jk: "j = k" by auto
  let ?p = "tp_set_active t w j n ''cooldown'' None p"
  obtain new where new: "map_of (tp_active ?p) w = Some new" "s_worker new = k"
    using jk by (simp add: tp_set_active_def update_conv)
  moreover have "map_of (tp_active ?p) u = Some old" using assms(5,7) by (simp add: tp_set_active_def update_conv)
  ultimately have two: "(w, new) \<in> set (tp_active ?p)" "(u, old) \<in> set (tp_active ?p)" by (auto dest: map_of_SomeD)
  show "\<exists>x. validate_snapshot v = Inl x"
  proof (cases "validate_snapshot v")
    case (Inr snapshot)
    from accepted_has_distinct_workers [OF assms(9,10) this] have "distinct (map (s_worker \<circ> snd) (tp_active ?p))" by (simp add: comp_def)
    then have "(w, new) = (u, old)" using two new(2) assms(6) unfolding distinct_map inj_on_def by (metis comp_apply snd_conv)
    with assms(7) show ?thesis by simp
  qed simp
qed

theorem released_slot_is_shown_twice_witness:
  "\<exists>f' v x. publish (\<lambda>_. []) example_config example_snapshot_env (released ''a'' (example_controller\<lparr>x_worker_ids := [(''b'', 2), (''a'', 1)]\<rparr>)) ''now'' None
      (tp_set_active 5 ''c'' 1 1 ''cooldown'' None example_publisher) example_feed = (None, f') \<and> fd_file f' = Some v \<and> validate_snapshot v = Inl x"
proof -
  let ?s = "example_controller\<lparr>x_worker_ids := [(''b'', 2), (''a'', 1)]\<rparr>" and ?p = "tp_set_active 5 ''c'' 1 1 ''cooldown'' None example_publisher"
  have pr: "x_projection (released ''a'' ?s) = Some (init_projection 0 0 0 (g_max_attempts example_config))"
    by (simp add: released_def example_controller_def)
  have url: "url_basename ''a'' \<noteq> None" "url_basename ''c'' \<noteq> None" by code_simp+
  have "s_url s \<in> {''a'', ''c''}" if "s \<in> set (tp_aged_active_copy 6 ?p)" for s
    using that by (auto simp: tp_aged_active_copy_def example_publisher_def tp_update_sample_def tp_set_active_def init_publisher_def Let_def)
  with url have "\<forall>s \<in> set (tp_aged_active_copy 6 ?p). url_basename (s_url s) \<noteq> None" by (metis empty_iff insert_iff)
  from example_publication [OF this pr] obtain v f' where v: "publish (\<lambda>_. []) example_config example_snapshot_env (released ''a'' ?s) ''now'' None ?p example_feed = (None, f')"
    "fd_file f' = Some v" by blast
  obtain old where old: "map_of (tp_active example_publisher) ''a'' = Some old" "s_worker old = 1"
    by (simp add: example_publisher_def tp_update_sample_def tp_set_active_def init_publisher_def Let_def)
  have slots: "set (map snd (x_worker_ids ?s)) = {1..g_workers example_config}" "distinct (map snd (x_worker_ids ?s))"
    "distinct (map fst (x_worker_ids ?s))" "map_of (x_worker_ids ?s) ''a'' = Some 1"
    by (auto simp: example_config_def)
  have "reserve_worker_id example_config (released ''a'' ?s) = Some 1"
    by (simp add: reserve_worker_id_def released_def example_config_def upt_rec)
  from released_slot_is_shown_twice [OF slots old _ this v] v show ?thesis by auto
qed

end
