(* ===== verification/MonitorText.thy ===== *)
theory MonitorText
  imports Monitor Recovery
begin

text \<open>
  The texts of \<open>src/monitor.py\<close>: numbers, durations and names as the screens show them, the summary, and
  the trend of the speed.

  \<open>dp_cells\<close> is \<open>rich.cells.cell_len\<close>, \<open>dp_repr\<close> is \<open>str\<close> of a value that is neither text, integer,
  Boolean nor null, \<open>dp_float\<close> is \<open>float\<close> of a text, and \<open>dp_instant\<close> is \<open>fromisoformat\<close>.  Floating-point
  numbers are exact rationals, which they are for byte counts below \<open>2 ^ 53\<close>.
\<close>

record display =
  dp_sha :: "string \<Rightarrow> string"
  dp_cells :: "string \<Rightarrow> nat"
  dp_repr :: "json \<Rightarrow> string"
  dp_float :: "string \<Rightarrow> rat option"
  dp_instant :: "string \<Rightarrow> (rat \<times> bool) option"
  dp_now :: rat

definition ELLIPSIS :: string where "ELLIPSIS = [CHR 0xE2, CHR 0x80, CHR 0xA6]"
definition DASH :: string where "DASH = [CHR 0xE2, CHR 0x80, CHR 0x94]"

subsection \<open>Characters and cuts\<close>

text \<open>The characters of a text, each as its bytes.\<close>

function characters :: "string \<Rightarrow> string list" where
  "characters [] = []"
| "characters (c # s) =
     (if byte_in 0 0x7F c then [c] # characters s
      else let (seq, ok) = utf8_take c s in seq # characters (drop (length seq - 1) s))"
  by pat_completeness auto
termination by (relation "measure length") auto

declare characters.simps [simp del]

definition hex2 :: "char \<Rightarrow> string" where
  "hex2 c = (let n = of_char c :: nat; digit = (\<lambda>k. if k < 10 then char_of (48 + k) else char_of (87 + k)) in [digit (n div 16), digit (n mod 16)])"

definition str_json :: "display \<Rightarrow> json \<Rightarrow> string" where
  "str_json d v =
     (case v of
        JStr s \<Rightarrow> s
      | JInt n \<Rightarrow> show_int n
      | JBool b \<Rightarrow> if b then ''True'' else ''False''
      | JNull \<Rightarrow> ''None''
      | _ \<Rightarrow> dp_repr d v)"

definition literal :: "string \<Rightarrow> string" where
  "literal s = concat (map (\<lambda>c. if byte_in 0 31 c \<or> c = CHR 0x7F then [CHR 0x5C, CHR ''x''] @ hex2 c else [c]) s)"

definition literal_text :: "display \<Rightarrow> json \<Rightarrow> string" where
  "literal_text d v = literal (str_json d v)"

text \<open>The characters that fit, from the front and from the back.\<close>

fun fitting :: "(string \<Rightarrow> nat) \<Rightarrow> int \<Rightarrow> string \<Rightarrow> string list \<Rightarrow> string" where
  "fitting cells limit kept [] = kept"
| "fitting cells limit kept (c # cs) =
     (if limit < int (cells (kept @ c)) then kept else fitting cells limit (kept @ c) cs)"

fun fitting_back :: "(string \<Rightarrow> nat) \<Rightarrow> int \<Rightarrow> string \<Rightarrow> string list \<Rightarrow> string" where
  "fitting_back cells limit kept [] = kept"
| "fitting_back cells limit kept (c # cs) =
     (if limit < int (cells (c @ kept)) then kept else fitting_back cells limit (c @ kept) cs)"

definition truncate_end :: "(string \<Rightarrow> nat) \<Rightarrow> string \<Rightarrow> int \<Rightarrow> string" where
  "truncate_end cells value width =
     (if int (cells value) \<le> width then value
      else if 1 \<le> width then fitting cells (width - 1) [] (characters value) @ ELLIPSIS else [])"

definition middle_truncate :: "(string \<Rightarrow> nat) \<Rightarrow> string \<Rightarrow> int \<Rightarrow> string" where
  "middle_truncate cells value width =
     (if int (cells value) \<le> width then value
      else let tail_width = (width - 1) div 2; head_width = width - 1 - tail_width
        in fitting cells head_width [] (characters value) @ ELLIPSIS @
           fitting_back cells tail_width [] (rev (characters value)))"

definition truncate_filename :: "display \<Rightarrow> json \<Rightarrow> int \<Rightarrow> string" where
  "truncate_filename d v width = middle_truncate (dp_cells d) (literal_text d v) width"

definition MARQUEE_STEPS_PER_SECOND :: nat where "MARQUEE_STEPS_PER_SECOND = 3"
definition MARQUEE_END_PAUSE_STEPS :: nat where "MARQUEE_END_PAUSE_STEPS = 2 * MARQUEE_STEPS_PER_SECOND"

definition marquee_filename :: "display \<Rightarrow> json \<Rightarrow> nat \<Rightarrow> int \<Rightarrow> string" where
  "marquee_filename d v offset width =
     (let name = literal_text d v; cs = characters name; cells = dp_cells d in
      if int (cells name) \<le> width then name
      else
        let last_start = (case find (\<lambda>k. int (cells (concat (drop k cs))) \<le> width) [0..<length cs] of
              Some k \<Rightarrow> k | None \<Rightarrow> length cs - 1);
            start = min (offset mod (last_start + MARQUEE_END_PAUSE_STEPS)) last_start
        in fitting cells width [] (drop start cs))"

definition short_item_id :: "display \<Rightarrow> json \<Rightarrow> string" where
  "short_item_id d v = take 10 (dp_sha d (str_json d v))"

subsection \<open>Numbers and times\<close>

definition truthy :: "json \<Rightarrow> bool" where
  "truthy v =
     (case v of
        JNull \<Rightarrow> False | JBool b \<Rightarrow> b | JInt n \<Rightarrow> n \<noteq> 0 | JFloat r \<Rightarrow> r \<noteq> 0
      | JStr s \<Rightarrow> s \<noteq> [] | JArr vs \<Rightarrow> vs \<noteq> [] | JObj kvs \<Rightarrow> kvs \<noteq> [])"

text \<open>\<open>int(v)\<close>: a float is cut towards zero.\<close>

definition to_int :: "json \<Rightarrow> snapshot_failure + int" where
  "to_int v =
     (case v of
        JInt n \<Rightarrow> Inr n
      | JBool b \<Rightarrow> Inr (if b then 1 else 0)
      | JFloat r \<Rightarrow> Inr (if r < 0 then - floor (- r) else floor r)
      | JStr s \<Rightarrow> (case py_int (strip s) of None \<Rightarrow> Inl ValueFailure | Some n \<Rightarrow> Inr n)
      | _ \<Rightarrow> Inl TypeFailure)"

text \<open>The format \<open>,.1f\<close> of a number that is not negative.\<close>

definition half_even :: "rat \<Rightarrow> int" where
  "half_even q = (let f = floor q; r = q - of_int f in
     if r < 1 / 2 then f else if 1 / 2 < r then f + 1 else if even f then f else f + 1)"

fun commas_rev :: "string \<Rightarrow> string" where
  "commas_rev (a # b # c # e # s) = a # b # c # CHR '','' # commas_rev (e # s)"
| "commas_rev s = s"

definition commas :: "string \<Rightarrow> string" where "commas s = rev (commas_rev (rev s))"

definition one_decimal :: "rat \<Rightarrow> string" where
  "one_decimal q = (let t = half_even (10 * q) in commas (show_int (t div 10)) @ ''.'' @ show_int (t mod 10))"

definition BYTE_UNITS :: "string list" where "BYTE_UNITS = [''B'', ''KiB'', ''MiB'', ''GiB'', ''TiB'']"

fun bytes_in :: "rat \<Rightarrow> string list \<Rightarrow> string" where
  "bytes_in n [] = ''?''"
| "bytes_in n (u # us) =
     (if n < 1024 \<or> u = ''TiB''
      then (if u = ''B'' then show_int (floor n) @ '' B'' else one_decimal n @ '' '' @ u)
      else bytes_in (n / 1024) us)"

definition format_bytes :: "json \<Rightarrow> snapshot_failure + string" where
  "format_bytes v = (if v = JNull then Inr ''?'' else onward (to_int v) (\<lambda>n. Inr (bytes_in (of_int n) BYTE_UNITS)))"

definition hms :: "int \<Rightarrow> int \<times> int \<times> int" where
  "hms n = (n div 3600, n mod 3600 div 60, n mod 3600 mod 60)"

definition format_duration :: "json \<Rightarrow> snapshot_failure + string" where
  "format_duration v =
     (if v = JNull then Inr DASH
      else onward (to_int v) (\<lambda>n. let (h, m, s) = hms n in
        Inr (if h \<noteq> 0 then ''~'' @ show_int h @ ''h '' @ show_int m @ ''m'' else ''~'' @ show_int m @ ''m '' @ show_int s @ ''s'')))"

definition pad2 :: "int \<Rightarrow> string" where
  "pad2 n = (if 0 \<le> n \<and> n < 10 then ''0'' else []) @ show_int n"

definition format_elapsed_duration :: "json \<Rightarrow> string" where
  "format_elapsed_duration v =
     (case as_number v of
        None \<Rightarrow> ''?''
      | Some r \<Rightarrow>
          if r < 0 then ''?'' else let (h, m, s) = hms (floor r) in pad2 h @ '':'' @ pad2 m @ '':'' @ pad2 s)"

definition countdown :: "int \<Rightarrow> string" where
  "countdown n =
     (let (h, m, s) = hms (max 0 n) in
      if h \<noteq> 0 then show_int h @ ''h '' @ show_int m @ ''m''
      else if m \<noteq> 0 then show_int m @ ''m '' @ show_int s @ ''s'' else show_int s @ ''s'')"

definition format_countdown :: "json \<Rightarrow> snapshot_failure + string" where
  "format_countdown v = (if truthy v then onward (to_int v) (\<lambda>n. Inr (countdown n)) else Inr (countdown 0))"

definition zulu :: "string \<Rightarrow> string" where
  "zulu s = concat (map (\<lambda>c. if c = CHR ''Z'' then ''+00:00'' else [c]) s)"

text \<open>The time between two recorded instants that both have a zone, in this order.\<close>

definition recorded_age :: "display \<Rightarrow> json \<Rightarrow> jobject \<Rightarrow> string" where
  "recorded_age d v snapshot =
     (case v of
        JStr t \<Rightarrow>
          (case (dp_instant d (zulu t), dp_instant d (zulu (str_value (jget snapshot ''published_at'')))) of
             (Some (recorded, True), Some (pub, True)) \<Rightarrow>
               if pub < recorded then ''?'' else countdown (floor (pub - recorded)) @ '' ago''
           | _ \<Rightarrow> ''?'')
      | _ \<Rightarrow> ''?'')"

subsection \<open>The summary\<close>

definition entry_or :: "jobject \<Rightarrow> string \<Rightarrow> json \<Rightarrow> json" where
  "entry_or kvs k x = (case map_of kvs k of None \<Rightarrow> x | Some v \<Rightarrow> v)"

text \<open>A metric of a snapshot; the metrics themselves are not checked, so an access can fail.\<close>

definition metric_entry :: "jobject \<Rightarrow> string \<Rightarrow> snapshot_failure + json" where
  "metric_entry snapshot name =
     (case entry_or (run_of snapshot) ''metrics'' (JObj []) of JObj kvs \<Rightarrow> Inr (jget kvs name) | _ \<Rightarrow> Inl TypeFailure)"

definition metric_value :: "jobject \<Rightarrow> string \<Rightarrow> snapshot_failure + json" where
  "metric_value snapshot name =
     onward (metric_entry snapshot name) (\<lambda>v. Inr (case v of
        JObj kvs \<Rightarrow> jget kvs ''value''
      | _ \<Rightarrow> if as_number v = None then JNull else v))"

definition metric_quality :: "jobject \<Rightarrow> string \<Rightarrow> snapshot_failure + json" where
  "metric_quality snapshot name =
     onward (metric_entry snapshot name) (\<lambda>v. Inr (case v of
        JObj kvs \<Rightarrow> entry_or kvs ''quality'' (JStr ''unavailable'')
      | _ \<Rightarrow> JStr ''unavailable''))"

definition metric_bytes :: "jobject \<Rightarrow> string \<Rightarrow> snapshot_failure + string" where
  "metric_bytes snapshot name = onward (metric_value snapshot name) format_bytes"

definition workers_of :: "jobject \<Rightarrow> jobject list" where
  "workers_of snapshot =
     (case jget snapshot ''workers'' of JArr vs \<Rightarrow> map (\<lambda>v. case v of JObj kvs \<Rightarrow> kvs | _ \<Rightarrow> []) vs | _ \<Rightarrow> [])"

definition or_unknown :: "display \<Rightarrow> json \<Rightarrow> string \<Rightarrow> string" where
  "or_unknown d v missing = (if truthy v then literal_text d v else missing)"

definition cooling_down :: "jobject \<Rightarrow> bool" where
  "cooling_down snapshot =
     ((case as_number (jget (health_of snapshot) ''cooldown_remaining_s'') of None \<Rightarrow> False | Some r \<Rightarrow> 0 < r) \<or>
      list_ex (\<lambda>w. jget w ''phase'' = JStr ''cooldown'') (workers_of snapshot))"

definition counters_unknown :: "jobject \<Rightarrow> bool" where
  "counters_unknown snapshot =
     (workers_of snapshot \<noteq> [] \<and>
      list_all (\<lambda>w. jget w ''received_bytes'' = JNull \<and> jget w ''total_bytes'' = JNull) (workers_of snapshot))"

definition progress_status :: "display \<Rightarrow> jobject \<Rightarrow> string" where
  "progress_status d snapshot =
     (let run = run_of snapshot; lifecycle = str_lower (str_json d (entry_or run ''lifecycle'' (JStr []))) in
      if lifecycle = ''finished'' then ''Completed at '' @ or_unknown d (jget run ''completed_at'') ''?''
      else if lifecycle = ''stopped''
      then ''Stopped at '' @ or_unknown d (jget run ''stopped_at'') ''?'' @ '': '' @ or_unknown d (jget run ''reason'') ''unknown reason''
      else
        let payload_age = recorded_age d (jget run ''last_payload_progress_at'') snapshot;
            completion_age = recorded_age d (jget run ''last_completion_at'') snapshot;
            downloading = list_ex (\<lambda>w. jget w ''phase'' = JStr ''downloading'') (workers_of snapshot)
        in if (cooling_down snapshot \<or> counters_unknown snapshot) \<and> payload_age \<noteq> ''?'' then ''Last payload progress '' @ payload_age
           else if \<not> downloading \<and> payload_age \<noteq> ''?'' then ''Last payload progress '' @ payload_age
           else if completion_age \<noteq> ''?'' then ''Last complete '' @ completion_age
           else if payload_age \<noteq> ''?'' then ''Last payload progress '' @ payload_age
           else ''No payload progress recorded'')"

fun whole :: "json \<Rightarrow> int option" where
  "whole (JInt n) = Some n"
| "whole (JBool b) = Some (if b then 1 else 0)"
| "whole _ = None"

text \<open>The line of one file system, or \<open>None\<close> when it is not as a snapshot should have it.\<close>

definition disk_line :: "json \<Rightarrow> string option" where
  "disk_line v =
     (case v of
        JObj fsys \<Rightarrow>
          (case (jget fsys ''roles'', whole (jget fsys ''free_bytes''), whole (jget fsys ''reserve_bytes''), whole (jget fsys ''headroom_bytes'')) of
             (JArr roles, Some free, Some reserve, Some headroom) \<Rightarrow>
               if roles = [] \<or> \<not> list_all is_str roles then None
               else
                 let show_bytes = (\<lambda>n. bytes_in (of_int n) BYTE_UNITS);
                     risk = (if headroom < 0 then '' storage risk'' else if headroom = 0 then '' storage stop'' else [])
                 in Some (''Disk  '' @ show_bytes free @ '' free | '' @ show_bytes reserve @ '' reserve | '' @
                      show_bytes \<bar>headroom\<bar> @ '' headroom'' @ risk)
           | _ \<Rightarrow> None)
      | _ \<Rightarrow> None)"

fun disk_lines :: "json list \<Rightarrow> string list option" where
  "disk_lines [] = Some []"
| "disk_lines (v # vs) =
     (case (disk_line v, disk_lines vs) of (Some l, Some ls) \<Rightarrow> Some (l # ls) | _ \<Rightarrow> None)"

definition disk_status :: "display \<Rightarrow> jobject \<Rightarrow> string" where
  "disk_status d snapshot =
     (case (freshness (dp_instant d) (dp_now d) snapshot = ''live'', jget (health_of snapshot) ''filesystems'') of
        (True, JArr (v # vs)) \<Rightarrow>
          (case disk_lines (v # vs) of None \<Rightarrow> ''Disk status unavailable'' | Some ls \<Rightarrow> join_with [newline] ls)
      | _ \<Rightarrow> ''Disk status unavailable'')"

definition retry_summary :: "display \<Rightarrow> jobject \<Rightarrow> snapshot_failure + string" where
  "retry_summary d snapshot =
     (let health = health_of snapshot; remaining = jget health ''retry_remaining_s''; cooldown = jget health ''cooldown_remaining_s'';
          pending = truthy (entry_or health ''retry_pending_count'' (JInt 0)) in
      if jget (run_of snapshot) ''lifecycle'' = JStr ''finished'' \<and> \<not> pending then Inr ''No retries pending''
      else if pending \<and> eq_int remaining 0 then
        (if truthy cooldown then onward (format_countdown cooldown) (\<lambda>t. Inr (''Retry eligible now; SOCKS cooldown '' @ t))
         else Inr ''Retry eligible now; waiting for controller admission'')
      else if remaining \<noteq> JNull then
        onward (format_duration remaining) (\<lambda>t.
          let reason = jget health ''retry_error'' in
          Inr (''Retry eligible in '' @ t @ '': '' @
            concat (take 120 (characters (or_unknown d reason ''waiting'')))))
      else if truthy cooldown then onward (format_duration cooldown) (\<lambda>t. Inr (''SOCKS cooldown '' @ t))
      else Inr ''Retry: no pending deadline'')"

definition counts_of :: "jobject \<Rightarrow> jobject" where
  "counts_of snapshot = (case jget (run_of snapshot) ''counts'' of JObj kvs \<Rightarrow> kvs | _ \<Rightarrow> [])"

definition concise_status :: "display \<Rightarrow> jobject \<Rightarrow> snapshot_failure + string" where
  "concise_status d snapshot =
     (let run = run_of snapshot; counts = counts_of snapshot in
      onward (metric_bytes snapshot ''retained_bytes'') (\<lambda>retained.
      onward (metric_bytes snapshot ''speed_bps'') (\<lambda>speed.
      onward (retry_summary d snapshot) (\<lambda>retry.
      Inr (join_with [newline]
        [''TOD-DL '' @ str_value (jget snapshot ''run_id'') @ '' '' @ str_upper (str_value (jget run ''lifecycle'')) @ '' ('' @
           freshness (dp_instant d) (dp_now d) snapshot @ '')'',
         ''Files '' @ join_with '' | '' (map (\<lambda>name. name @ ''='' @ str_json d (jget counts name))
           (filter (\<lambda>name. truthy (jget counts name)) (sort (map fst counts)))),
         ''Data retained='' @ retained @ '' speed='' @ speed @ ''/s'', retry])))))"

definition screen_summary :: "display \<Rightarrow> jobject \<Rightarrow> string \<Rightarrow> json option \<Rightarrow> snapshot_failure + string" where
  "screen_summary d snapshot trend_label session_elapsed_s =
     (let run = run_of snapshot; counts = counts_of snapshot; count = (\<lambda>name. str_json d (jget counts name));
          elapsed = (case session_elapsed_s of None \<Rightarrow> jget snapshot ''session_elapsed_s'' | Some v \<Rightarrow> v) in
      onward (metric_value snapshot ''unknown_size_items'') (\<lambda>unknown.
      onward (onward (metric_value snapshot ''eta_seconds'') format_duration) (\<lambda>eta.
      onward (metric_bytes snapshot ''retained_bytes'') (\<lambda>retained.
      onward (metric_bytes snapshot ''known_remaining_bytes'') (\<lambda>remaining.
      onward (metric_bytes snapshot ''speed_bps'') (\<lambda>speed.
      onward (retry_summary d snapshot) (\<lambda>retry.
      let eta = (if eta = DASH \<and> truthy unknown
                 then eta @ '' ('' @ str_json d unknown @ '' '' @ (if eq_int unknown 1 then ''item size'' else ''item sizes'') @ '' unknown)''
                 else eta)
      in Inr (join_with [newline]
        [''TOD-DL  '' @ literal_text d (jget snapshot ''run_id'') @ ''  '' @ str_upper (literal_text d (jget run ''lifecycle'')) @ ''  Session '' @
           format_elapsed_duration elapsed @ ''  '' @ progress_status d snapshot,
         ''Files  '' @ join_with '' | '' [count ''complete'' @ ''/'' @ str_json d (jget run ''selected_count'') @ '' complete'',
           count ''busy'' @ '' busy'', count ''retry'' @ '' retry'', count ''review_required'' @ '' review'', count ''queued'' @ '' queued''],
         ''Data   '' @ retained @ '' retained | '' @ remaining @ '' remaining'',
         ''Speed  '' @ speed @ ''/s | '' @ trend_label @ '' | ETA '' @ eta,
         disk_status d snapshot, retry]))))))))"

subsection \<open>The trend of the speed\<close>

record speed_trend =
  st_samples :: "(rat \<times> rat option) list"
  st_session :: "string option"
  st_sequence :: "rat option"

definition new_trend :: speed_trend where
  "new_trend = \<lparr>st_samples = [], st_session = None, st_sequence = None\<rparr>"

text \<open>The value \<open>observe\<close> records: a number when the quality says so, null otherwise.\<close>

definition speed_sample :: "display \<Rightarrow> jobject \<Rightarrow> snapshot_failure + rat option" where
  "speed_sample d snapshot =
     onward (metric_quality snapshot ''speed_bps'') (\<lambda>quality.
     onward (metric_value snapshot ''speed_bps'') (\<lambda>v.
       if \<not> hashable quality then Inl TypeFailure
       else if quality \<notin> {JStr ''exact'', JStr ''estimated''} \<or> v = JNull then Inr None
       else (case v of
           JInt n \<Rightarrow> Inr (Some (of_int n))
         | JBool b \<Rightarrow> Inr (Some (if b then 1 else 0))
         | JFloat r \<Rightarrow> Inr (Some r)
         | JStr s \<Rightarrow> (case dp_float d s of None \<Rightarrow> Inl ValueFailure | Some r \<Rightarrow> Inr (Some r))
         | _ \<Rightarrow> Inl TypeFailure)))"

text \<open>\<open>observe\<close> of a session and sequence number; \<open>reading\<close> is evaluated only when a sample is recorded.\<close>

definition observe :: "rat \<Rightarrow> string \<Rightarrow> rat \<Rightarrow> snapshot_failure + rat option \<Rightarrow> speed_trend \<Rightarrow> snapshot_failure option \<times> speed_trend" where
  "observe current session sequence reading t =
     (let same = (st_session t = Some session);
          t' = (if \<not> same \<or> (case st_sequence t of None \<Rightarrow> False | Some q \<Rightarrow> sequence < q) then t\<lparr>st_samples := []\<rparr> else t)
      in if st_sequence t' = Some sequence \<and> same then (None, t')
         else if st_samples t' \<noteq> [] \<and> same \<and> current - fst (last (st_samples t')) < 1 then (None, t'\<lparr>st_sequence := Some sequence\<rparr>)
         else (case reading of
             Inl x \<Rightarrow> (Some x, t')
           | Inr v \<Rightarrow> (None, t'\<lparr>st_samples := dropWhile (\<lambda>s. 300 < current - fst s) (st_samples t' @ [(current, v)]),
               st_session := Some session, st_sequence := Some sequence\<rparr>)))"

definition trend_label :: "speed_trend \<Rightarrow> string" where
  "trend_label t =
     (let valid = concat (map (\<lambda>(at_time, v). case v of None \<Rightarrow> [] | Some r \<Rightarrow> [(at_time, r)]) (st_samples t)) in
      if valid = [] then ''No data''
      else
        let latest_at = fst (last valid); window = filter (\<lambda>s. latest_at - fst s \<le> 60) valid in
        if length window < 10 \<or> fst (last window) - fst (hd window) < 30 then ''Collecting''
        else
          let third = max 1 (length window div 3);
              early = sum_list (map snd (take third window)) / of_nat third;
              late = sum_list (map snd (drop (length window - third) window)) / of_nat third
          in if early \<le> 0 then (if 0 < late then ''Rising'' else ''Steady'')
             else if early * 11 / 10 \<le> late then ''Rising''
             else if late \<le> early * 9 / 10 then ''Falling'' else ''Steady'')"


subsection \<open>The trend keeps few samples\<close>

text \<open>Samples are at least a second apart and cover at most five minutes.\<close>

definition trend_ok :: "speed_trend \<Rightarrow> bool" where
  "trend_ok t \<longleftrightarrow> sorted_wrt (\<lambda>a b. fst a + 1 \<le> fst b) (st_samples t) \<and>
     (st_samples t \<noteq> [] \<longrightarrow> fst (last (st_samples t)) - fst (hd (st_samples t)) \<le> 300)"

lemma spaced_append:
  assumes "sorted_wrt (\<lambda>a b. fst a + 1 \<le> fst b) xs" and "xs \<noteq> [] \<Longrightarrow> fst (last xs) + 1 \<le> (fst x :: rat)"
  shows "sorted_wrt (\<lambda>a b. fst a + 1 \<le> fst b) (xs @ [x])"
proof -
  have "fst y + 1 \<le> fst x" if "y \<in> set xs" for y
  proof -
    from that obtain ys zs where xs: "xs = ys @ y # zs" by (auto simp: in_set_conv_decomp)
    show ?thesis
    proof (cases zs rule: rev_cases)
      case (snoc us z)
      then have "fst y + 1 \<le> fst z" using assms(1) by (simp add: xs sorted_wrt_append)
      moreover have "fst z + 1 \<le> fst x" using assms(2) by (simp add: xs snoc)
      ultimately show ?thesis by simp
    qed (use assms(2) xs in simp)
  qed
  then show ?thesis using assms(1) by (simp add: sorted_wrt_append)
qed

lemma spaced_length:
  "sorted_wrt (\<lambda>a b. fst a + 1 \<le> fst b) xs \<Longrightarrow> xs \<noteq> [] \<Longrightarrow> fst (hd xs) + of_nat (length xs - 1) \<le> (fst (last xs) :: rat)"
proof (induction xs)
  case (Cons x xs)
  show ?case
  proof (cases xs)
    case (Cons y ys)
    with Cons.IH Cons.prems(1) have "fst y + of_nat (length ys) \<le> fst (last xs)" by simp
    moreover have "fst x + 1 \<le> fst y" using Cons.prems(1) Cons by simp
    ultimately show ?thesis using Cons by simp
  qed simp
qed simp

lemma sorted_wrt_dropWhile: "sorted_wrt R xs \<Longrightarrow> sorted_wrt R (dropWhile P xs)"
  by (metis dropWhile_eq_drop sorted_wrt_drop)

lemma observe_ok:
  assumes "trend_ok t"
  shows "trend_ok (snd (observe current session sequence reading t))"
proof -
  define same where "same = (st_session t = Some session)"
  define t' where "t' = (if \<not> same \<or> (case st_sequence t of None \<Rightarrow> False | Some q \<Rightarrow> sequence < q) then t\<lparr>st_samples := []\<rparr> else t)"
  have ok: "trend_ok t'" using assms by (simp add: t'_def trend_ok_def)
  have cleared: "\<not> same \<Longrightarrow> st_samples t' = []" by (simp add: t'_def)
  have kept: "trend_ok (t'\<lparr>st_samples := dropWhile (\<lambda>s. 300 < current - fst s) (st_samples t' @ [(current, v)]),
      st_session := Some session, st_sequence := Some sequence\<rparr>)"
    if "\<not> (st_samples t' \<noteq> [] \<and> same \<and> current - fst (last (st_samples t')) < 1)" for v
  proof -
    let ?ys = "st_samples t' @ [(current, v)]" and ?P = "\<lambda>s. 300 < current - fst s"
    have "sorted_wrt (\<lambda>a b. fst a + 1 \<le> fst b) ?ys"
      by (rule spaced_append) (use ok that cleared in \<open>auto simp: trend_ok_def\<close>)
    then have "sorted_wrt (\<lambda>a b. fst a + 1 \<le> fst b) (dropWhile ?P ?ys)" by (rule sorted_wrt_dropWhile)
    moreover have "last (dropWhile ?P ?ys) = (current, v)" by (simp add: dropWhile_append)
    moreover have "dropWhile ?P ?ys \<noteq> []" by (simp add: dropWhile_append)
    then have "\<not> ?P (hd (dropWhile ?P ?ys))" by (rule hd_dropWhile)
    ultimately show ?thesis by (simp add: trend_ok_def)
  qed
  have frame: "trend_ok (t'\<lparr>st_sequence := Some sequence\<rparr>)" using ok by (simp add: trend_ok_def)
  have "snd (observe current session sequence reading t) \<in> {t', t'\<lparr>st_sequence := Some sequence\<rparr>} \<or>
      (\<exists>v. \<not> (st_samples t' \<noteq> [] \<and> same \<and> current - fst (last (st_samples t')) < 1) \<and>
        snd (observe current session sequence reading t) = t'\<lparr>st_samples := dropWhile (\<lambda>s. 300 < current - fst s) (st_samples t' @ [(current, v)]),
          st_session := Some session, st_sequence := Some sequence\<rparr>)"
    unfolding observe_def Let_def same_def [symmetric] t'_def [symmetric] by (cases reading) auto
  then show ?thesis using ok frame kept by auto
qed

text \<open>
  C39: the history of the speed is bounded.  Whatever snapshots the monitor sees, at whatever clock
  readings, two samples of the history are at least a second apart, the history covers at most 300
  seconds, and it has at most 301 samples.
\<close>

theorem trend_is_bounded:
  "trend_ok (fold (\<lambda>(current, session, sequence, reading) t. snd (observe current session sequence reading t)) seen new_trend) \<and>
    length (st_samples (fold (\<lambda>(current, session, sequence, reading) t. snd (observe current session sequence reading t)) seen new_trend)) \<le> 301"
proof -
  define t where "t = fold (\<lambda>(current, session, sequence, reading) t. snd (observe current session sequence reading t)) seen new_trend"
  have step: "trend_ok t0 \<Longrightarrow> trend_ok (fold (\<lambda>(current, session, sequence, reading) t. snd (observe current session sequence reading t)) seen t0)" for t0
    by (induction seen arbitrary: t0) (auto simp: observe_ok)
  have t: "trend_ok t" unfolding t_def by (rule step) (simp add: trend_ok_def new_trend_def)
  have "length (st_samples t) \<le> 301"
  proof (cases "st_samples t = []")
    case False
    then have "of_nat (length (st_samples t) - 1) \<le> (300 :: rat)" using spaced_length [of "st_samples t"] t by (auto simp: trend_ok_def)
    then show ?thesis by simp
  qed simp
  with t show ?thesis by (simp only: t_def)
qed

subsection \<open>Names that fit\<close>

lemma takeWhile_take_drop: "takeWhile P (take k t) @ drop (length (takeWhile P (take k t))) t = t"
proof -
  have "takeWhile P (take k t) = take (length (takeWhile P (take k t))) t"
    by (metis append_take_drop_id append_eq_conv_conj takeWhile_dropWhile_id append.assoc)
  then show ?thesis by (metis append_take_drop_id)
qed

lemma utf8_take_prefix: "utf8_take c s = (sq, ok) \<Longrightarrow> sq @ drop (length sq - 1) s = c # s"
  by (auto simp: utf8_take_def Let_def takeWhile_take_drop split: option.splits list.splits if_splits)
    (metis takeWhile_take_drop)

lemma concat_characters: "concat (characters s) = s"
proof (induction s rule: characters.induct)
  case (2 c s)
  show ?case
  proof (cases "byte_in 0 0x7F c")
    case False
    obtain sq ok where sq: "utf8_take c s = (sq, ok)" by fastforce
    then have "sq @ drop (length sq - 1) s = c # s" by (rule utf8_take_prefix)
    with 2(2) [OF False sq [symmetric] refl] False sq show ?thesis by (simp add: characters.simps)
  qed (use 2(1) in \<open>simp add: characters.simps\<close>)
qed (simp add: characters.simps)

lemma fitting_prefix: "\<exists>i. fitting cells limit kept cs = kept @ concat (take i cs)"
proof (induction cs arbitrary: kept)
  case (Cons c cs)
  show ?case
  proof (cases "limit < int (cells (kept @ c))")
    case True
    then show ?thesis by (intro exI [of _ 0]) simp
  next
    case False
    from Cons [of "kept @ c"] obtain i where "fitting cells limit (kept @ c) cs = (kept @ c) @ concat (take i cs)" by blast
    with False show ?thesis by (intro exI [of _ "Suc i"]) simp
  qed
qed simp

lemma fitting_back_suffix: "\<exists>i. fitting_back cells limit kept cs = concat (rev (take i cs)) @ kept"
proof (induction cs arbitrary: kept)
  case (Cons c cs)
  show ?case
  proof (cases "limit < int (cells (c @ kept))")
    case True
    then show ?thesis by (intro exI [of _ 0]) simp
  next
    case False
    from Cons [of "c @ kept"] obtain i where "fitting_back cells limit (c @ kept) cs = concat (rev (take i cs)) @ c @ kept" by blast
    with False show ?thesis by (intro exI [of _ "Suc i"]) simp
  qed
qed simp

lemma back_to_front: "rev (drop j (rev xs)) @ rev (take j (rev xs)) = xs"
proof -
  have "rev (take j (rev xs) @ drop j (rev xs)) = xs" by (subst append_take_drop_id) simp
  then show ?thesis unfolding rev_append .
qed

lemma fitting_fits: "int (cells kept) \<le> limit \<Longrightarrow> int (cells (fitting cells limit kept cs)) \<le> limit"
  by (induction cs arbitrary: kept) auto

lemma fitting_back_fits: "int (cells kept) \<le> limit \<Longrightarrow> int (cells (fitting_back cells limit kept cs)) \<le> limit"
  by (induction cs arbitrary: kept) auto

definition control_byte :: "char \<Rightarrow> bool" where
  "control_byte c = (byte_in 0 31 c \<or> c = CHR 0x7F)"

lemma hex2_plain:
  assumes "c \<in> set (hex2 b)"
  shows "\<not> control_byte c"
proof -
  define dg where "dg = (\<lambda>k :: nat. if k < 10 then char_of (48 + k) else char_of (87 + k) :: char)"
  have "(of_char b :: nat) div 16 < 16" by (intro less_mult_imp_div_less) simp
  moreover have "c \<in> {dg (of_char b div 16), dg (of_char b mod 16)}" using assms by (simp add: hex2_def Let_def dg_def)
  moreover have "(of_char b :: nat) mod 16 < 16" by simp
  ultimately obtain k where k: "k < 16" "c = dg k" by blast
  then have c: "(of_char c :: nat) = (if k < 10 then 48 + k else 87 + k)" by (simp add: of_char_of dg_def)
  with k(1) have "31 < (of_char c :: nat)" "(of_char c :: nat) \<noteq> 127" by (auto split: if_splits)
  then show ?thesis by (auto simp: control_byte_def byte_in_def Let_def)
qed

lemma literal_plain: "c \<in> set (literal s) \<Longrightarrow> \<not> control_byte c"
  by (auto simp: literal_def control_byte_def [symmetric] hex2_plain split: if_splits)
    (auto simp: control_byte_def byte_in_def)

text \<open>
  C40: a shortened name fits, keeps its ends and is harmless.  For every width of at least one column, what
  \<open>truncate_filename\<close> shows of a name is no wider than the width, is the name itself or a beginning
  and an end of it around one ellipsis, and has no control character of ASCII, whatever the name was.
\<close>

theorem shortened_names_fit:
  assumes "\<And>a b. dp_cells d (a @ b) \<le> dp_cells d a + dp_cells d b" and "dp_cells d [] = 0" and "dp_cells d ELLIPSIS \<le> 1" and "1 \<le> width"
  shows "int (dp_cells d (truncate_filename d v width)) \<le> width \<and>
    (\<forall>c \<in> set (truncate_filename d v width). \<not> control_byte c) \<and>
    (truncate_filename d v width = literal_text d v \<or>
     (\<exists>head tail x y. truncate_filename d v width = head @ ELLIPSIS @ tail \<and> literal_text d v = head @ x \<and> literal_text d v = y @ tail))"
proof (cases "int (dp_cells d (literal_text d v)) \<le> width")
  case True
  then show ?thesis using literal_plain by (auto simp: truncate_filename_def middle_truncate_def literal_text_def)
next
  case False
  define name where "name = literal_text d v"
  define tail_width where "tail_width = (width - 1) div 2"
  define head where "head = fitting (dp_cells d) (width - 1 - tail_width) [] (characters name)"
  define tail where "tail = fitting_back (dp_cells d) tail_width [] (rev (characters name))"
  have cut: "truncate_filename d v width = head @ ELLIPSIS @ tail"
    using False by (simp add: truncate_filename_def middle_truncate_def Let_def head_def tail_def tail_width_def name_def)
  have "0 \<le> tail_width" "0 \<le> width - 1 - tail_width" using assms(4) by (auto simp: tail_width_def)
  then have w: "int (dp_cells d head) \<le> width - 1 - tail_width" "int (dp_cells d tail) \<le> tail_width"
    using fitting_fits [of "dp_cells d" "[]" "width - 1 - tail_width" "characters name"]
      fitting_back_fits [of "dp_cells d" "[]" tail_width "rev (characters name)"] assms(2) by (simp_all add: head_def tail_def)
  have "dp_cells d (head @ ELLIPSIS @ tail) \<le> dp_cells d head + (dp_cells d ELLIPSIS + dp_cells d tail)"
    using assms(1) [of head "ELLIPSIS @ tail"] assms(1) [of ELLIPSIS tail] by linarith
  with w assms(3) have fits: "int (dp_cells d (head @ ELLIPSIS @ tail)) \<le> width" by linarith
  obtain i where "head = concat (take i (characters name))"
    using fitting_prefix [of "dp_cells d" "width - 1 - tail_width" "[]" "characters name"] by (auto simp: head_def)
  moreover have "concat (take i (characters name) @ drop i (characters name)) = name" by (simp only: append_take_drop_id concat_characters)
  ultimately have x: "name = head @ concat (drop i (characters name))" by (simp only: concat_append)
  obtain j where "tail = concat (rev (take j (rev (characters name))))"
    using fitting_back_suffix [of "dp_cells d" tail_width "[]" "rev (characters name)"] by (auto simp: tail_def)
  moreover have "concat (rev (drop j (rev (characters name))) @ rev (take j (rev (characters name)))) = name"
    by (simp only: back_to_front concat_characters)
  ultimately have y: "name = concat (rev (drop j (rev (characters name)))) @ tail" by (simp only: concat_append)
  have "c \<in> set name \<Longrightarrow> \<not> control_byte c" for c unfolding name_def literal_text_def by (rule literal_plain)
  moreover have "set head \<subseteq> set name" "set tail \<subseteq> set name" by (subst x, simp) (subst y, simp)
  moreover have "c \<in> set ELLIPSIS \<Longrightarrow> \<not> control_byte c" for c by (auto simp: ELLIPSIS_def control_byte_def byte_in_def)
  ultimately have "\<forall>c \<in> set (head @ ELLIPSIS @ tail). \<not> control_byte c" by auto
  with fits x y show ?thesis unfolding cut name_def [symmetric] by blast
qed

definition example_display :: display where
  "example_display = \<lparr>dp_sha = (\<lambda>s. s), dp_cells = (\<lambda>s. length (characters s)), dp_repr = (\<lambda>_. []), dp_float = (\<lambda>_. None),
     dp_instant = (\<lambda>_. None), dp_now = 0\<rparr>"

theorem shortened_names_fit_witness:
  "\<exists>head tail. truncate_filename (example_display\<lparr>dp_cells := \<lambda>s. length (filter (\<lambda>c. \<not> byte_in 0x80 0xBF c) s)\<rparr>) (JStr ''a-long-name.bin'') 8 = head @ ELLIPSIS @ tail"
proof -
  let ?d = "example_display\<lparr>dp_cells := \<lambda>s. length (filter (\<lambda>c. \<not> byte_in 0x80 0xBF c) s)\<rparr>"
  have add: "dp_cells ?d (a @ b) \<le> dp_cells ?d a + dp_cells ?d b" for a b
    by simp
  have "truncate_filename ?d (JStr ''a-long-name.bin'') 8 \<noteq> literal_text ?d (JStr ''a-long-name.bin'')" by code_simp
  then show ?thesis using shortened_names_fit [of ?d 8 "JStr ''a-long-name.bin''", OF add] by (auto simp: ELLIPSIS_def byte_in_def)
qed


subsection \<open>What the check of a snapshot leaves open\<close>

definition with_metrics :: "json \<Rightarrow> jobject \<Rightarrow> jobject" where
  "with_metrics metrics snapshot =
     AList.update ''run'' (JObj (AList.update ''metrics'' metrics (run_of snapshot))) snapshot"

lemma validate_run_metrics: "validate_run (AList.update ''metrics'' metrics run) = validate_run run"
  by (simp add: validate_run_def jget_update)

lemma validate_2_metrics: "validate_version_2 (AList.update ''metrics'' metrics run) health = validate_version_2 run health"
  by (simp add: validate_version_2_def jget_update)

lemma metrics_not_checked:
  assumes "validate_snapshot (JObj kvs) = Inr snapshot"
  shows "validate_snapshot (JObj (with_metrics metrics kvs)) = Inr (with_metrics metrics kvs)"
proof -
  from assms obtain run health where run: "jget kvs ''run'' = JObj run" "jget kvs ''health'' = JObj health"
    by (auto simp: validate_snapshot_def object_of_def accepted_iff split: if_splits json.splits)
  from assms show ?thesis
    unfolding validate_snapshot_def with_metrics_def run_of_def object_of_def json.case onward_Inr
    by (simp add: jget_update run validate_run_metrics validate_2_metrics accepted_iff split: if_split_asm) blast+
qed

text \<open>
  C38: an accepted snapshot can stop the monitor.  The check of a snapshot does not look at its metrics.
  Whatever snapshot the monitor accepts, it also accepts the same one with a text for the retained
  bytes, and then the summary of the screen raises an exception instead of showing the value as unknown.
\<close>

theorem accepted_snapshot_stops_the_summary:
  assumes "validate_snapshot (JObj kvs) = Inr snapshot"
    and "bad = with_metrics (JObj [(''retained_bytes'', JObj [(''value'', JStr ''many'')])]) kvs"
  shows "validate_snapshot (JObj bad) = Inr bad \<and> screen_summary d bad trend elapsed = Inl ValueFailure \<and>
    concise_status d bad = Inl ValueFailure"
proof -
  have metrics: "entry_or (run_of bad) ''metrics'' (JObj []) = JObj [(''retained_bytes'', JObj [(''value'', JStr ''many'')])]"
    by (simp add: assms(2) with_metrics_def run_of_def jget_update entry_or_def update_conv)
  have vals: "metric_value bad ''unknown_size_items'' = Inr JNull" "metric_value bad ''eta_seconds'' = Inr JNull"
    "metric_value bad ''retained_bytes'' = Inr (JStr ''many'')"
    by (simp_all add: metric_value_def metric_entry_def metrics jget_def)
  have "py_int (strip ''many'') = None" by code_simp
  then have "metric_bytes bad ''retained_bytes'' = Inl ValueFailure"
    by (simp add: metric_bytes_def vals format_bytes_def to_int_def onward_def)
  then have "screen_summary d bad trend elapsed = Inl ValueFailure" "concise_status d bad = Inl ValueFailure"
    by (simp_all add: screen_summary_def concise_status_def Let_def vals format_duration_def) (simp_all add: onward_def)
  moreover have "validate_snapshot (JObj bad) = Inr bad" unfolding assms(2) by (rule metrics_not_checked [OF assms(1)])
  ultimately show ?thesis by blast
qed

definition example_snapshot :: jobject where
  "example_snapshot = [(''schema_version'', JInt 1), (''run_id'', JStr ''r''), (''session_id'', JStr ''s''), (''published_at'', JStr ''t''),
     (''sequence'', JInt 1), (''session_elapsed_s'', JInt 2), (''state_revision'', JInt 3),
     (''run'', JObj [(''lifecycle'', JStr ''running''), (''selected_count'', JInt 1), (''counts'', counts_json (\<lambda>b. if b = BBusy then 1 else 0))]),
     (''workers'', JArr [JObj [(''worker_id'', JInt 1)]]), (''validation'', JArr []), (''recent_events'', JArr []), (''health'', JObj [])]"

theorem accepted_snapshot_stops_the_summary_witness:
  "validate_snapshot (JObj example_snapshot) = Inr example_snapshot \<and>
    screen_summary example_display (with_metrics (JObj [(''retained_bytes'', JObj [(''value'', JStr ''many'')])]) example_snapshot) [] None =
      Inl ValueFailure"
proof -
  have "validate_snapshot (JObj example_snapshot) = Inr example_snapshot" by code_simp
  from accepted_snapshot_stops_the_summary [OF this refl] this show ?thesis by blast
qed

end
