(* ===== verification/Spec2Isabelle.thy ===== *)
theory Spec2Isabelle
  imports Telemetry Projection Verifier Control ControlServer Paths Queue Runner Snapshots Inspection MonitorText
begin

text \<open>
  A verification library for tod-dl, a controller that downloads the files of a queue over Tor, keeps
  their state in SQLite, records what it does in a signed event log, and lets an operator watch and
  steer it.  The program is the Python under \<open>src/src/\<close>; the theories follow its parts.

  \<^bold>\<open>How the parts interact.\<close>  \<open>tod-dl.py\<close> reads queue files, selects items of a run, admits them to
  workers and transfers each with an external engine.  Every change of an item is one transaction
  (\<open>transition\<close>) that also raises the revision of the run, writes a provenance event and updates the
  in-memory projection.  The telemetry publisher joins the projection with the samples of the workers
  into a snapshot file; the monitor reads that file, asks the inspection service for details and sends
  confirmed actions to the control server.  \<open>inventory.py\<close> stands apart: it turns directory listings into
  snapshots, manifests and the queue files that \<open>tod-dl.py\<close> reads.

  \<^bold>\<open>Theories.\<close>
  \<^item> \<open>Prelude\<close>, \<open>Json\<close>, \<open>Paging\<close>: Python's text operations on byte strings, parsed JSON values, step functions with
    exceptions (\<open>act\<close>), and the locale \<open>paged\<close> of keyset pagination, interpreted for the hydration of the
    projection, for the batches of a queue scan and for the pages of the queue.
  \<^item> \<open>Store\<close>, \<open>Projection\<close>, \<open>Downloader\<close> (\<open>tod-dl.py\<close>): the tables as lists of records, \<open>TelemetryStateProjection\<close>,
    the fields of \<open>class Downloader\<close>, \<open>open_db\<close>, \<open>update\<close>, \<open>transition\<close> and the event builders.  A
    transition keeps the projection equal to a fresh hydration of the tables.
  \<^item> \<open>Control\<close> (the eleven \<open>control_*\<close> handlers) and \<open>ControlServer\<close> (\<open>controller.py\<close>): the locale \<open>audited_action\<close>
    states what an action promises (one audit row, replay without effect, the projection in step), and is
    interpreted for each handler and for the dispatch.  Only an authenticated request that spends a
    fresh confirmation acts.
  \<^item> \<open>Paths\<close>, \<open>Queue\<close>, \<open>FileSystem\<close> (\<open>tod-dl.py\<close>): URLs and destination paths, queue files and logs, the system
    calls on a tree of nodes with the guards on paths.
  \<^item> \<open>Scheduling\<close>, \<open>Transfers\<close>, \<open>Recovery\<close>, \<open>Runner\<close> (\<open>tod-dl.py\<close>): selection and admission, one transfer with its
    failures and its promotion, what a start repairs, and the supervisor with the main loop as a step
    relation.
  \<^item> \<open>Provenance\<close> (\<open>provenance.py\<close>) and \<open>Verifier\<close> (\<open>verify_provenance.py\<close>): canonical JSON, schema, writer and the
    read-only verifier; what the writer appends verifies, and a final digest fixes the whole log.
  \<^item> \<open>Inventory\<close>, \<open>Manifest\<close>, \<open>Snapshots\<close> (\<open>inventory.py\<close>): the listing parser and the policy, the manifest and the
    queue export, the snapshot store with the activation log and the diff.
  \<^item> \<open>Telemetry\<close> (\<open>download_telemetry.py\<close>) and \<open>Publishing\<close> (with \<open>telemetry_snapshot\<close> of \<open>tod-dl.py\<close>): the reduction of
    samples to metrics, the state of the publisher, the snapshot and its publication.
  \<^item> \<open>Inspection\<close> (\<open>inspection.py\<close>): requests, the four queries with their cursors, answers and the client.
  \<^item> \<open>Monitor\<close>, \<open>MonitorText\<close> (\<open>monitor.py\<close>): the check of a snapshot, the choice of a run, the texts of the summary,
    cuts of names, and the trend of the speed.

  \<^bold>\<open>What the properties span.\<close>  Several connect components: the exported queue of a manifest is read back by
  \<open>read_queues\<close>; every file the publisher writes from a state in step with its tables passes
  \<open>validate_snapshot\<close>; the writer's events pass the verifier; a crash at any failpoint of a promotion is
  repaired by the next start; the buckets of the inspection service agree with those of the telemetry.
  Properties of kind error state behaviour that is probably not intended; each has a finding in the
  manifest.

  \<^bold>\<open>State, errors and loops.\<close>  A Python \<open>str\<close> is the list of its UTF-8 bytes, an \<open>int\<close> is \<open>int\<close> or \<open>nat\<close>, a \<open>float\<close> a
  rational.  A raised exception is the left side of a sum; one that ends a thread or the run is a
  constructor of its own or \<open>None\<close>.  Loops over data are structural or have a termination proof: the
  batches of the hydration and of the queue scan end because the cursor moves beyond the last key
  (\<open>beyond_decreases\<close>), line readers because the input shrinks.  The main loop of the supervisor takes fuel,
  and one turn more than there are jobs is enough after a stop; a client that follows cursors takes fuel,
  and the number of matching rows is enough.

  \<^bold>\<open>Parameters.\<close>  SHA-256, Unicode normalisation, \<open>json.loads\<close> and \<open>json.dumps\<close>, \<open>fromisoformat\<close>, clocks, the aria2 engine and
  HTTP replies, \<open>/proc\<close>, disk usage, signatures and \<open>rich\<close>'s column widths are arguments.  What a property needs
  of them (no collision of digests among the URLs of a run, a parser that reads back what was written, a
  width that is subadditive) is a hypothesis of that property, and its witness has an instance.

  \<^bold>\<open>Not modelled.\<close>  Sockets, session files, locks and threads as such: an interleaving that matters is a sequence of
  steps.  Key files and signing.  The staging directories, sidecar files, Markdown report and argument
  parsers of \<open>inventory.py\<close> and \<open>tod-dl.py\<close>.  The Textual application of \<open>monitor.py\<close> with its key bindings, the rows of
  workers, events and queue and the detail views.  \<open>acquisition_evaluation.py\<close>, \<open>run_acquisition_evaluation.py\<close>
  and \<open>aria2_evaluation_adapter.py\<close>, which script evaluations of the program with external tools.
  \<open>str.lower\<close> and \<open>str.split\<close> are those of ASCII; decimal digits of other scripts are not digits here.
\<close>

end
